(* ===== verification/C_Base.thy ===== *)
theory C_Base
  imports Main "HOL-Library.Word" "HOL-Library.Monad_Syntax"
begin

unbundle bit_operations_syntax

text \<open>
  The prelude of the development: the machine types of the i686 target, memory objects with
  checked access, and the generic lemmas on lists, options and words that the component theories
  share.

  \<^item> \<open>unsigned char\<close>, \<open>unsigned short\<close> and \<open>unsigned int\<close> (also \<open>uint32_t\<close>, \<open>size_t\<close> and
    addresses) are 8, 16 and 32 bit words, so arithmetic wraps as it does in C. A signed value is
    the same word read with \<^const>\<open>sint\<close>.
  \<^item> A C array or a byte buffer is a list. An access outside of it is undefined behaviour in C;
    the checked accesses \<open>rd\<close> and \<open>wr\<close> give \<^const>\<open>None\<close> there, and \<^const>\<open>None\<close> propagates
    through the option monad. A theorem that an operation returns \<^const>\<open>Some\<close> is therefore a
    memory-safety theorem.
\<close>

type_synonym u8 = "8 word"
type_synonym u16 = "16 word"
type_synonym u32 = "32 word"

section \<open>Checked access to memory objects\<close>

definition rd :: "'a list \<Rightarrow> nat \<Rightarrow> 'a option" where
  "rd xs i = (if i < length xs then Some (xs ! i) else None)"

definition wr :: "'a list \<Rightarrow> nat \<Rightarrow> 'a \<Rightarrow> 'a list option" where
  "wr xs i v = (if i < length xs then Some (xs[i := v]) else None)"

text \<open>The block of \<open>n\<close> elements from index \<open>i\<close>, and a block write of \<open>ys\<close> at index \<open>i\<close>.\<close>

definition seg :: "'a list \<Rightarrow> nat \<Rightarrow> nat \<Rightarrow> 'a list" where
  "seg xs i n = take n (drop i xs)"

definition blit :: "'a list \<Rightarrow> nat \<Rightarrow> 'a list \<Rightarrow> 'a list" where
  "blit xs i ys = take i xs @ ys @ drop (i + length ys) xs"

named_theorems mem_simps "reads and writes of memory objects"

lemma rd_eq_Some [mem_simps]: "rd xs i = Some v \<longleftrightarrow> i < length xs \<and> xs ! i = v"
  by (auto simp: rd_def)

lemma rd_eq_None [mem_simps]: "rd xs i = None \<longleftrightarrow> length xs \<le> i"
  by (auto simp: rd_def)

lemma wr_eq_Some [mem_simps]: "wr xs i v = Some ys \<longleftrightarrow> i < length xs \<and> ys = xs[i := v]"
  by (auto simp: wr_def)

lemma wr_eq_None [mem_simps]: "wr xs i v = None \<longleftrightarrow> length xs \<le> i"
  by (auto simp: wr_def)

lemma rd_inside [simp]: "i < length xs \<Longrightarrow> rd xs i = Some (xs ! i)"
  by (simp add: rd_def)

lemma wr_inside [simp]: "i < length xs \<Longrightarrow> wr xs i v = Some (xs[i := v])"
  by (simp add: wr_def)

lemma rd_outside [simp]: "length xs \<le> i \<Longrightarrow> rd xs i = None"
  by (simp add: rd_def)

lemma wr_outside [simp]: "length xs \<le> i \<Longrightarrow> wr xs i v = None"
  by (simp add: wr_def)

lemma rd_Cons_0 [simp]: "rd (x # xs) 0 = Some x"
  by (simp add: rd_def)

lemma length_seg [simp]: "length (seg xs i n) = min n (length xs - i)"
  by (simp add: seg_def)

lemma nth_seg: "j < n \<Longrightarrow> i + n \<le> length xs \<Longrightarrow> seg xs i n ! j = xs ! (i + j)"
  by (simp add: seg_def)

lemma seg_0 [simp]: "seg xs i 0 = []"
  by (simp add: seg_def)

lemma seg_Suc: "i < length xs \<Longrightarrow> seg xs i (Suc n) = xs ! i # seg xs (Suc i) n"
  by (simp add: seg_def Cons_nth_drop_Suc [symmetric])

lemma seg_whole: "seg xs 0 (length xs) = xs"
  by (simp add: seg_def)

lemma length_blit [simp]: "i + length ys \<le> length xs \<Longrightarrow> length (blit xs i ys) = length xs"
  by (simp add: blit_def)

lemma blit_Nil [simp]: "i \<le> length xs \<Longrightarrow> blit xs i [] = xs"
  by (simp add: blit_def)

lemma nth_blit:
  "i + length ys \<le> length xs \<Longrightarrow> j < length xs \<Longrightarrow>
   blit xs i ys ! j = (if i \<le> j \<and> j < i + length ys then ys ! (j - i) else xs ! j)"
  by (auto simp: blit_def nth_append min_def)

lemma blit_Cons:
  "i < length xs \<Longrightarrow> blit (xs[i := y]) (Suc i) ys = blit xs i (y # ys)"
  by (simp add: blit_def take_Suc_conv_app_nth drop_update_cancel)

lemma blit_single: "i < length xs \<Longrightarrow> blit xs i [y] = xs[i := y]"
  by (simp add: blit_def upd_conv_take_nth_drop)

lemma seg_blit_same:
  "i + length ys \<le> length xs \<Longrightarrow> seg (blit xs i ys) i (length ys) = ys"
  by (rule nth_equalityI) (auto simp: nth_seg nth_blit)

lemma seg_blit_other:
  "i + length ys \<le> length xs \<Longrightarrow> j + n \<le> length xs \<Longrightarrow> j + n \<le> i \<or> i + length ys \<le> j \<Longrightarrow>
   seg (blit xs i ys) j n = seg xs j n"
  by (rule nth_equalityI) (auto simp: nth_seg nth_blit)

section \<open>Machine words\<close>

lemma unat_less_u32 [simp]: "unat (w :: u32) < 4294967296"
  using unsigned_less [of w, where 'a = nat] by simp

lemma unat_less_u16 [simp]: "unat (w :: u16) < 65536"
  using unsigned_less [of w, where 'a = nat] by simp

lemma unat_less_u8 [simp]: "unat (w :: u8) < 256"
  using unsigned_less [of w, where 'a = nat] by simp

lemma unat_of_nat_u32: "n < 4294967296 \<Longrightarrow> unat (of_nat n :: u32) = n"
  by (simp add: unat_of_nat take_bit_eq_mod)

lemma unat_of_nat_u8: "n < 256 \<Longrightarrow> unat (of_nat n :: u8) = n"
  by (simp add: unat_of_nat take_bit_eq_mod)

lemma unat_power_u32: "k < 32 \<Longrightarrow> unat (2 ^ k :: u32) = 2 ^ k"
proof -
  assume "k < 32"
  then have "(2::nat) ^ k < 2 ^ 32" by (intro power_strict_increasing) auto
  then have "unat (of_nat (2 ^ k) :: u32) = 2 ^ k" by (intro unat_of_nat_u32) simp
  then show ?thesis by simp
qed

lemma unat_eq_of_nat: "unat (w :: 'a::len word) = n \<Longrightarrow> w = of_nat n"
  by auto

lemma unat_add_u32:
  "unat (a :: u32) + unat b < 4294967296 \<Longrightarrow> unat (a + b) = unat a + unat b"
  by (simp add: unat_word_ariths)

lemma unat_inc_u32: "(a :: u32) < b \<Longrightarrow> unat (a + 1) = Suc (unat a)"
  using unat_add_u32 [of a 1] unat_less_u32 [of b] by (simp add: word_less_nat_alt)

lemma counter_decreases: "(a :: u32) < b \<Longrightarrow> unat b - unat (a + 1) < unat b - unat a"
  by (simp add: unat_inc_u32 word_less_nat_alt)

lemma unat_sub_u32: "(b :: u32) \<le> a \<Longrightarrow> unat (a - b) = unat a - unat b"
  by (simp add: unat_sub)

lemma sint_u32: "sint (w :: u32) = (if uint w < 2147483648 then uint w else uint w - 4294967296)"
proof -
  have u: "0 \<le> uint w" "uint w < 4294967296" using unsigned_less [of w, where 'a = int] by simp_all
  have b: "bit (uint w) 31 \<longleftrightarrow> \<not> uint w < 2147483648"
  proof -
    have "uint w div 2147483648 = (if uint w < 2147483648 then 0 else 1)"
      using u by auto
    then show ?thesis by (simp add: bit_iff_odd)
  qed
  have "take_bit 32 (uint w) = uint w" using u by (simp add: take_bit_int_eq_self_iff)
  then show ?thesis
    using b by (simp add: sint_uint signed_take_bit_eq_take_bit_minus)
qed

lemma unat_and_0xFFFF: "unat (s AND 0xFFFF :: u32) = unat s mod 65536"
proof -
  have "s AND 0xFFFF = take_bit 16 s" by (simp add: take_bit_eq_mask mask_eq_exp_minus_1)
  then show ?thesis by (simp only: unsigned_take_bit_eq) (simp add: take_bit_eq_mod)
qed

lemma unat_drop_16: "unat (drop_bit 16 s :: u32) = unat s div 65536"
  by (simp only: unat_drop_bit_eq) (simp add: drop_bit_eq_div)

lemma high_bit: "(s AND 0x80000000 :: u32) = 0 \<longleftrightarrow> unat s < 2147483648"
proof -
  have "s AND 0x80000000 = s AND 2 ^ 31" by simp
  then have "s AND 0x80000000 = 0 \<longleftrightarrow> \<not> bit s 31" by (simp only: and_exp_eq_0_iff_not_bit)
  also have "bit s 31 \<longleftrightarrow> bit (unat s) 31" by (simp add: bit_unsigned_iff)
  also have "\<dots> \<longleftrightarrow> odd (unat s div 2147483648)" by (simp add: bit_iff_odd)
  also have "unat s div 2147483648 = (if unat s < 2147483648 then 0 else 1)"
    using unat_less_u32 [of s] by (auto simp del: unat_less_u32)
  finally show ?thesis by simp
qed

lemma unat_add_of_nat:
  "unat (n :: u32) + k < 4294967296 \<Longrightarrow> unat (n + of_nat k) = unat n + k"
  by (metis add_lessD1 add.commute unat_add_u32 unat_of_nat_u32)

text \<open>A property of bytes is checked on the 256 literals, \<open>byte_check\<close> decides their order.\<close>

lemma u8_exhaust:
  assumes "P 0" "P 1" "list_all P (map word_of_int [2..255])"
  shows "P (x :: u8)"
proof (cases "x = 0 \<or> x = 1")
  case False
  then have "uint x \<noteq> 0" "uint x \<noteq> 1" by (simp_all add: uint_0_iff) (metis of_int_1 word_of_int_uint)
  moreover have "0 \<le> uint x" "uint x < 256" using uint_lt2p [of x] by simp_all
  ultimately have "2 \<le> uint x" "uint x \<le> 255" by linarith+
  then have "uint x \<in> set [2..255]" by (simp only: set_upto) simp
  then have "word_of_int (uint x) \<in> set (map word_of_int [2..255] :: u8 list)" by (simp only: set_map) (rule imageI)
  from bspec [OF assms(3) [unfolded list_all_iff] this] show ?thesis by (simp only: word_of_int_uint)
qed (use assms in auto)

lemmas byte_check = word_le_nat_alt word_less_nat_alt

end
