(* ===== verification/Libz_Buffer.thy ===== *)
theory Libz_Buffer
  imports C_Base
begin

text \<open>
  \<^verbatim>\<open>libz/fudge/buffer.c\<close>: the byte-block routines every other part of the runtime is built on.
  A pointer that is only read through is the list of the bytes from that pointer to the end of
  its object; a pointer that is written through is the object together with the index it points
  to. A \<^verbatim>\<open>while (count--)\<close> loop runs \<^verbatim>\<open>count\<close> times and is a recursion on that number.
\<close>

section \<open>The operations\<close>

primrec buffer_clear_loop :: "nat \<Rightarrow> u8 list \<Rightarrow> nat \<Rightarrow> u8 list option" where
  "buffer_clear_loop 0 out ptr = Some out"
| "buffer_clear_loop (Suc n) out ptr =
     do { out' \<leftarrow> wr out ptr 0; buffer_clear_loop n out' (Suc ptr) }"

definition buffer_clear :: "u8 list \<Rightarrow> nat \<Rightarrow> u32 \<Rightarrow> u8 list option" where
  "buffer_clear out ptr count = buffer_clear_loop (unat count) out ptr"

primrec buffer_copy_loop :: "nat \<Rightarrow> u8 list \<Rightarrow> nat \<Rightarrow> u8 list \<Rightarrow> nat \<Rightarrow> u8 list option" where
  "buffer_copy_loop 0 out ptr inp i = Some out"
| "buffer_copy_loop (Suc n) out ptr inp i =
     do { b \<leftarrow> rd inp i; out' \<leftarrow> wr out ptr b; buffer_copy_loop n out' (Suc ptr) inp (Suc i) }"

definition buffer_copy :: "u8 list \<Rightarrow> nat \<Rightarrow> u8 list \<Rightarrow> u32 \<Rightarrow> u8 list option" where
  "buffer_copy out ptr inp count = buffer_copy_loop (unat count) out ptr inp 0"

function buffer_eachbyte :: "u8 list \<Rightarrow> u32 \<Rightarrow> u8 \<Rightarrow> u32 \<Rightarrow> u32 option" where
  "buffer_eachbyte inp count v offset =
     (if offset < count then
        do { b \<leftarrow> rd inp (unat offset);
             if b = v then Some (offset + 1) else buffer_eachbyte inp count v (offset + 1) }
      else Some 0)"
  by pat_completeness auto
termination
  by (relation "measure (\<lambda>(inp, count, v, offset). unat count - unat offset)")
     (auto simp: counter_decreases)

declare buffer_eachbyte.simps [simp del]

definition buffer_firstbyte :: "u8 list \<Rightarrow> u32 \<Rightarrow> u8 \<Rightarrow> u32 option" where
  "buffer_firstbyte inp count v = buffer_eachbyte inp count v 0"

lemma buffer_eachbyte_advances:
  "buffer_eachbyte inp count v offset = Some r \<Longrightarrow> r \<noteq> 0 \<Longrightarrow>
   unat offset < unat r \<and> unat r \<le> unat count"
proof (induction inp count v offset rule: buffer_eachbyte.induct)
  case (1 inp count v offset)
  then have lt: "offset < count"
    by (auto simp: buffer_eachbyte.simps [of inp count v offset] split: if_splits)
  then have step: "unat (offset + 1) = Suc (unat offset)"
    by (rule unat_inc_u32)
  from "1.prems" lt obtain b where b: "rd inp (unat offset) = Some b"
    by (auto simp: buffer_eachbyte.simps [of inp count v offset] split: Option.bind_splits)
  show ?case
  proof (cases "b = v")
    case True
    with "1.prems" b lt step show ?thesis
      by (auto simp: buffer_eachbyte.simps [of inp count v offset] word_less_nat_alt)
  next
    case False
    with "1.prems" b lt have "buffer_eachbyte inp count v (offset + 1) = Some r"
      by (simp add: buffer_eachbyte.simps [of inp count v offset])
    with "1.IH" [OF lt b False] "1.prems"(2) step show ?thesis by simp
  qed
qed

function buffer_lastbyte_loop :: "u8 list \<Rightarrow> u32 \<Rightarrow> u8 \<Rightarrow> u32 \<Rightarrow> u32 \<Rightarrow> u32 option" where
  "buffer_lastbyte_loop inp count v offset latest =
     (case buffer_eachbyte inp count v offset of
        None \<Rightarrow> None
      | Some r \<Rightarrow> if r \<noteq> 0 then buffer_lastbyte_loop inp count v r r else Some latest)"
  by pat_completeness auto
termination
  by (relation "measure (\<lambda>(inp, count, v, offset, latest). unat count - unat offset)")
     (fastforce dest: buffer_eachbyte_advances)+

declare buffer_lastbyte_loop.simps [simp del]

definition buffer_lastbyte :: "u8 list \<Rightarrow> u32 \<Rightarrow> u8 \<Rightarrow> u32 option" where
  "buffer_lastbyte inp count v = buffer_lastbyte_loop inp count v 0 0"

function buffer_countbyte_loop :: "u8 list \<Rightarrow> u32 \<Rightarrow> u8 \<Rightarrow> u32 \<Rightarrow> u32 \<Rightarrow> u32 option" where
  "buffer_countbyte_loop inp count v offset tot =
     (case buffer_eachbyte inp count v offset of
        None \<Rightarrow> None
      | Some r \<Rightarrow> if r \<noteq> 0 then buffer_countbyte_loop inp count v r (tot + 1) else Some tot)"
  by pat_completeness auto
termination
  by (relation "measure (\<lambda>(inp, count, v, offset, tot). unat count - unat offset)")
     (fastforce dest: buffer_eachbyte_advances)+

declare buffer_countbyte_loop.simps [simp del]

definition buffer_countbyte :: "u8 list \<Rightarrow> u32 \<Rightarrow> u8 \<Rightarrow> u32 option" where
  "buffer_countbyte inp count v = buffer_countbyte_loop inp count v 0 0"

function buffer_findbyte_loop :: "u8 list \<Rightarrow> u32 \<Rightarrow> u8 \<Rightarrow> u32 \<Rightarrow> u32 option" where
  "buffer_findbyte_loop inp count v offset =
     (if offset < count then
        do { b \<leftarrow> rd inp (unat offset);
             if b = v then Some offset else buffer_findbyte_loop inp count v (offset + 1) }
      else Some offset)"
  by pat_completeness auto
termination
  by (relation "measure (\<lambda>(inp, count, v, offset). unat count - unat offset)")
     (auto simp: counter_decreases)

declare buffer_findbyte_loop.simps [simp del]

definition buffer_findbyte :: "u8 list \<Rightarrow> u32 \<Rightarrow> u8 \<Rightarrow> u32 option" where
  "buffer_findbyte inp count v = buffer_findbyte_loop inp count v 0"

primrec buffer_match_loop :: "nat \<Rightarrow> u8 list \<Rightarrow> u8 list \<Rightarrow> nat \<Rightarrow> u32 option" where
  "buffer_match_loop 0 in1 in2 i = Some 1"
| "buffer_match_loop (Suc n) in1 in2 i =
     do { b1 \<leftarrow> rd in1 i; b2 \<leftarrow> rd in2 i;
          if b1 \<noteq> b2 then Some 0 else buffer_match_loop n in1 in2 (Suc i) }"

definition buffer_match :: "u8 list \<Rightarrow> u8 list \<Rightarrow> u32 \<Rightarrow> u32 option" where
  "buffer_match in1 in2 count = buffer_match_loop (unat count) in1 in2 0"

definition buffer_read :: "u8 list \<Rightarrow> nat \<Rightarrow> u32 \<Rightarrow> u8 list \<Rightarrow> u32 \<Rightarrow> u32 \<Rightarrow> (u32 \<times> u8 list) option" where
  "buffer_read out ptr ocount inp icount offset =
     (if offset \<ge> icount then Some (0, out)
      else let n = (if ocount > icount - offset then icount - offset else ocount) in
        do { out' \<leftarrow> buffer_copy out ptr (drop (unat offset) inp) n; Some (n, out') })"

definition buffer_write :: "u8 list \<Rightarrow> nat \<Rightarrow> u32 \<Rightarrow> u8 list \<Rightarrow> u32 \<Rightarrow> u32 \<Rightarrow> (u32 \<times> u8 list) option" where
  "buffer_write out ptr ocount inp icount offset =
     (if offset \<ge> ocount then Some (0, out)
      else let n = (if icount > ocount - offset then ocount - offset else icount) in
        do { out' \<leftarrow> buffer_copy out (ptr + unat offset) inp n; Some (n, out') })"

text \<open>
  \<^verbatim>\<open>buffer_tindex\<close> returns a pointer into \<^verbatim>\<open>in\<close> or the null pointer: \<open>Some i\<close> stands for
  \<^verbatim>\<open>in + i\<close> and \<^const>\<open>None\<close> for null, under the outer \<^const>\<open>Some\<close> of an access-fault-free run.
\<close>

function buffer_tindex_loop :: "u8 list \<Rightarrow> u32 \<Rightarrow> u8 \<Rightarrow> u32 \<Rightarrow> u32 \<Rightarrow> u32 \<Rightarrow> nat option option" where
  "buffer_tindex_loop inp count c index n i =
     (if i < count then
        do { b \<leftarrow> rd inp (unat i);
             if b = c then
               (if n + 1 = index then Some (if i = count - 1 then None else Some (unat i + 1))
                else buffer_tindex_loop inp count c index (n + 1) (i + 1))
             else buffer_tindex_loop inp count c index n (i + 1) }
      else Some None)"
  by pat_completeness auto
termination
  by (relation "measure (\<lambda>(inp, count, c, index, n, i). unat count - unat i)")
     (auto simp: counter_decreases)

declare buffer_tindex_loop.simps [simp del]

definition buffer_tindex :: "u8 list \<Rightarrow> u32 \<Rightarrow> u8 \<Rightarrow> u32 \<Rightarrow> nat option option" where
  "buffer_tindex inp count c index =
     (if index \<noteq> 0 then buffer_tindex_loop inp count c index 0 0 else Some (Some 0))"

section \<open>Block copies and clipped reads and writes\<close>

lemma buffer_copy_loop_eq:
  "buffer_copy_loop n out ptr inp i =
     (if n = 0 then Some out
      else if ptr + n \<le> length out \<and> i + n \<le> length inp then Some (blit out ptr (seg inp i n))
      else None)"
proof (induction n arbitrary: out ptr i)
  case (Suc n)
  show ?case
  proof (cases "i < length inp \<and> ptr < length out")
    case True
    then have "buffer_copy_loop (Suc n) out ptr inp i =
      buffer_copy_loop n (out[ptr := inp ! i]) (Suc ptr) inp (Suc i)"
      by simp
    with True show ?thesis
      by (auto simp: Suc.IH blit_Cons seg_Suc blit_single)
  next
    case False
    then show ?thesis by (auto split: Option.bind_splits simp: mem_simps)
  qed
qed simp

lemma buffer_copy_eq:
  "buffer_copy out ptr inp count =
     (if count = 0 then Some out
      else if ptr + unat count \<le> length out \<and> unat count \<le> length inp
      then Some (blit out ptr (take (unat count) inp))
      else None)"
  by (simp add: buffer_copy_def buffer_copy_loop_eq seg_def unat_eq_0)

lemma buffer_copy_ok [simp]:
  "ptr + unat count \<le> length out \<Longrightarrow> unat count \<le> length inp \<Longrightarrow>
   buffer_copy out ptr inp count = Some (blit out ptr (take (unat count) inp))"
  by (simp add: buffer_copy_eq)

lemma buffer_clear_loop_eq:
  "ptr + n \<le> length out \<Longrightarrow> buffer_clear_loop n out ptr = Some (blit out ptr (replicate n 0))"
  by (induction n arbitrary: out ptr) (simp_all add: blit_Cons)

lemma buffer_clear_ok:
  "ptr + unat count \<le> length out \<Longrightarrow>
   buffer_clear out ptr count = Some (blit out ptr (replicate (unat count) 0))"
  by (simp add: buffer_clear_def buffer_clear_loop_eq)

text \<open>How many of \<open>want\<close> bytes fit behind \<open>offset\<close> in a block of \<open>cap\<close> bytes.\<close>

definition clip :: "u32 \<Rightarrow> u32 \<Rightarrow> u32 \<Rightarrow> u32" where
  "clip want cap offset = (if offset \<ge> cap then 0 else min want (cap - offset))"

lemma unat_clip: "unat (clip want cap offset) = min (unat want) (unat cap - unat offset)"
proof (cases "cap \<le> offset")
  case True
  then show ?thesis by (simp add: clip_def word_le_nat_alt)
next
  case False
  then have "unat (cap - offset) = unat cap - unat offset"
    by (simp add: unat_sub_u32)
  with False show ?thesis
    by (auto simp: clip_def min_def word_le_nat_alt)
qed

lemma clip_le: "unat (clip want cap offset) \<le> unat want"
  and clip_fits: "offset < cap \<Longrightarrow> unat offset + unat (clip want cap offset) \<le> unat cap"
  by (auto simp: unat_clip word_less_nat_alt)

lemma buffer_read_ok:
  assumes "ptr + unat ocount \<le> length out" and "unat icount \<le> length inp"
  shows "buffer_read out ptr ocount inp icount offset =
    (let n = clip ocount icount offset in
     Some (n, blit out ptr (seg inp (unat offset) (unat n))))"
proof (cases "icount \<le> offset")
  case True
  with assms show ?thesis by (simp add: buffer_read_def clip_def)
next
  case False
  let ?n = "if ocount > icount - offset then icount - offset else ocount"
  have n: "?n = clip ocount icount offset"
    using False by (auto simp: clip_def min_def not_le)
  have "buffer_copy out ptr (drop (unat offset) inp) ?n =
    Some (blit out ptr (seg inp (unat offset) (unat ?n)))"
    unfolding n seg_def using assms
    by (intro buffer_copy_ok) (auto simp: unat_clip)
  with False show ?thesis
    unfolding buffer_read_def n by (simp add: Let_def)
qed

lemma buffer_write_ok:
  assumes "ptr + unat ocount \<le> length out" and "unat icount \<le> length inp"
  shows "buffer_write out ptr ocount inp icount offset =
    (let n = clip icount ocount offset in
     Some (n, if n = 0 then out else blit out (ptr + unat offset) (take (unat n) inp)))"
proof (cases "ocount \<le> offset")
  case True
  with assms show ?thesis by (simp add: buffer_write_def clip_def)
next
  case False
  let ?n = "if icount > ocount - offset then ocount - offset else icount"
  have n: "?n = clip icount ocount offset"
    using False by (auto simp: clip_def min_def not_le)
  have "buffer_copy out (ptr + unat offset) inp ?n =
    Some (if ?n = 0 then out else blit out (ptr + unat offset) (take (unat ?n) inp))"
    unfolding n using assms False
    by (auto simp: buffer_copy_eq unat_clip word_le_nat_alt)
  with False show ?thesis
    unfolding buffer_write_def n by (simp add: Let_def)
qed

section \<open>Searching\<close>

text \<open>The positions of a byte, in order: what the search routines are compared with.\<close>

definition positions :: "u8 list \<Rightarrow> u8 \<Rightarrow> nat \<Rightarrow> nat \<Rightarrow> nat list" where
  "positions inp v a b = filter (\<lambda>i. inp ! i = v) [a..<b]"

lemma positions_step:
  "a < b \<Longrightarrow> positions inp v a b =
     (if inp ! a = v then a # positions inp v (Suc a) b else positions inp v (Suc a) b)"
  by (simp add: positions_def upt_conv_Cons)

lemma positions_empty [simp]: "b \<le> a \<Longrightarrow> positions inp v a b = []"
  by (simp add: positions_def)

lemma positions_Cons:
  assumes "positions inp v a b = i # is"
  shows "i < b" and "positions inp v (Suc i) b = is"
proof -
  have "positions inp v a b = i # is \<Longrightarrow> i < b \<and> positions inp v (Suc i) b = is"
  proof (induction "b - a" arbitrary: a)
    case (Suc d)
    then have lt: "a < b" by simp
    show ?case
    proof (cases "inp ! a = v")
      case True
      with Suc.prems lt show ?thesis by (auto simp: positions_step)
    next
      case False
      then show ?thesis
        using Suc.hyps(1) [of "Suc a"] Suc.hyps(2) Suc.prems lt by (simp add: positions_step)
    qed
  qed simp
  with assms show "i < b" and "positions inp v (Suc i) b = is" by auto
qed

lemma buffer_eachbyte_eq:
  assumes "unat count \<le> length inp"
  shows "buffer_eachbyte inp count v offset =
    Some (case positions inp v (unat offset) (unat count) of
            [] \<Rightarrow> 0 | i # _ \<Rightarrow> of_nat (Suc i))"
  using assms
proof (induction inp count v offset rule: buffer_eachbyte.induct)
  case (1 inp count v offset)
  show ?case
  proof (cases "offset < count")
    case True
    then have lt: "unat offset < unat count" and step: "unat (offset + 1) = Suc (unat offset)"
      by (simp_all add: word_less_nat_alt unat_inc_u32 [of _ count])
    have rd: "rd inp (unat offset) = Some (inp ! unat offset)"
      using lt "1.prems" by simp
    have IH: "inp ! unat offset \<noteq> v \<Longrightarrow> buffer_eachbyte inp count v (offset + 1) =
      Some (case positions inp v (Suc (unat offset)) (unat count) of
            [] \<Rightarrow> 0 | i # _ \<Rightarrow> of_nat (Suc i))"
      using "1.IH" [OF True rd _ "1.prems"] by (simp add: step)
    show ?thesis
      using True lt rd IH
      by (simp add: buffer_eachbyte.simps [of inp count v offset] positions_step add.commute)
  next
    case False
    then show ?thesis
      by (simp add: buffer_eachbyte.simps [of inp count v offset] word_less_nat_alt)
  qed
qed

lemma buffer_eachbyte_Nil:
  "unat count \<le> length inp \<Longrightarrow> positions inp v (unat offset) (unat count) = [] \<Longrightarrow>
   buffer_eachbyte inp count v offset = Some 0"
  by (simp add: buffer_eachbyte_eq)

lemma buffer_eachbyte_Cons:
  assumes "unat count \<le> length inp" and "positions inp v (unat offset) (unat count) = i # is"
  shows "\<exists>r. buffer_eachbyte inp count v offset = Some r \<and> r \<noteq> 0 \<and> unat r = Suc i \<and>
    positions inp v (unat r) (unat count) = is"
proof -
  let ?r = "of_nat (Suc i) :: u32"
  have "i < unat count" and rest: "positions inp v (Suc i) (unat count) = is"
    using positions_Cons [OF assms(2)] by auto
  then have r: "unat ?r = Suc i"
    using unat_less_u32 [of count] by (intro unat_of_nat_u32) linarith
  have each: "buffer_eachbyte inp count v offset = Some ?r"
    using assms by (simp add: buffer_eachbyte_eq)
  have nz: "?r \<noteq> 0"
    using r by (metis nat.distinct(1) unat_0)
  show ?thesis
    by (intro exI [of _ ?r] conjI each nz r) (simp only: r rest)
qed

lemma buffer_lastbyte_loop_eq:
  assumes "unat count \<le> length inp"
  shows "buffer_lastbyte_loop inp count v offset latest =
    (let is = positions inp v (unat offset) (unat count) in
     Some (if is = [] then latest else of_nat (Suc (last is))))"
proof (induction "positions inp v (unat offset) (unat count)" arbitrary: offset latest)
  case Nil
  then show ?case
    using buffer_eachbyte_Nil [OF assms]
    by (simp add: buffer_lastbyte_loop.simps [of inp count v offset latest])
next
  case (Cons i "is")
  from buffer_eachbyte_Cons [OF assms Cons.hyps(2) [symmetric]] obtain r where
    r: "buffer_eachbyte inp count v offset = Some r" "r \<noteq> 0" "unat r = Suc i"
      "positions inp v (unat r) (unat count) = is" by blast
  then have "buffer_lastbyte_loop inp count v r r =
      Some (if is = [] then r else of_nat (Suc (last is)))"
    using Cons.hyps(1) [of r r] by (simp add: Let_def)
  moreover have "r = of_nat (Suc i)"
    using r(3) by (rule unat_eq_of_nat)
  ultimately show ?case
    using r by (simp add: buffer_lastbyte_loop.simps [of inp count v offset latest]
        Cons.hyps(2) [symmetric])
qed

lemma buffer_countbyte_loop_eq:
  assumes "unat count \<le> length inp"
  shows "buffer_countbyte_loop inp count v offset tot =
    Some (tot + of_nat (length (positions inp v (unat offset) (unat count))))"
proof (induction "positions inp v (unat offset) (unat count)" arbitrary: offset tot)
  case Nil
  then show ?case
    using buffer_eachbyte_Nil [OF assms]
    by (simp add: buffer_countbyte_loop.simps [of inp count v offset tot])
next
  case (Cons i "is")
  from buffer_eachbyte_Cons [OF assms Cons.hyps(2) [symmetric]] obtain r where
    r: "buffer_eachbyte inp count v offset = Some r" "r \<noteq> 0" "unat r = Suc i"
      "positions inp v (unat r) (unat count) = is" by blast
  then have "buffer_countbyte_loop inp count v r (tot + 1) =
      Some (tot + 1 + of_nat (length is))"
    using Cons.hyps(1) [of r "tot + 1"] by simp
  then show ?case
    using r by (simp add: buffer_countbyte_loop.simps [of inp count v offset tot]
        Cons.hyps(2) [symmetric])
qed

lemma length_positions_0:
  "n \<le> length inp \<Longrightarrow> length (positions inp v 0 n) = count_list (take n inp) v"
proof (induction n)
  case (Suc n)
  then show ?case
    by (simp add: positions_def take_Suc_conv_app_nth)
qed (simp add: positions_def)

lemma buffer_findbyte_loop_eq:
  assumes "unat count \<le> length inp" and "offset \<le> count"
  shows "buffer_findbyte_loop inp count v offset =
    Some (case positions inp v (unat offset) (unat count) of [] \<Rightarrow> count | i # _ \<Rightarrow> of_nat i)"
  using assms
proof (induction inp count v offset rule: buffer_findbyte_loop.induct)
  case (1 inp count v offset)
  show ?case
  proof (cases "offset < count")
    case True
    then have lt: "unat offset < unat count" and step: "unat (offset + 1) = Suc (unat offset)"
      by (simp_all add: word_less_nat_alt unat_inc_u32 [of _ count])
    have le: "offset + 1 \<le> count"
      using lt step by (simp add: word_le_nat_alt)
    have rd: "rd inp (unat offset) = Some (inp ! unat offset)"
      using lt "1.prems" by simp
    have IH: "inp ! unat offset \<noteq> v \<Longrightarrow> buffer_findbyte_loop inp count v (offset + 1) =
      Some (case positions inp v (Suc (unat offset)) (unat count) of
            [] \<Rightarrow> count | i # _ \<Rightarrow> of_nat i)"
      using "1.IH" [OF True rd _ "1.prems"(1) le] by (simp add: step)
    show ?thesis
      using True lt rd IH
      by (simp add: buffer_findbyte_loop.simps [of inp count v offset] positions_step)
  next
    case False
    with "1.prems" have "offset = count" by simp
    then show ?thesis
      by (simp add: buffer_findbyte_loop.simps [of inp count v count])
  qed
qed

lemma buffer_match_loop_eq:
  "i + n \<le> length in1 \<Longrightarrow> i + n \<le> length in2 \<Longrightarrow>
   buffer_match_loop n in1 in2 i = Some (if seg in1 i n = seg in2 i n then 1 else 0)"
  by (induction n arbitrary: i) (simp_all add: seg_Suc)

lemma buffer_match_eq:
  "unat count \<le> length in1 \<Longrightarrow> unat count \<le> length in2 \<Longrightarrow>
   buffer_match in1 in2 count =
     Some (if take (unat count) in1 = take (unat count) in2 then 1 else 0)"
  by (simp add: buffer_match_def buffer_match_loop_eq seg_def)

section \<open>Properties\<close>

text \<open>
  C36: \<^verbatim>\<open>buffer_write\<close> into a block of \<^verbatim>\<open>ocount\<close> bytes stores exactly the bytes that fit behind
  the offset, reports how many these are, changes no other byte of the object and never leaves
  it, whatever the offset and the sizes are; \<^verbatim>\<open>buffer_read\<close> at the same offset gives them back.
\<close>

theorem buffer_write_read:
  assumes "unat ocount \<le> length out" and "unat icount \<le> length inp" and "unat icount \<le> length dst"
  shows "\<exists>n out'. buffer_write out 0 ocount inp icount offset = Some (n, out') \<and>
    unat n = min (unat icount) (unat ocount - unat offset) \<and> length out' = length out \<and>
    (\<forall>j < length out. out' ! j =
      (if unat offset \<le> j \<and> j < unat offset + unat n then inp ! (j - unat offset) else out ! j)) \<and>
    buffer_read dst 0 n out' ocount offset = Some (n, blit dst 0 (take (unat n) inp))"
proof -
  define n where "n = clip icount ocount offset"
  have n: "unat n = min (unat icount) (unat ocount - unat offset)"
    by (simp add: n_def unat_clip)
  define out' where "out' = (if n = 0 then out else blit out (unat offset) (take (unat n) inp))"
  have w: "buffer_write out 0 ocount inp icount offset = Some (n, out')"
    using buffer_write_ok [of 0 ocount out icount inp offset] assms
    by (simp add: n_def out'_def Let_def)
  have fit: "n \<noteq> 0 \<Longrightarrow> unat offset + unat n \<le> length out" "unat n \<le> length inp"
    using n assms by (auto simp: unat_eq_0 [symmetric])
  have nth: "out' ! j = (if unat offset \<le> j \<and> j < unat offset + unat n
      then inp ! (j - unat offset) else out ! j)" if "j < length out" for j
    using fit that by (auto simp: out'_def nth_blit)
  have len: "length out' = length out"
    using fit by (auto simp: out'_def)
  have "clip n ocount offset = n"
    using n by (intro word_unat_eq_iff [THEN iffD2]) (simp add: unat_clip)
  moreover have "seg out' (unat offset) (unat n) = take (unat n) inp"
  proof (cases "n = 0")
    case False
    then show ?thesis
      using fit seg_blit_same [of "unat offset" "take (unat n) inp" out] by (simp add: out'_def)
  qed simp
  ultimately have "buffer_read dst 0 n out' ocount offset = Some (n, blit dst 0 (take (unat n) inp))"
    using buffer_read_ok [of 0 n dst ocount out' offset] assms n len by (simp add: Let_def)
  with w n len nth show ?thesis by blast
qed

theorem buffer_write_read_witness:
  "\<exists>n out'. buffer_write [0, 0, 0, 0, 0] 0 4 [7, 8, 9] 3 2 = Some (n, out') \<and> unat n = 2 \<and>
     buffer_read [0, 0, 0] 0 n out' 4 2 = Some (n, [7, 8, 0])"
  using buffer_write_read [of 4 "[0, 0, 0, 0, 0]" 3 "[7, 8, 9]" "[0, 0, 0]" 2]
  by (auto simp: blit_def)

text \<open>
  The byte searches are exact. Over the positions of a byte in the first \<^verbatim>\<open>count\<close> bytes of
  a block, \<^verbatim>\<open>buffer_firstbyte\<close> and \<^verbatim>\<open>buffer_lastbyte\<close> return one more than the first and the
  last one, or 0 when there is none; \<^verbatim>\<open>buffer_countbyte\<close> returns their number and
  \<^verbatim>\<open>buffer_findbyte\<close> the first one, or \<^verbatim>\<open>count\<close>. No byte behind the block is read.
\<close>

theorem buffer_search_correct:
  fixes v :: u8
  assumes "unat count \<le> length inp"
  defines "ps \<equiv> filter (\<lambda>i. inp ! i = v) [0..<unat count]"
  shows "buffer_firstbyte inp count v = Some (if ps = [] then 0 else of_nat (Suc (hd ps))) \<and>
    buffer_lastbyte inp count v = Some (if ps = [] then 0 else of_nat (Suc (last ps))) \<and>
    buffer_countbyte inp count v = Some (of_nat (count_list (take (unat count) inp) v)) \<and>
    buffer_findbyte inp count v = Some (if ps = [] then count else of_nat (hd ps))"
proof -
  have ps: "positions inp v 0 (unat count) = ps" by (simp add: positions_def ps_def)
  show ?thesis
    using buffer_eachbyte_eq [OF assms(1), of v 0] buffer_lastbyte_loop_eq [OF assms(1), of v 0 0]
      buffer_countbyte_loop_eq [OF assms(1), of v 0 0] buffer_findbyte_loop_eq [OF assms(1), of 0 v]
      length_positions_0 [OF assms(1), of v]
    by (simp add: buffer_firstbyte_def buffer_lastbyte_def buffer_countbyte_def buffer_findbyte_def
        ps Let_def split: list.splits)
qed

theorem buffer_search_correct_witness:
  "buffer_firstbyte [5, 7, 5, 7, 9] 5 7 = Some 2 \<and> buffer_lastbyte [5, 7, 5, 7, 9] 5 7 = Some 4 \<and>
   buffer_countbyte [5, 7, 5, 7, 9] 5 7 = Some 2 \<and> buffer_findbyte [5, 7, 5, 7, 9] 5 7 = Some 1"
  using buffer_search_correct [of 5 "[5, 7, 5, 7, 9]" 7] by (simp add: upt_rec)

end
