(* ===== verification/Byte_Queue.thy ===== *)
theory Byte_Queue
  imports C_Base
begin

text \<open>
  The contract of a bounded byte queue, as the producers and consumers of the runtime use one: a
  \<open>put\<close> that takes as many bytes of a block as there is room for, and a \<open>get\<close> that hands out at
  most the number of bytes asked for, oldest first. The clients' view, that nothing is lost,
  duplicated or reordered between the two ends however the calls are interleaved, is proved once
  from the contract.
\<close>

datatype queue_call = Put "u8 list" | Get u32

text \<open>
  A run of calls: the bytes the puts accepted, the bytes the gets returned, and the queue left
  behind. A put passes the whole block, a get passes a buffer of the size it asks for.
\<close>

fun queue_run ::
  "('q \<Rightarrow> u8 list \<Rightarrow> u32 \<Rightarrow> (u32 \<times> 'q) option) \<Rightarrow>
   ('q \<Rightarrow> u8 list \<Rightarrow> u32 \<Rightarrow> (u32 \<times> 'q \<times> u8 list) option) \<Rightarrow>
   'q \<Rightarrow> queue_call list \<Rightarrow> (u8 list \<times> u8 list \<times> 'q) option" where
  "queue_run put get q [] = Some ([], [], q)"
| "queue_run put get q (Put bs # cs) =
     do { (n, q') \<leftarrow> put q bs (of_nat (length bs));
          (acc, got, q'') \<leftarrow> queue_run put get q' cs;
          Some (take (unat n) bs @ acc, got, q'') }"
| "queue_run put get q (Get n # cs) =
     do { (m, q', out) \<leftarrow> get q (replicate (unat n) 0) n;
          (acc, got, q'') \<leftarrow> queue_run put get q' cs;
          Some (acc, take (unat m) out @ got, q'') }"

fun call_fits :: "queue_call \<Rightarrow> bool" where
  "call_fits (Put bs) = (length bs < 4294967296)"
| "call_fits (Get n) = True"

locale byte_queue =
  fixes invar :: "'q \<Rightarrow> bool" and contents :: "'q \<Rightarrow> u8 list" and room :: "'q \<Rightarrow> nat"
    and put :: "'q \<Rightarrow> u8 list \<Rightarrow> u32 \<Rightarrow> (u32 \<times> 'q) option"
    and get :: "'q \<Rightarrow> u8 list \<Rightarrow> u32 \<Rightarrow> (u32 \<times> 'q \<times> u8 list) option"
  assumes put: "invar q \<Longrightarrow> unat n \<le> length bs \<Longrightarrow>
      \<exists>q'. put q bs n = Some (of_nat (min (unat n) (room q)), q') \<and> invar q' \<and>
        contents q' = contents q @ take (min (unat n) (room q)) bs"
    and get: "invar q \<Longrightarrow> unat n \<le> length out \<Longrightarrow>
      \<exists>q'. get q out n = Some (of_nat (min (unat n) (length (contents q))), q',
          blit out 0 (take (unat n) (contents q))) \<and> invar q' \<and>
        contents q' = drop (unat n) (contents q)"
begin

lemma unat_of_nat_min: "unat (of_nat (min (unat (n :: u32)) k) :: u32) = min (unat n) k"
proof (rule unat_of_nat_u32)
  show "min (unat n) k < 4294967296"
    using unat_less_u32 [of n] by linarith
qed

theorem stream_integrity:
  assumes "invar q" and "list_all call_fits cs"
  shows "\<exists>acc got q'. queue_run put get q cs = Some (acc, got, q') \<and> invar q' \<and>
    contents q @ acc = got @ contents q'"
  using assms
proof (induction cs arbitrary: q)
  case Nil
  then show ?case by simp
next
  case (Cons c cs)
  show ?case
  proof (cases c)
    case (Put bs)
    define n where "n = (of_nat (length bs) :: u32)"
    have n: "unat n = length bs"
      using Cons.prems(2) Put by (simp add: n_def unat_of_nat_u32)
    from put [OF Cons.prems(1), of n bs] n obtain q1 where
      q1: "put q bs n = Some (of_nat (min (unat n) (room q)), q1)" "invar q1"
        "contents q1 = contents q @ take (min (unat n) (room q)) bs"
      by auto
    from Cons.IH [OF q1(2)] Cons.prems(2) obtain acc got q2 where
      "queue_run put get q1 cs = Some (acc, got, q2)" "invar q2"
      "contents q1 @ acc = got @ contents q2"
      by auto
    with q1 Put show ?thesis
      unfolding n_def by (simp add: unat_of_nat_min)
  next
    case (Get n)
    from get [OF Cons.prems(1), of n "replicate (unat n) 0"] obtain q1 where
      q1: "get q (replicate (unat n) 0) n = Some (of_nat (min (unat n) (length (contents q))), q1,
          blit (replicate (unat n) 0) 0 (take (unat n) (contents q)))" "invar q1"
        "contents q1 = drop (unat n) (contents q)"
      by auto
    from Cons.IH [OF q1(2)] Cons.prems(2) obtain acc got q2 where
      rest: "queue_run put get q1 cs = Some (acc, got, q2)" "invar q2"
        "contents q1 @ acc = got @ contents q2"
      by auto
    have "take (min (unat n) (length (contents q)))
        (blit (replicate (unat n) 0) 0 (take (unat n) (contents q))) = take (unat n) (contents q)"
      by (simp add: blit_def min_def)
    moreover have "contents q @ acc = take (unat n) (contents q) @ got @ contents q2"
      using rest(3) q1(3) by (metis append_assoc append_take_drop_id)
    ultimately show ?thesis
      using q1 rest Get by (simp add: unat_of_nat_min)
  qed
qed

end

end
