(* ===== verification/Libz_Ring.thy ===== *)
theory Libz_Ring
  imports Byte_Queue
begin

text \<open>
  \<^verbatim>\<open>libz/fudge/ring.c\<close>: the byte ring the drivers, sockets and pipes hand data through. Head and
  tail are free-running 32 bit counters; a slot is the counter masked with \<^verbatim>\<open>capacity - 1\<close>. The
  theory models every routine of the file, states the invariant they keep, and shows that on rings
  that satisfy it the routines are those of a bounded queue of bytes: the abstraction
  \<open>ring_list\<close> lists the bytes from the tail to the head. The byte buffers handed to the read and
  write routines are the lists of the bytes from the given pointer on.
\<close>

section \<open>State and operations\<close>

record ring =
  rbuf :: "u8 list"
  capacity :: u32
  head :: u32
  tail :: u32

definition ring_mask :: "ring \<Rightarrow> u32 \<Rightarrow> u32" where
  "ring_mask r v = v AND (capacity r - 1)"

definition ring_count :: "ring \<Rightarrow> u32" where
  "ring_count r = head r - tail r"

definition ring_avail :: "ring \<Rightarrow> u32" where
  "ring_avail r = capacity r - ring_count r"

definition ring_isempty :: "ring \<Rightarrow> bool" where
  "ring_isempty r \<longleftrightarrow> head r = tail r"

definition ring_isfull :: "ring \<Rightarrow> bool" where
  "ring_isfull r \<longleftrightarrow> ring_count r = capacity r"

text \<open>The four slot accesses the loops below are made of.\<close>

definition slot_read_tail :: "ring \<Rightarrow> (u8 \<times> ring) option" where
  "slot_read_tail r =
     do { x \<leftarrow> rd (rbuf r) (unat (ring_mask r (tail r))); Some (x, r\<lparr>tail := tail r + 1\<rparr>) }"

definition slot_read_head :: "ring \<Rightarrow> (u8 \<times> ring) option" where
  "slot_read_head r =
     (let h = head r - 1 in
      do { x \<leftarrow> rd (rbuf r) (unat (ring_mask r h)); Some (x, r\<lparr>head := h\<rparr>) })"

definition slot_write_head :: "ring \<Rightarrow> u8 \<Rightarrow> ring option" where
  "slot_write_head r x =
     do { b \<leftarrow> wr (rbuf r) (unat (ring_mask r (head r))) x;
          Some (r\<lparr>rbuf := b, head := head r + 1\<rparr>) }"

definition slot_write_tail :: "ring \<Rightarrow> u8 \<Rightarrow> ring option" where
  "slot_write_tail r x =
     (let t = tail r - 1 in
      do { b \<leftarrow> wr (rbuf r) (unat (ring_mask r t)) x; Some (r\<lparr>rbuf := b, tail := t\<rparr>) })"

primrec ring_skip_loop :: "nat \<Rightarrow> ring \<Rightarrow> u32 \<Rightarrow> u32 \<times> ring" where
  "ring_skip_loop 0 r c = (c, r)"
| "ring_skip_loop (Suc n) r c =
     (if ring_isempty r then (c, r) else ring_skip_loop n (r\<lparr>tail := tail r + 1\<rparr>) (c + 1))"

definition ring_skip :: "ring \<Rightarrow> u32 \<Rightarrow> u32 \<times> ring" where
  "ring_skip r count = (if count = 0 then (0, r) else ring_skip_loop (unat count) r 0)"

primrec ring_skip_reverse_loop :: "nat \<Rightarrow> ring \<Rightarrow> u32 \<Rightarrow> u32 \<times> ring" where
  "ring_skip_reverse_loop 0 r c = (c, r)"
| "ring_skip_reverse_loop (Suc n) r c =
     (if ring_isempty r then (c, r)
      else ring_skip_reverse_loop n (r\<lparr>head := head r - 1\<rparr>) (c + 1))"

definition ring_skip_reverse :: "ring \<Rightarrow> u32 \<Rightarrow> u32 \<times> ring" where
  "ring_skip_reverse r count =
     (if count = 0 then (0, r) else ring_skip_reverse_loop (unat count) r 0)"

primrec ring_read_loop :: "nat \<Rightarrow> ring \<Rightarrow> u8 list \<Rightarrow> u32 \<Rightarrow> (u32 \<times> ring \<times> u8 list) option" where
  "ring_read_loop 0 r b c = Some (c, r, b)"
| "ring_read_loop (Suc n) r b c =
     (if ring_isempty r then Some (c, r, b)
      else do { (x, r') \<leftarrow> slot_read_tail r; b' \<leftarrow> wr b (unat c) x; ring_read_loop n r' b' (c + 1) })"

definition ring_read :: "ring \<Rightarrow> u8 list \<Rightarrow> u32 \<Rightarrow> (u32 \<times> ring \<times> u8 list) option" where
  "ring_read r b count = (if count = 0 then Some (0, r, b) else ring_read_loop (unat count) r b 0)"

definition ring_read_all :: "ring \<Rightarrow> u8 list \<Rightarrow> u32 \<Rightarrow> (u32 \<times> ring \<times> u8 list) option" where
  "ring_read_all r b count = (if count > ring_count r then Some (0, r, b) else ring_read r b count)"

primrec ring_read_reverse_loop ::
  "nat \<Rightarrow> ring \<Rightarrow> u8 list \<Rightarrow> u32 \<Rightarrow> (u32 \<times> ring \<times> u8 list) option" where
  "ring_read_reverse_loop 0 r b c = Some (c, r, b)"
| "ring_read_reverse_loop (Suc n) r b c =
     (if ring_isempty r then Some (c, r, b)
      else do { (x, r') \<leftarrow> slot_read_head r; b' \<leftarrow> wr b (unat c) x;
                ring_read_reverse_loop n r' b' (c + 1) })"

definition ring_read_reverse :: "ring \<Rightarrow> u8 list \<Rightarrow> u32 \<Rightarrow> (u32 \<times> ring \<times> u8 list) option" where
  "ring_read_reverse r b count =
     (if count = 0 then Some (0, r, b) else ring_read_reverse_loop (unat count) r b 0)"

definition ring_read_allreverse :: "ring \<Rightarrow> u8 list \<Rightarrow> u32 \<Rightarrow> (u32 \<times> ring \<times> u8 list) option" where
  "ring_read_allreverse r b count =
     (if count > ring_avail r then Some (0, r, b) else ring_read_reverse r b count)"

definition ring_readcopy :: "ring \<Rightarrow> u8 list \<Rightarrow> u32 \<Rightarrow> (u32 \<times> ring \<times> u8 list) option" where
  "ring_readcopy r b count =
     do { (n, r', b') \<leftarrow> ring_read r b count;
          Some (n, r'\<lparr>head := head r, tail := tail r\<rparr>, b') }"

primrec ring_write_loop :: "nat \<Rightarrow> ring \<Rightarrow> u8 list \<Rightarrow> u32 \<Rightarrow> (u32 \<times> ring) option" where
  "ring_write_loop 0 r b c = Some (c, r)"
| "ring_write_loop (Suc n) r b c =
     (if ring_isfull r then Some (c, r)
      else do { x \<leftarrow> rd b (unat c); r' \<leftarrow> slot_write_head r x; ring_write_loop n r' b (c + 1) })"

definition ring_write :: "ring \<Rightarrow> u8 list \<Rightarrow> u32 \<Rightarrow> (u32 \<times> ring) option" where
  "ring_write r b count = (if count = 0 then Some (0, r) else ring_write_loop (unat count) r b 0)"

definition ring_write_all :: "ring \<Rightarrow> u8 list \<Rightarrow> u32 \<Rightarrow> (u32 \<times> ring) option" where
  "ring_write_all r b count = (if count > ring_avail r then Some (0, r) else ring_write r b count)"

primrec ring_write_reverse_loop :: "nat \<Rightarrow> ring \<Rightarrow> u8 list \<Rightarrow> u32 \<Rightarrow> (u32 \<times> ring) option" where
  "ring_write_reverse_loop 0 r b c = Some (c, r)"
| "ring_write_reverse_loop (Suc n) r b c =
     (if ring_isfull r then Some (c, r)
      else do { x \<leftarrow> rd b (unat c); r' \<leftarrow> slot_write_tail r x;
                ring_write_reverse_loop n r' b (c + 1) })"

definition ring_write_reverse :: "ring \<Rightarrow> u8 list \<Rightarrow> u32 \<Rightarrow> (u32 \<times> ring) option" where
  "ring_write_reverse r b count =
     (if count = 0 then Some (0, r) else ring_write_reverse_loop (unat count) r b 0)"

definition ring_write_allreverse :: "ring \<Rightarrow> u8 list \<Rightarrow> u32 \<Rightarrow> (u32 \<times> ring) option" where
  "ring_write_allreverse r b count =
     (if count > ring_avail r then Some (0, r) else ring_write_reverse r b count)"

primrec ring_overwrite_loop :: "nat \<Rightarrow> ring \<Rightarrow> u8 list \<Rightarrow> u32 \<Rightarrow> (u32 \<times> ring) option" where
  "ring_overwrite_loop 0 r b c = Some (c, r)"
| "ring_overwrite_loop (Suc n) r b c =
     do { x \<leftarrow> rd b (unat c); r' \<leftarrow> slot_write_head r x;
          ring_overwrite_loop n (if ring_isfull r' then r'\<lparr>tail := tail r' + 1\<rparr> else r') b (c + 1) }"

definition ring_overwrite :: "ring \<Rightarrow> u8 list \<Rightarrow> u32 \<Rightarrow> (u32 \<times> ring) option" where
  "ring_overwrite r b count =
     (if count = 0 then Some (0, r) else ring_overwrite_loop (unat count) r b 0)"

definition ring_reset :: "ring \<Rightarrow> ring" where
  "ring_reset r = r\<lparr>head := 0, tail := 0\<rparr>"

definition ring_init :: "u32 \<Rightarrow> u8 list \<Rightarrow> ring" where
  "ring_init cap buf = \<lparr>rbuf = buf, capacity = cap, head = 0, tail = 0\<rparr>"

text \<open>
  \<^verbatim>\<open>ring_each\<close>, \<^verbatim>\<open>ring_find\<close> and \<^verbatim>\<open>ring_find_reverse\<close> walk a cursor between the two counters. The
  distance to the other counter shrinks with every step, so the walks end on every ring.
\<close>

lemma distance_decreases: "(s :: u32) \<noteq> h \<Longrightarrow> unat (h - (s + 1)) < unat (h - s)"
proof -
  assume "s \<noteq> h"
  then have "h - s \<noteq> 0" by simp
  then have "unat (h - s - 1) = unat (h - s) - 1" and "0 < unat (h - s)"
    by (simp_all add: unat_minus_one unat_gt_0)
  then show ?thesis by (simp add: diff_diff_add)
qed

lemma distance_decreases_rev: "(s :: u32) \<noteq> t \<Longrightarrow> unat (s - 1 - t) < unat (s - t)"
  using distance_decreases [of t s] by (simp add: algebra_simps)

function ring_each_loop :: "ring \<Rightarrow> u8 \<Rightarrow> u32 \<Rightarrow> u32 \<Rightarrow> u32 option" where
  "ring_each_loop r v s c =
     (if s \<noteq> head r then
        do { x \<leftarrow> rd (rbuf r) (unat (ring_mask r s));
             if x = v then Some (c + 1) else ring_each_loop r v (s + 1) (c + 1) }
      else Some 0)"
  by pat_completeness auto
termination
  by (relation "measure (\<lambda>(r, v, s, c). unat (head r - s))") (auto simp: distance_decreases)

declare ring_each_loop.simps [simp del]

definition ring_each :: "ring \<Rightarrow> u8 \<Rightarrow> u32 option" where
  "ring_each r v = ring_each_loop r v (tail r) 0"

function ring_find_loop :: "ring \<Rightarrow> u8 \<Rightarrow> u32 \<Rightarrow> u32 \<Rightarrow> u32 option" where
  "ring_find_loop r v s c =
     (if s \<noteq> head r then
        do { x \<leftarrow> rd (rbuf r) (unat (ring_mask r s));
             if x = v then Some c else ring_find_loop r v (s + 1) (c + 1) }
      else Some (if s = head r then c else 0))"
  by pat_completeness auto
termination
  by (relation "measure (\<lambda>(r, v, s, c). unat (head r - s))") (auto simp: distance_decreases)

declare ring_find_loop.simps [simp del]

definition ring_find :: "ring \<Rightarrow> u8 \<Rightarrow> u32 option" where
  "ring_find r v = ring_find_loop r v (tail r) 0"

function ring_find_reverse_loop :: "ring \<Rightarrow> u8 \<Rightarrow> u32 \<Rightarrow> u32 \<Rightarrow> u32 option" where
  "ring_find_reverse_loop r v s c =
     (if s \<noteq> tail r then
        do { x \<leftarrow> rd (rbuf r) (unat (ring_mask r (s - 1)));
             if x = v then Some c else ring_find_reverse_loop r v (s - 1) (c + 1) }
      else Some (if s = tail r then c else 0))"
  by pat_completeness auto
termination
  by (relation "measure (\<lambda>(r, v, s, c). unat (s - tail r))") (auto simp: distance_decreases_rev)

declare ring_find_reverse_loop.simps [simp del]

definition ring_find_reverse :: "ring \<Rightarrow> u8 \<Rightarrow> u32 option" where
  "ring_find_reverse r v = ring_find_reverse_loop r v (head r) 0"

section \<open>The invariant and the queue a ring stands for\<close>

definition ring_wf :: "ring \<Rightarrow> bool" where
  "ring_wf r \<longleftrightarrow> (\<exists>k<32. capacity r = 2 ^ k) \<and> unat (capacity r) \<le> length (rbuf r) \<and>
     ring_count r \<le> capacity r"

definition ring_list :: "ring \<Rightarrow> u8 list" where
  "ring_list r =
     map (\<lambda>i. rbuf r ! unat (ring_mask r (tail r + of_nat i))) [0..<unat (ring_count r)]"

abbreviation ring_cap :: "ring \<Rightarrow> nat" where
  "ring_cap r \<equiv> unat (capacity r)"

lemma length_ring_list [simp]: "length (ring_list r) = unat (ring_count r)"
  by (simp add: ring_list_def)

lemma ring_wf_cap:
  assumes "ring_wf r"
  obtains k where "k < 32" and "capacity r = 2 ^ k" and "ring_cap r = 2 ^ k"
proof -
  from assms obtain k where k: "k < 32" "capacity r = 2 ^ k"
    by (auto simp: ring_wf_def)
  then have "ring_cap r = 2 ^ k"
    by (simp add: unat_power_u32)
  with k that show thesis by blast
qed

lemma ring_cap_pos: "ring_wf r \<Longrightarrow> 0 < ring_cap r"
  by (erule ring_wf_cap) simp

lemma ring_cap_bound: "ring_wf r \<Longrightarrow> ring_cap r \<le> 2147483648"
proof (erule ring_wf_cap)
  fix k :: nat
  assume "k < 32" and c: "ring_cap r = 2 ^ k"
  then have "(2::nat) ^ k \<le> 2 ^ 31" by (intro power_increasing) auto
  with c show ?thesis by simp
qed

lemma ring_used_le: "ring_wf r \<Longrightarrow> unat (ring_count r) \<le> ring_cap r"
  by (simp add: ring_wf_def word_le_nat_alt)

lemma unat_ring_mask:
  assumes "ring_wf r"
  shows "unat (ring_mask r w) = unat w mod ring_cap r"
proof -
  from assms obtain k where k: "k < 32" "capacity r = 2 ^ k" "ring_cap r = 2 ^ k"
    by (rule ring_wf_cap)
  then have "ring_mask r w = take_bit k w"
    by (simp add: ring_mask_def take_bit_eq_mask mask_eq_exp_minus_1)
  then have "unat (ring_mask r w) = take_bit k (unat w)"
    by (simp add: unsigned_take_bit_eq)
  then show ?thesis
    by (simp add: k(3) take_bit_eq_mod)
qed

lemma unat_mod_ring_cap:
  assumes "ring_wf r"
  shows "unat (w + of_nat i :: u32) mod ring_cap r = (unat w + i) mod ring_cap r"
proof -
  from assms obtain k where k: "k < 32" "ring_cap r = 2 ^ k"
    by (rule ring_wf_cap)
  have "(2::nat) ^ k dvd 2 ^ 32"
    by (rule le_imp_power_dvd) (use k in simp)
  then have "ring_cap r dvd 4294967296"
    by (simp add: k)
  then show ?thesis
    by (simp add: unat_word_ariths unat_of_nat mod_mod_cancel mod_add_right_eq)
qed

lemma slot_index: "ring_wf r \<Longrightarrow> unat (ring_mask r (w + of_nat i)) = (unat w + i) mod ring_cap r"
  by (simp add: unat_ring_mask unat_mod_ring_cap)

lemma slot_in_range: "ring_wf r \<Longrightarrow> unat (ring_mask r w) < length (rbuf r)"
proof -
  assume wf: "ring_wf r"
  then have "unat (ring_mask r w) < ring_cap r"
    by (simp add: unat_ring_mask ring_cap_pos)
  with wf show ?thesis by (simp add: ring_wf_def)
qed

lemma nth_ring_list:
  "ring_wf r \<Longrightarrow> i < unat (ring_count r) \<Longrightarrow>
   ring_list r ! i = rbuf r ! ((unat (tail r) + i) mod ring_cap r)"
  by (simp add: ring_list_def slot_index)

lemma head_slot:
  assumes "ring_wf r"
  shows "unat (ring_mask r (head r)) = (unat (tail r) + unat (ring_count r)) mod ring_cap r"
proof -
  have "head r = tail r + of_nat (unat (ring_count r))"
    by (simp add: ring_count_def)
  then show ?thesis
    using slot_index [OF assms, of "tail r" "unat (ring_count r)"] by simp
qed

lemma tail_slot: "ring_wf r \<Longrightarrow> unat (ring_mask r (tail r)) = unat (tail r) mod ring_cap r"
  by (simp add: unat_ring_mask)

lemma mod_slots_distinct:
  fixes a c i j :: nat
  assumes "i < j" and "j < i + c"
  shows "(a + i) mod c \<noteq> (a + j) mod c"
proof
  assume "(a + i) mod c = (a + j) mod c"
  then have "c dvd (a + j) - (a + i)"
    using mod_eq_dvd_iff_nat [of "a + i" "a + j" c] assms(1) by simp
  with assms show False
    by (auto dest: dvd_imp_le)
qed

section \<open>One byte in, one byte out\<close>

lemma ring_mask_upd [simp]:
  "ring_mask (r\<lparr>rbuf := b\<rparr>) w = ring_mask r w"
  "ring_mask (r\<lparr>head := h\<rparr>) w = ring_mask r w"
  "ring_mask (r\<lparr>tail := t\<rparr>) w = ring_mask r w"
  by (simp_all add: ring_mask_def)

lemma ring_isempty_iff: "ring_isempty r \<longleftrightarrow> ring_list r = []"
proof -
  have "ring_isempty r \<longleftrightarrow> unat (ring_count r) = 0"
    by (simp add: ring_isempty_def ring_count_def unat_eq_0)
  also have "\<dots> \<longleftrightarrow> length (ring_list r) = 0" by simp
  finally show ?thesis by (simp only: length_0_conv)
qed

lemma ring_isfull_iff: "ring_isfull r \<longleftrightarrow> length (ring_list r) = ring_cap r"
  by (simp add: ring_isfull_def word_unat_eq_iff)

lemma slot_write_head_ok:
  assumes wf: "ring_wf r" and free: "\<not> ring_isfull r"
  shows "\<exists>r'. slot_write_head r x = Some r' \<and> ring_wf r' \<and> capacity r' = capacity r \<and>
    ring_list r' = ring_list r @ [x]"
proof -
  define p where "p = unat (ring_mask r (head r))"
  define r' where "r' = r\<lparr>rbuf := (rbuf r)[p := x], head := head r + 1\<rparr>"
  define u where "u = unat (ring_count r)"
  have p: "p = (unat (tail r) + u) mod ring_cap r"
    using wf by (simp add: p_def u_def head_slot)
  have plen: "p < length (rbuf r)"
    using slot_in_range [OF wf] by (simp add: p_def)
  have room: "u < ring_cap r"
    using free ring_used_le [OF wf] by (simp add: u_def ring_isfull_def word_unat_eq_iff)
  have "ring_count r' = ring_count r + 1"
    by (simp add: r'_def ring_count_def)
  moreover have "ring_count r < capacity r"
    using room by (simp add: u_def word_less_nat_alt)
  ultimately have u': "unat (ring_count r') = Suc u"
    by (simp add: u_def unat_inc_u32)
  have wf': "ring_wf r'"
    using wf room u' by (simp add: ring_wf_def r'_def word_le_nat_alt)
  have cap: "capacity r' = capacity r" and tl: "tail r' = tail r"
    and buf: "rbuf r' = (rbuf r)[p := x]"
    by (simp_all add: r'_def)
  have "ring_list r' = ring_list r @ [x]"
  proof (rule nth_equalityI)
    show "length (ring_list r') = length (ring_list r @ [x])"
      using u' by (simp add: u_def)
  next
    fix i
    assume "i < length (ring_list r')"
    then have i: "i < Suc u" using u' by simp
    then have r'_i: "ring_list r' ! i = (rbuf r)[p := x] ! ((unat (tail r) + i) mod ring_cap r)"
      using nth_ring_list [OF wf', of i] u' cap tl buf by simp
    show "ring_list r' ! i = (ring_list r @ [x]) ! i"
    proof (cases "i < u")
      case True
      then have "(unat (tail r) + i) mod ring_cap r \<noteq> p"
        unfolding p using room by (intro mod_slots_distinct) auto
      with True r'_i show ?thesis
        using nth_ring_list [OF wf, of i] by (simp add: nth_append u_def)
    next
      case False
      with i have "i = u" by simp
      with r'_i p plen show ?thesis by (simp add: nth_append u_def)
    qed
  qed
  moreover have "slot_write_head r x = Some r'"
    using plen by (simp add: slot_write_head_def p_def r'_def)
  ultimately show ?thesis using wf' cap by blast
qed

lemma slot_read_tail_ok:
  assumes wf: "ring_wf r" and ne: "\<not> ring_isempty r"
  shows "\<exists>r'. slot_read_tail r = Some (hd (ring_list r), r') \<and> ring_wf r' \<and>
    capacity r' = capacity r \<and> ring_list r' = tl (ring_list r) \<and> rbuf r' = rbuf r"
proof -
  define r' where "r' = r\<lparr>tail := tail r + 1\<rparr>"
  define u where "u = unat (ring_count r)"
  have pos: "0 < u"
    using ne by (simp add: u_def ring_isempty_def ring_count_def unat_gt_0)
  have "ring_count r' = ring_count r - 1"
    by (simp add: r'_def ring_count_def)
  then have u': "unat (ring_count r') = u - 1"
    using pos by (simp add: u_def unat_minus_one unat_gt_0)
  have wf': "ring_wf r'"
    using wf u' by (auto simp: ring_wf_def r'_def word_le_nat_alt u_def)
  have shift: "unat (tail r') mod ring_cap r = (unat (tail r) + 1) mod ring_cap r"
    using unat_mod_ring_cap [OF wf, of "tail r" 1] by (simp add: r'_def)
  have "ring_list r' = tl (ring_list r)"
  proof (rule nth_equalityI)
    show "length (ring_list r') = length (tl (ring_list r))"
      using u' by (simp add: u_def)
  next
    fix i
    assume "i < length (ring_list r')"
    then have i: "Suc i < u" using u' by simp
    have "(unat (tail r') + i) mod ring_cap r = (unat (tail r) + Suc i) mod ring_cap r"
      using shift by (metis add.assoc mod_add_left_eq plus_1_eq_Suc)
    then show "ring_list r' ! i = tl (ring_list r) ! i"
      using i u' nth_ring_list [OF wf', of i] nth_ring_list [OF wf, of "Suc i"]
      by (simp add: nth_tl u_def r'_def)
  qed
  moreover have "hd (ring_list r) = rbuf r ! unat (ring_mask r (tail r))"
  proof -
    have "ring_list r \<noteq> []" using ne by (simp add: ring_isempty_iff)
    then have "hd (ring_list r) = ring_list r ! 0" by (simp add: hd_conv_nth)
    also have "\<dots> = rbuf r ! unat (ring_mask r (tail r))"
      using nth_ring_list [OF wf, of 0] pos wf by (simp add: u_def unat_ring_mask)
    finally show ?thesis .
  qed
  moreover have "rd (rbuf r) (unat (ring_mask r (tail r))) = Some (rbuf r ! unat (ring_mask r (tail r)))"
    using slot_in_range [OF wf] by simp
  ultimately show ?thesis
    using wf' by (intro exI [of _ r']) (simp add: slot_read_tail_def r'_def)
qed

lemma slot_read_head_ok:
  assumes wf: "ring_wf r" and ne: "\<not> ring_isempty r"
  shows "\<exists>r'. slot_read_head r = Some (last (ring_list r), r') \<and> ring_wf r' \<and>
    capacity r' = capacity r \<and> ring_list r' = butlast (ring_list r)"
proof -
  define r' where "r' = r\<lparr>head := head r - 1\<rparr>"
  define u where "u = unat (ring_count r)"
  have pos: "0 < u"
    using ne by (simp add: u_def ring_isempty_def ring_count_def unat_gt_0)
  have "ring_count r' = ring_count r - 1"
    by (simp add: r'_def ring_count_def)
  then have u': "unat (ring_count r') = u - 1"
    using pos by (simp add: u_def unat_minus_one unat_gt_0)
  have wf': "ring_wf r'"
    using wf u' by (auto simp: ring_wf_def r'_def word_le_nat_alt u_def)
  have same: "capacity r' = capacity r" "tail r' = tail r" "rbuf r' = rbuf r"
    by (simp_all add: r'_def)
  have list: "ring_list r' = butlast (ring_list r)"
  proof (rule nth_equalityI)
    fix i
    assume "i < length (ring_list r')"
    then show "ring_list r' ! i = butlast (ring_list r) ! i"
      using u' nth_ring_list [OF wf', of i] nth_ring_list [OF wf, of i]
      by (simp add: nth_butlast u_def same)
  qed (use u' in \<open>simp add: u_def\<close>)
  have "unat (ring_mask r (head r - 1)) = unat (ring_mask r' (head r'))"
    by (simp add: r'_def)
  also have "\<dots> = (unat (tail r) + (u - 1)) mod ring_cap r"
    using head_slot [OF wf'] u' same by simp
  finally have "last (ring_list r) = rbuf r ! unat (ring_mask r (head r - 1))"
    using ne pos nth_ring_list [OF wf, of "u - 1"]
    by (simp add: ring_isempty_iff last_conv_nth u_def)
  then show ?thesis
    using wf' list slot_in_range [OF wf] by (simp add: slot_read_head_def r'_def Let_def)
qed

lemma slot_write_tail_ok:
  assumes wf: "ring_wf r" and free: "\<not> ring_isfull r"
  shows "\<exists>r'. slot_write_tail r x = Some r' \<and> ring_wf r' \<and> capacity r' = capacity r \<and>
    ring_list r' = x # ring_list r"
proof -
  define t where "t = tail r - 1"
  define p where "p = unat (ring_mask r t)"
  define r' where "r' = r\<lparr>rbuf := (rbuf r)[p := x], tail := t\<rparr>"
  define u where "u = unat (ring_count r)"
  have plen: "p < length (rbuf r)"
    using wf by (simp add: p_def slot_in_range)
  have p: "p = unat t mod ring_cap r"
    using wf by (simp add: p_def unat_ring_mask)
  have room: "u < ring_cap r"
    using free ring_used_le [OF wf] by (simp add: u_def ring_isfull_def word_unat_eq_iff)
  have "ring_count r' = ring_count r + 1"
    by (simp add: r'_def ring_count_def t_def)
  moreover have "ring_count r < capacity r"
    using room by (simp add: u_def word_less_nat_alt)
  ultimately have u': "unat (ring_count r') = Suc u"
    by (simp add: u_def unat_inc_u32)
  have wf': "ring_wf r'"
    using wf room u' by (simp add: ring_wf_def r'_def word_le_nat_alt)
  have same: "capacity r' = capacity r" "tail r' = t" "rbuf r' = (rbuf r)[p := x]"
    by (simp_all add: r'_def)
  have shift: "unat (tail r) mod ring_cap r = (unat t + 1) mod ring_cap r"
    using unat_mod_ring_cap [OF wf, of t 1] by (simp add: t_def)
  have "ring_list r' = x # ring_list r"
  proof (rule nth_equalityI)
    show "length (ring_list r') = length (x # ring_list r)"
      using u' by (simp add: u_def)
  next
    fix i
    assume "i < length (ring_list r')"
    then have i: "i < Suc u" using u' by simp
    then have r'_i: "ring_list r' ! i = (rbuf r)[p := x] ! ((unat t + i) mod ring_cap r)"
      using nth_ring_list [OF wf', of i] u' same by simp
    show "ring_list r' ! i = (x # ring_list r) ! i"
    proof (cases i)
      case 0
      with r'_i plen show ?thesis by (simp add: p)
    next
      case (Suc j)
      have "(unat t + 0) mod ring_cap r \<noteq> (unat t + i) mod ring_cap r"
        using Suc i room by (intro mod_slots_distinct) auto
      moreover have "(unat t + i) mod ring_cap r = (unat (tail r) + j) mod ring_cap r"
        using shift Suc by (metis add.assoc mod_add_left_eq plus_1_eq_Suc)
      ultimately show ?thesis
        using r'_i Suc i nth_ring_list [OF wf, of j] by (simp add: p u_def)
    qed
  qed
  moreover have "slot_write_tail r x = Some r'"
    using plen by (simp add: slot_write_tail_def p_def r'_def t_def Let_def)
  ultimately show ?thesis using wf' same by blast
qed

section \<open>Blocks of bytes\<close>

lemma ring_write_loop_ok:
  assumes "ring_wf r" and "unat c + n \<le> length b" and "unat c + n < 4294967296"
  shows "\<exists>r'. ring_write_loop n r b c =
      Some (c + of_nat (min n (ring_cap r - length (ring_list r))), r') \<and>
    ring_wf r' \<and> capacity r' = capacity r \<and>
    ring_list r' = ring_list r @ seg b (unat c) (min n (ring_cap r - length (ring_list r)))"
  using assms
proof (induction n arbitrary: r c)
  case (Suc n)
  show ?case
  proof (cases "ring_isfull r")
    case True
    with Suc.prems show ?thesis by (simp add: ring_isfull_iff)
  next
    case False
    from slot_write_head_ok [OF Suc.prems(1) False, of "b ! unat c"] obtain r1 where
      r1: "slot_write_head r (b ! unat c) = Some r1" "ring_wf r1" "capacity r1 = capacity r"
        "ring_list r1 = ring_list r @ [b ! unat c]"
      by blast
    have c1: "unat (c + 1) = Suc (unat c)"
      using Suc.prems(3) by (simp add: unat_word_ariths)
    have lt: "length (ring_list r) < ring_cap r"
      using False ring_used_le [OF Suc.prems(1)] by (simp add: ring_isfull_def word_unat_eq_iff)
    have len1: "length (ring_list r1) = Suc (length (ring_list r))"
      by (simp only: r1(4) length_append_singleton)
    have m: "min (Suc n) (ring_cap r - length (ring_list r)) =
        Suc (min n (ring_cap r1 - length (ring_list r1)))"
      unfolding len1 using lt r1(3) by (simp add: Suc_diff_Suc del: length_ring_list)
    from Suc.IH [OF r1(2), of "c + 1"] c1 Suc.prems obtain r2 where
      "ring_write_loop n r1 b (c + 1) =
         Some (c + 1 + of_nat (min n (ring_cap r1 - length (ring_list r1))), r2)"
      "ring_wf r2" "capacity r2 = capacity r1"
      "ring_list r2 = ring_list r1 @ seg b (Suc (unat c)) (min n (ring_cap r1 - length (ring_list r1)))"
      by auto
    with r1 False Suc.prems(2) show ?thesis
      unfolding m by (simp add: seg_Suc algebra_simps del: length_ring_list)
  qed
qed simp

lemma ring_write_ok:
  assumes "ring_wf r" and "unat count \<le> length b"
  shows "\<exists>r'. ring_write r b count =
      Some (of_nat (min (unat count) (ring_cap r - length (ring_list r))), r') \<and>
    ring_wf r' \<and> capacity r' = capacity r \<and>
    ring_list r' = ring_list r @ take (min (unat count) (ring_cap r - length (ring_list r))) b"
proof (cases "count = 0")
  case True
  with assms show ?thesis by (simp add: ring_write_def)
next
  case False
  then show ?thesis
    using ring_write_loop_ok [OF assms(1), of 0 "unat count" b] assms(2)
    by (simp add: ring_write_def seg_def)
qed

lemma ring_write_reverse_loop_ok:
  assumes "ring_wf r" and "unat c + n \<le> length b" and "unat c + n < 4294967296"
  shows "\<exists>r'. ring_write_reverse_loop n r b c =
      Some (c + of_nat (min n (ring_cap r - length (ring_list r))), r') \<and>
    ring_wf r' \<and> capacity r' = capacity r \<and>
    ring_list r' = rev (seg b (unat c) (min n (ring_cap r - length (ring_list r)))) @ ring_list r"
  using assms
proof (induction n arbitrary: r c)
  case (Suc n)
  show ?case
  proof (cases "ring_isfull r")
    case True
    with Suc.prems show ?thesis by (simp add: ring_isfull_iff)
  next
    case False
    from slot_write_tail_ok [OF Suc.prems(1) False, of "b ! unat c"] obtain r1 where
      r1: "slot_write_tail r (b ! unat c) = Some r1" "ring_wf r1" "capacity r1 = capacity r"
        "ring_list r1 = b ! unat c # ring_list r"
      by blast
    have c1: "unat (c + 1) = Suc (unat c)"
      using Suc.prems(3) by (simp add: unat_word_ariths)
    have lt: "length (ring_list r) < ring_cap r"
      using False ring_used_le [OF Suc.prems(1)] by (simp add: ring_isfull_def word_unat_eq_iff)
    have len1: "length (ring_list r1) = Suc (length (ring_list r))"
      by (simp only: r1(4) length_Cons)
    have m: "min (Suc n) (ring_cap r - length (ring_list r)) =
        Suc (min n (ring_cap r1 - length (ring_list r1)))"
      unfolding len1 using lt r1(3) by (simp add: Suc_diff_Suc del: length_ring_list)
    from Suc.IH [OF r1(2), of "c + 1"] c1 Suc.prems obtain r2 where
      "ring_write_reverse_loop n r1 b (c + 1) =
         Some (c + 1 + of_nat (min n (ring_cap r1 - length (ring_list r1))), r2)"
      "ring_wf r2" "capacity r2 = capacity r1"
      "ring_list r2 =
         rev (seg b (Suc (unat c)) (min n (ring_cap r1 - length (ring_list r1)))) @ ring_list r1"
      by auto
    with r1 False Suc.prems(2) show ?thesis
      unfolding m by (simp add: seg_Suc algebra_simps del: length_ring_list)
  qed
qed simp

lemma ring_read_loop_ok:
  assumes "ring_wf r" and "unat c + n \<le> length b" and "unat c + n < 4294967296"
  shows "\<exists>r'. ring_read_loop n r b c =
      Some (c + of_nat (min n (length (ring_list r))), r',
            blit b (unat c) (take n (ring_list r))) \<and>
    ring_wf r' \<and> capacity r' = capacity r \<and> ring_list r' = drop n (ring_list r) \<and>
    rbuf r' = rbuf r"
  using assms
proof (induction n arbitrary: r c b)
  case (Suc n)
  show ?case
  proof (cases "ring_isempty r")
    case True
    then have "ring_list r = []" by (simp add: ring_isempty_iff)
    with True Suc.prems show ?thesis by (simp del: length_ring_list)
  next
    case False
    then obtain x xs where xs: "ring_list r = x # xs"
      by (cases "ring_list r") (auto simp: ring_isempty_iff)
    from slot_read_tail_ok [OF Suc.prems(1) False] xs obtain r1 where
      r1: "slot_read_tail r = Some (x, r1)" "ring_wf r1" "capacity r1 = capacity r"
        "ring_list r1 = xs" "rbuf r1 = rbuf r"
      by auto
    have c1: "unat (c + 1) = Suc (unat c)"
      using Suc.prems(3) by (simp add: unat_word_ariths)
    from Suc.IH [OF r1(2), of "c + 1" "b[unat c := x]"] c1 Suc.prems obtain r2 where
      "ring_read_loop n r1 (b[unat c := x]) (c + 1) =
         Some (c + 1 + of_nat (min n (length xs)), r2,
               blit (b[unat c := x]) (Suc (unat c)) (take n xs))"
      "ring_wf r2" "capacity r2 = capacity r1" "ring_list r2 = drop n xs" "rbuf r2 = rbuf r1"
      using r1(4) by auto
    with r1 False Suc.prems(2) show ?thesis
      by (simp add: xs blit_Cons algebra_simps del: length_ring_list)
  qed
qed simp

lemma ring_read_ok:
  assumes "ring_wf r" and "unat count \<le> length b"
  shows "\<exists>r'. ring_read r b count =
      Some (of_nat (min (unat count) (length (ring_list r))), r',
            blit b 0 (take (unat count) (ring_list r))) \<and>
    ring_wf r' \<and> capacity r' = capacity r \<and> ring_list r' = drop (unat count) (ring_list r) \<and>
    rbuf r' = rbuf r"
proof (cases "count = 0")
  case True
  with assms show ?thesis by (simp add: ring_read_def)
next
  case False
  then show ?thesis
    using ring_read_loop_ok [OF assms(1), of 0 "unat count" b] assms(2)
    by (simp add: ring_read_def del: length_ring_list)
qed

lemma ring_read_reverse_loop_ok:
  assumes "ring_wf r" and "unat c + n \<le> length b" and "unat c + n < 4294967296"
  shows "\<exists>r'. ring_read_reverse_loop n r b c =
      Some (c + of_nat (min n (length (ring_list r))), r',
            blit b (unat c) (take n (rev (ring_list r)))) \<and>
    ring_wf r' \<and> capacity r' = capacity r \<and>
    ring_list r' = rev (drop n (rev (ring_list r)))"
  using assms
proof (induction n arbitrary: r c b)
  case (Suc n)
  show ?case
  proof (cases "ring_isempty r")
    case True
    then have "ring_list r = []" by (simp add: ring_isempty_iff)
    with True Suc.prems show ?thesis by (simp del: length_ring_list)
  next
    case False
    then obtain x xs where xs: "ring_list r = xs @ [x]"
      by (cases "ring_list r" rule: rev_cases) (auto simp: ring_isempty_iff)
    from slot_read_head_ok [OF Suc.prems(1) False] xs obtain r1 where
      r1: "slot_read_head r = Some (x, r1)" "ring_wf r1" "capacity r1 = capacity r"
        "ring_list r1 = xs"
      by auto
    have c1: "unat (c + 1) = Suc (unat c)"
      using Suc.prems(3) by (simp add: unat_word_ariths)
    from Suc.IH [OF r1(2), of "c + 1" "b[unat c := x]"] c1 Suc.prems obtain r2 where
      "ring_read_reverse_loop n r1 (b[unat c := x]) (c + 1) =
         Some (c + 1 + of_nat (min n (length xs)), r2,
               blit (b[unat c := x]) (Suc (unat c)) (take n (rev xs)))"
      "ring_wf r2" "capacity r2 = capacity r1" "ring_list r2 = rev (drop n (rev xs))"
      using r1(4) by auto
    with r1 False Suc.prems(2) show ?thesis
      by (simp add: xs blit_Cons algebra_simps del: length_ring_list)
  qed
qed simp

lemma ring_write_reverse_ok:
  assumes "ring_wf r" and "unat count \<le> length b"
  shows "\<exists>r'. ring_write_reverse r b count =
      Some (of_nat (min (unat count) (ring_cap r - length (ring_list r))), r') \<and>
    ring_wf r' \<and> capacity r' = capacity r \<and>
    ring_list r' =
      rev (take (min (unat count) (ring_cap r - length (ring_list r))) b) @ ring_list r"
proof (cases "count = 0")
  case True
  with assms show ?thesis by (simp add: ring_write_reverse_def)
next
  case False
  then show ?thesis
    using ring_write_reverse_loop_ok [OF assms(1), of 0 "unat count" b] assms(2)
    by (simp add: ring_write_reverse_def seg_def)
qed

lemma ring_read_reverse_ok:
  assumes "ring_wf r" and "unat count \<le> length b"
  shows "\<exists>r'. ring_read_reverse r b count =
      Some (of_nat (min (unat count) (length (ring_list r))), r',
            blit b 0 (take (unat count) (rev (ring_list r)))) \<and>
    ring_wf r' \<and> capacity r' = capacity r \<and>
    ring_list r' = rev (drop (unat count) (rev (ring_list r)))"
proof (cases "count = 0")
  case True
  with assms show ?thesis by (simp add: ring_read_reverse_def)
next
  case False
  then show ?thesis
    using ring_read_reverse_loop_ok [OF assms(1), of 0 "unat count" b] assms(2)
    by (simp add: ring_read_reverse_def del: length_ring_list)
qed

lemma advance_tail_ok:
  assumes "ring_wf r" and "\<not> ring_isempty r"
  shows "ring_wf (r\<lparr>tail := tail r + 1\<rparr>)" and "ring_list (r\<lparr>tail := tail r + 1\<rparr>) = tl (ring_list r)"
  using slot_read_tail_ok [OF assms] by (auto simp: slot_read_tail_def split: Option.bind_splits)

lemma retreat_head_ok:
  assumes "ring_wf r" and "\<not> ring_isempty r"
  shows "ring_wf (r\<lparr>head := head r - 1\<rparr>)"
    and "ring_list (r\<lparr>head := head r - 1\<rparr>) = butlast (ring_list r)"
  using slot_read_head_ok [OF assms]
  by (auto simp: slot_read_head_def Let_def split: Option.bind_splits)

lemma ring_skip_loop_ok:
  assumes "ring_wf r"
  shows "\<exists>r'. ring_skip_loop n r c = (c + of_nat (min n (length (ring_list r))), r') \<and>
    ring_wf r' \<and> capacity r' = capacity r \<and> ring_list r' = drop n (ring_list r)"
  using assms
proof (induction n arbitrary: r c)
  case (Suc n)
  show ?case
  proof (cases "ring_isempty r")
    case True
    then have "ring_list r = []" by (simp add: ring_isempty_iff)
    with True Suc.prems show ?thesis by (simp del: length_ring_list)
  next
    case False
    then obtain x xs where xs: "ring_list r = x # xs"
      by (cases "ring_list r") (auto simp: ring_isempty_iff)
    let ?r = "r\<lparr>tail := tail r + 1\<rparr>"
    have r1: "ring_wf ?r" "ring_list ?r = xs"
      using advance_tail_ok [OF Suc.prems False] xs by auto
    from Suc.IH [OF r1(1), of "c + 1"] False xs r1(2) show ?thesis
      by (auto simp: algebra_simps simp del: length_ring_list)
  qed
qed simp

lemma ring_skip_reverse_loop_ok:
  assumes "ring_wf r"
  shows "\<exists>r'. ring_skip_reverse_loop n r c = (c + of_nat (min n (length (ring_list r))), r') \<and>
    ring_wf r' \<and> capacity r' = capacity r \<and> ring_list r' = rev (drop n (rev (ring_list r)))"
  using assms
proof (induction n arbitrary: r c)
  case (Suc n)
  show ?case
  proof (cases "ring_isempty r")
    case True
    then have "ring_list r = []" by (simp add: ring_isempty_iff)
    with True Suc.prems show ?thesis by (simp del: length_ring_list)
  next
    case False
    then obtain x xs where xs: "ring_list r = xs @ [x]"
      by (cases "ring_list r" rule: rev_cases) (auto simp: ring_isempty_iff)
    let ?r = "r\<lparr>head := head r - 1\<rparr>"
    have r1: "ring_wf ?r" "ring_list ?r = xs"
      using retreat_head_ok [OF Suc.prems False] xs by auto
    from Suc.IH [OF r1(1), of "c + 1"] False xs r1(2) show ?thesis
      by (auto simp: algebra_simps simp del: length_ring_list)
  qed
qed simp

lemma ring_skip_ok:
  "ring_wf r \<Longrightarrow> \<exists>r'. ring_skip r count = (of_nat (min (unat count) (length (ring_list r))), r') \<and>
    ring_wf r' \<and> capacity r' = capacity r \<and> ring_list r' = drop (unat count) (ring_list r)"
  using ring_skip_loop_ok [of r "unat count" 0] by (simp add: ring_skip_def)

lemma ring_skip_reverse_ok:
  "ring_wf r \<Longrightarrow>
   \<exists>r'. ring_skip_reverse r count = (of_nat (min (unat count) (length (ring_list r))), r') \<and>
    ring_wf r' \<and> capacity r' = capacity r \<and>
    ring_list r' = rev (drop (unat count) (rev (ring_list r)))"
  using ring_skip_reverse_loop_ok [of r "unat count" 0] by (simp add: ring_skip_reverse_def)

section \<open>Overwriting\<close>

text \<open>The newest \<open>n\<close> elements of a list.\<close>

definition newest :: "nat \<Rightarrow> 'a list \<Rightarrow> 'a list" where
  "newest n xs = drop (length xs - n) xs"

lemma newest_append: "newest n (newest n xs @ ys) = newest n (xs @ ys)"
proof (cases "length xs \<le> n")
  case False
  then have "drop (length xs - n) (xs @ ys) = drop (length xs - n) xs @ ys" by simp
  then show ?thesis
    using False by (simp add: newest_def drop_drop [symmetric] del: drop_drop drop_append)
      (simp add: drop_drop add.commute)
qed (simp add: newest_def)

lemma ring_overwrite_step:
  assumes wf: "ring_wf r" and room: "length (ring_list r) < ring_cap r"
  shows "\<exists>r1. slot_write_head r x = Some r1 \<and>
    (let r2 = (if ring_isfull r1 then r1\<lparr>tail := tail r1 + 1\<rparr> else r1) in
     ring_wf r2 \<and> capacity r2 = capacity r \<and> length (ring_list r2) < ring_cap r \<and>
     ring_list r2 = newest (ring_cap r - 1) (ring_list r @ [x]))"
proof -
  have "\<not> ring_isfull r" using room by (simp add: ring_isfull_iff)
  from slot_write_head_ok [OF wf this] obtain r1 where
    r1: "slot_write_head r x = Some r1" "ring_wf r1" "capacity r1 = capacity r"
      "ring_list r1 = ring_list r @ [x]" by blast
  have len1: "length (ring_list r1) = Suc (length (ring_list r))"
    by (simp only: r1(4) length_append_singleton)
  show ?thesis
  proof (cases "ring_isfull r1")
    case True
    then have full: "Suc (length (ring_list r)) = ring_cap r"
      using len1 r1(3) by (simp only: ring_isfull_iff)
    have ne: "\<not> ring_isempty r1" using r1(4) by (simp add: ring_isempty_iff)
    have "newest (ring_cap r - 1) (ring_list r @ [x]) = tl (ring_list r1)"
      unfolding r1(4) newest_def full [symmetric]
      by (cases "ring_list r") (simp_all del: length_ring_list)
    moreover have "length (tl (ring_list r1)) < ring_cap r"
      using full len1 by (simp del: length_ring_list)
    ultimately show ?thesis
      using True r1 advance_tail_ok [OF r1(2) ne] by (simp add: Let_def del: length_ring_list)
  next
    case False
    then have "Suc (length (ring_list r)) < ring_cap r"
      using room len1 r1(3) by (simp add: ring_isfull_iff del: length_ring_list)
    with False r1 len1 show ?thesis
      by (simp add: Let_def newest_def del: length_ring_list)
  qed
qed

lemma ring_overwrite_loop_ok:
  assumes "ring_wf r" and "length (ring_list r) < ring_cap r"
    and "unat c + n \<le> length b" and "unat c + n < 4294967296"
  shows "\<exists>r'. ring_overwrite_loop n r b c = Some (c + of_nat n, r') \<and> ring_wf r' \<and>
    capacity r' = capacity r \<and> length (ring_list r') < ring_cap r \<and>
    ring_list r' = newest (ring_cap r - 1) (ring_list r @ seg b (unat c) n)"
  using assms
proof (induction n arbitrary: r c)
  case 0
  then show ?case by (simp add: newest_def)
next
  case (Suc n)
  from ring_overwrite_step [OF Suc.prems(1,2), of "b ! unat c"] obtain r1 where
    w: "slot_write_head r (b ! unat c) = Some r1" and
    "let r2 = (if ring_isfull r1 then r1\<lparr>tail := tail r1 + 1\<rparr> else r1) in
     ring_wf r2 \<and> capacity r2 = capacity r \<and> length (ring_list r2) < ring_cap r \<and>
     ring_list r2 = newest (ring_cap r - 1) (ring_list r @ [b ! unat c])" by blast
  then obtain r2 where r2: "r2 = (if ring_isfull r1 then r1\<lparr>tail := tail r1 + 1\<rparr> else r1)"
     "ring_wf r2" "capacity r2 = capacity r" "length (ring_list r2) < ring_cap r2"
     "ring_list r2 = newest (ring_cap r - 1) (ring_list r @ [b ! unat c])"
    by (simp add: Let_def)
  have c1: "unat (c + 1) = Suc (unat c)"
    using Suc.prems(4) by (simp add: unat_word_ariths)
  from Suc.IH [OF r2(2,4), of "c + 1"] c1 Suc.prems(3,4) obtain r' where r':
    "ring_overwrite_loop n r2 b (c + 1) = Some (c + 1 + of_nat n, r')" "ring_wf r'"
    "capacity r' = capacity r2" "length (ring_list r') < ring_cap r2"
    "ring_list r' = newest (ring_cap r2 - 1) (ring_list r2 @ seg b (Suc (unat c)) n)"
    by (auto simp del: length_ring_list)
  have "ring_list r' = newest (ring_cap r - 1) (ring_list r @ seg b (unat c) (Suc n))"
    using Suc.prems(3) r'(5) r2(3,5) by (simp add: newest_append seg_Suc)
  moreover have "ring_overwrite_loop (Suc n) r b c = ring_overwrite_loop n r2 b (c + 1)"
    using w Suc.prems(3) r2(1) by simp
  ultimately show ?case
    using r' r2(3) by (simp add: algebra_simps del: ring_overwrite_loop.simps length_ring_list)
qed

section \<open>Moving data from one ring to another\<close>

lemma ring_tail_self: "\<exists>t. r = r\<lparr>tail := t\<rparr>"
  by (rule exI [of _ "tail r"]) simp

lemma ring_read_loop_count:
  "ring_read_loop n r b c = Some (c', r', b') \<Longrightarrow>
   \<exists>m\<le>n. c' = c + of_nat m \<and> unat (ring_count r') + m = unat (ring_count r) \<and>
     (\<exists>t. r' = r\<lparr>tail := t\<rparr>)"
proof (induction n arbitrary: r b c)
  case (Suc n)
  show ?case
  proof (cases "ring_isempty r")
    case True
    with Suc.prems show ?thesis
      by (intro exI [of _ 0] conjI exI [of _ "tail r"]) auto
  next
    case False
    let ?r = "r\<lparr>tail := tail r + 1\<rparr>"
    from False Suc.prems obtain b1 where "ring_read_loop n ?r b1 (c + 1) = Some (c', r', b')"
      by (auto simp: slot_read_tail_def split: Option.bind_splits)
    from Suc.IH [OF this] obtain m where m: "m \<le> n" "c' = c + 1 + of_nat m"
      "unat (ring_count r') + m = unat (ring_count ?r)" "\<exists>t. r' = ?r\<lparr>tail := t\<rparr>" by blast
    have ne: "ring_count r \<noteq> 0"
      using False by (simp add: ring_isempty_def ring_count_def)
    have "ring_count ?r = ring_count r - 1" by (simp add: ring_count_def)
    then have "unat (ring_count ?r) + 1 = unat (ring_count r)"
      using ne unat_minus_one [OF ne] unat_gt_0 [of "ring_count r"] by simp
    with m show ?thesis by (intro exI [of _ "Suc m"]) (auto simp: algebra_simps)
  qed
qed (auto intro: ring_tail_self)

lemma ring_read_count:
  assumes "ring_read r b count = Some (n, r', b')"
  shows "unat (ring_count r') + unat n = unat (ring_count r)" and "\<exists>t. r' = r\<lparr>tail := t\<rparr>"
proof -
  have "unat (ring_count r') + unat n = unat (ring_count r) \<and> (\<exists>t. r' = r\<lparr>tail := t\<rparr>)"
  proof (cases "count = 0")
    case True
    with assms show ?thesis by (auto simp: ring_read_def intro: exI [of _ "tail r"])
  next
    case False
    with assms have "ring_read_loop (unat count) r b 0 = Some (n, r', b')"
      by (simp add: ring_read_def)
    from ring_read_loop_count [OF this] obtain m where m: "m \<le> unat count" "n = of_nat m"
      "unat (ring_count r') + m = unat (ring_count r)" "\<exists>t. r' = r\<lparr>tail := t\<rparr>" by auto
    have "m < 4294967296"
      using m(1) unat_less_u32 [of count] by linarith
    then have "unat n = m"
      unfolding m(2) by (rule unat_of_nat_u32)
    with m show ?thesis by simp
  qed
  then show "unat (ring_count r') + unat n = unat (ring_count r)" and "\<exists>t. r' = r\<lparr>tail := t\<rparr>"
    by auto
qed

lemma ring_read_shrinks:
  "ring_read r b count = Some (n, r', b') \<Longrightarrow> n \<noteq> 0 \<Longrightarrow>
   unat (ring_count r') < unat (ring_count r)"
  using ring_read_count(1) [of r b count n r' b'] unat_gt_0 [of n] by linarith

text \<open>
  The 512 byte bounce buffer is an uninitialised local array: the model starts it with zeros,
  which no byte of a result depends on.
\<close>

function ring_move_loop :: "ring \<Rightarrow> ring \<Rightarrow> u32 \<Rightarrow> (u32 \<times> ring \<times> ring) option" where
  "ring_move_loop dst src tot =
     (case ring_read src (replicate 512 0) 512 of
        None \<Rightarrow> None
      | Some (count, src', buffer) \<Rightarrow>
          if count \<noteq> 0 then
            (case ring_write dst buffer count of
               None \<Rightarrow> None
             | Some (n, dst') \<Rightarrow> ring_move_loop dst' src' (tot + n))
          else Some (tot, dst, src'))"
  by pat_completeness auto
termination
  by (relation "measure (\<lambda>(dst, src, tot). unat (ring_count src))")
     (auto intro: ring_read_shrinks)

declare ring_move_loop.simps [simp del]

definition ring_move :: "ring \<Rightarrow> ring \<Rightarrow> (u32 \<times> ring \<times> ring) option" where
  "ring_move dst src = ring_move_loop dst src 0"

function ring_overmove_loop :: "ring \<Rightarrow> ring \<Rightarrow> u32 \<Rightarrow> (u32 \<times> ring \<times> ring) option" where
  "ring_overmove_loop dst src tot =
     (case ring_read src (replicate 512 0) 512 of
        None \<Rightarrow> None
      | Some (count, src', buffer) \<Rightarrow>
          if count \<noteq> 0 then
            (case ring_overwrite dst buffer count of
               None \<Rightarrow> None
             | Some (n, dst') \<Rightarrow> ring_overmove_loop dst' src' (tot + n))
          else Some (tot, dst, src'))"
  by pat_completeness auto
termination
  by (relation "measure (\<lambda>(dst, src, tot). unat (ring_count src))")
     (auto intro: ring_read_shrinks)

declare ring_overmove_loop.simps [simp del]

definition ring_overmove :: "ring \<Rightarrow> ring \<Rightarrow> (u32 \<times> ring \<times> ring) option" where
  "ring_overmove dst src = ring_overmove_loop dst src 0"

definition ring_copy :: "ring \<Rightarrow> ring \<Rightarrow> (u32 \<times> ring \<times> ring) option" where
  "ring_copy dst src =
     do { (n, dst', src') \<leftarrow> ring_move dst src;
          Some (n, dst', src'\<lparr>head := head src, tail := tail src\<rparr>) }"

definition ring_overcopy :: "ring \<Rightarrow> ring \<Rightarrow> (u32 \<times> ring \<times> ring) option" where
  "ring_overcopy dst src =
     do { (n, dst', src') \<leftarrow> ring_overmove dst src;
          Some (n, dst', src'\<lparr>head := head src, tail := tail src\<rparr>) }"

lemma ring_read_chunk:
  assumes "ring_wf src"
  obtains src' where "ring_read src (replicate 512 0) 512 =
      Some (of_nat (min 512 (length (ring_list src))), src',
            blit (replicate 512 0) 0 (take 512 (ring_list src)))"
    and "ring_wf src'" and "ring_list src' = drop 512 (ring_list src)"
    and "\<exists>t. src' = src\<lparr>tail := t\<rparr>"
proof -
  from ring_read_ok [OF assms, of 512 "replicate 512 0"] obtain src' where
    r: "ring_read src (replicate 512 0) 512 =
      Some (of_nat (min 512 (length (ring_list src))), src',
            blit (replicate 512 0) 0 (take 512 (ring_list src)))"
      "ring_wf src'" "ring_list src' = drop 512 (ring_list src)"
    by (auto simp del: length_ring_list)
  with ring_read_count(2) [OF r(1)] that show thesis by blast
qed

lemma min_split_sum:
  "min a (k :: nat) + min b (k - min a k) = min (a + b) k"
  by auto

lemma take_chunks:
  "take (min (min c (length xs)) k) xs @ take (k - min (min c (length xs)) k) (drop c xs) = take k xs"
proof (cases "length xs \<le> c")
  case True
  then show ?thesis by (simp add: min_def)
next
  case False
  then show ?thesis
    by (cases "k \<le> c") (simp_all add: min_def flip: take_add)
qed

lemma ring_move_loop_ok:
  assumes "ring_wf dst" and "ring_wf src"
  shows "\<exists>dst' src'. ring_move_loop dst src tot =
      Some (tot + of_nat (min (length (ring_list src)) (ring_cap dst - length (ring_list dst))),
            dst', src') \<and>
    ring_wf dst' \<and> ring_wf src' \<and> capacity dst' = capacity dst \<and> ring_list src' = [] \<and>
    (\<exists>t. src' = src\<lparr>tail := t\<rparr>) \<and>
    ring_list dst' = ring_list dst @ take (ring_cap dst - length (ring_list dst)) (ring_list src)"
  using assms
proof (induction "length (ring_list src)" arbitrary: dst src tot rule: less_induct)
  case less
  from less.prems(2) obtain src1 where src1: "ring_read src (replicate 512 0) 512 =
      Some (of_nat (min 512 (length (ring_list src))), src1,
            blit (replicate 512 0) 0 (take 512 (ring_list src)))"
      "ring_wf src1" "ring_list src1 = drop 512 (ring_list src)" "\<exists>t. src1 = src\<lparr>tail := t\<rparr>"
    by (rule ring_read_chunk)
  define cnt where "cnt = (of_nat (min 512 (length (ring_list src))) :: u32)"
  define b where "b = blit (replicate 512 0) 0 (take 512 (ring_list src))"
  have n: "unat cnt = min 512 (length (ring_list src))"
    unfolding cnt_def by (rule unat_of_nat_u32) simp
  have read: "ring_read src (replicate 512 0) 512 = Some (cnt, src1, b)"
    by (simp only: src1(1) cnt_def b_def)
  show ?case
  proof (cases "ring_list src = []")
    case True
    then have "cnt = 0" by (simp add: cnt_def del: length_ring_list)
    with True read show ?thesis
      using src1(2-4) less.prems by (simp add: ring_move_loop.simps [of dst src tot] del: length_ring_list)
  next
    case False
    then have "unat cnt \<noteq> 0"
      unfolding n by (simp del: length_ring_list)
    then have nz: "cnt \<noteq> 0" by (metis unat_0)
    have len_b: "unat cnt \<le> length b"
      by (simp add: n b_def del: length_ring_list)
    have take_b: "take k b = take k (ring_list src)" if "k \<le> unat cnt" for k
      using that unfolding n b_def
      by (simp add: blit_def min_def del: length_ring_list split: if_splits)
    let ?room = "ring_cap dst - length (ring_list dst)"
    from ring_write_ok [OF less.prems(1) len_b] obtain dst1 where dst1:
      "ring_write dst b cnt = Some (of_nat (min (unat cnt) ?room), dst1)"
      "ring_wf dst1" "capacity dst1 = capacity dst"
      "ring_list dst1 = ring_list dst @ take (min (unat cnt) ?room) (ring_list src)"
      using take_b by (auto simp del: length_ring_list)
    have shorter: "length (ring_list src1) < length (ring_list src)"
      using False src1(3) by (simp del: length_ring_list)
    have len1: "length (ring_list dst1) = length (ring_list dst) + min (unat cnt) ?room"
      unfolding dst1(4) using n by (simp del: length_ring_list)
    have room1: "ring_cap dst1 - length (ring_list dst1) = ?room - min (unat cnt) ?room"
      unfolding len1 dst1(3) by simp
    have lens: "unat cnt + length (ring_list src1) = length (ring_list src)"
      unfolding n src1(3) by (simp del: length_ring_list)
    from less.hyps [OF shorter dst1(2) src1(2), of "tot + of_nat (min (unat cnt) ?room)"]
    obtain dst2 src2 where fin: "ring_move_loop dst1 src1 (tot + of_nat (min (unat cnt) ?room)) =
        Some (tot + of_nat (min (unat cnt) ?room) +
          of_nat (min (length (ring_list src1)) (?room - min (unat cnt) ?room)), dst2, src2)"
      "ring_wf dst2" "ring_wf src2" "capacity dst2 = capacity dst1" "ring_list src2 = []"
      "\<exists>t. src2 = src1\<lparr>tail := t\<rparr>"
      "ring_list dst2 = ring_list dst1 @ take (?room - min (unat cnt) ?room) (ring_list src1)"
      unfolding room1 by blast
    have sum: "min (unat cnt) ?room + min (length (ring_list src1)) (?room - min (unat cnt) ?room) =
        min (length (ring_list src)) ?room"
      unfolding lens [symmetric] by (rule min_split_sum)
    have list2: "ring_list dst2 = ring_list dst @ take ?room (ring_list src)"
      unfolding fin(7) dst1(4) src1(3) n append_assoc by (simp only: take_chunks)
    have tail2: "\<exists>t. src2 = src\<lparr>tail := t\<rparr>"
      using fin(6) src1(4) by auto
    have "ring_move_loop dst src tot =
        ring_move_loop dst1 src1 (tot + of_nat (min (unat cnt) ?room))"
      using read dst1(1) nz by (simp add: ring_move_loop.simps [of dst src tot])
    also have "\<dots> = Some (tot + of_nat (min (length (ring_list src)) ?room), dst2, src2)"
      unfolding fin(1) sum [symmetric] by (simp only: of_nat_add add.assoc)
    finally show ?thesis
      using fin(2-5) dst1(3) list2 tail2 by (intro exI [of _ dst2] exI [of _ src2]) simp
  qed
qed

section \<open>Searching\<close>

lemma cursor_at:
  assumes "i < length (ring_list r)"
  shows "tail r + of_nat i \<noteq> head r"
proof
  assume "tail r + of_nat i = head r"
  then have "ring_count r = of_nat i" by (simp add: ring_count_def flip: \<open>tail r + of_nat i = head r\<close>)
  moreover have "i < 4294967296" using assms unat_less_u32 [of "ring_count r"] unfolding length_ring_list by linarith
  ultimately show False using assms by (simp add: unat_of_nat_u32)
qed

lemma cursor_end: "tail r + of_nat (length (ring_list r)) = head r"
  by (simp add: ring_count_def)

lemma ring_find_loop_ok:
  assumes wf: "ring_wf r" and "i \<le> length (ring_list r)"
  shows "ring_find_loop r v (tail r + of_nat i) (of_nat i) =
    Some (of_nat (i + length (takeWhile (\<lambda>x. x \<noteq> v) (drop i (ring_list r)))))"
  using assms(2)
proof (induction rule: inc_induct)
  case base
  then show ?case
    by (simp add: ring_find_loop.simps [of r v "head r"] cursor_end del: length_ring_list)
next
  case (step i)
  have slot: "rd (rbuf r) (unat (ring_mask r (tail r + of_nat i))) = Some (ring_list r ! i)"
    using step.hyps(2) slot_in_range [OF wf] by (simp add: ring_list_def)
  have "drop i (ring_list r) = ring_list r ! i # drop (Suc i) (ring_list r)"
    using step.hyps(2) by (simp add: Cons_nth_drop_Suc)
  then show ?case
    using step.IH cursor_at [OF step.hyps(2)] slot
    by (simp add: ring_find_loop.simps [of r v "tail r + of_nat i"] algebra_simps)
qed

lemma ring_find_ok:
  "ring_wf r \<Longrightarrow> ring_find r v = Some (of_nat (length (takeWhile (\<lambda>x. x \<noteq> v) (ring_list r))))"
  using ring_find_loop_ok [of r 0 v] by (simp add: ring_find_def)

lemma ring_each_loop_ok:
  assumes wf: "ring_wf r" and "i \<le> length (ring_list r)"
  shows "ring_each_loop r v (tail r + of_nat i) (of_nat i) =
    Some (if v \<in> set (drop i (ring_list r))
          then of_nat (Suc (i + length (takeWhile (\<lambda>x. x \<noteq> v) (drop i (ring_list r))))) else 0)"
  using assms(2)
proof (induction rule: inc_induct)
  case base
  then show ?case
    by (simp add: ring_each_loop.simps [of r v "head r"] cursor_end del: length_ring_list)
next
  case (step i)
  have slot: "rd (rbuf r) (unat (ring_mask r (tail r + of_nat i))) = Some (ring_list r ! i)"
    using step.hyps(2) slot_in_range [OF wf] by (simp add: ring_list_def)
  have "drop i (ring_list r) = ring_list r ! i # drop (Suc i) (ring_list r)"
    using step.hyps(2) by (simp add: Cons_nth_drop_Suc)
  then show ?case
    using step.IH cursor_at [OF step.hyps(2)] slot
    by (auto simp: ring_each_loop.simps [of r v "tail r + of_nat i"] algebra_simps)
qed

lemma ring_each_ok:
  "ring_wf r \<Longrightarrow> ring_each r v =
     Some (if v \<in> set (ring_list r)
           then of_nat (Suc (length (takeWhile (\<lambda>x. x \<noteq> v) (ring_list r)))) else 0)"
  using ring_each_loop_ok [of r 0 v] by (simp add: ring_each_def)

section \<open>The ring is a byte queue\<close>

interpretation ring: byte_queue ring_wf ring_list "\<lambda>r. ring_cap r - length (ring_list r)"
  ring_write ring_read
proof
  fix r :: ring and n :: u32 and bs :: "u8 list"
  assume "ring_wf r" and "unat n \<le> length bs"
  from ring_write_ok [OF this]
  show "\<exists>r'. ring_write r bs n =
      Some (of_nat (min (unat n) (ring_cap r - length (ring_list r))), r') \<and> ring_wf r' \<and>
    ring_list r' = ring_list r @ take (min (unat n) (ring_cap r - length (ring_list r))) bs"
    by blast
next
  fix r :: ring and n :: u32 and out :: "u8 list"
  assume "ring_wf r" and "unat n \<le> length out"
  from ring_read_ok [OF this]
  show "\<exists>r'. ring_read r out n = Some (of_nat (min (unat n) (length (ring_list r))), r',
      blit out 0 (take (unat n) (ring_list r))) \<and> ring_wf r' \<and>
    ring_list r' = drop (unat n) (ring_list r)"
    by blast
qed

section \<open>Properties\<close>

lemma ring_init_wf: "k < 32 \<Longrightarrow> 2 ^ k \<le> length buf \<Longrightarrow> ring_wf (ring_init (2 ^ k) buf)"
  by (auto simp: ring_wf_def ring_init_def ring_count_def unat_power_u32)

lemma ring4_wf: "ring_wf (ring_init 4 [0, 0, 0, 0])"
  using ring_init_wf [of 2 "[0, 0, 0, 0]"] by simp

lemma ring2_full:
  "ring_wf \<lparr>rbuf = [1, 2], capacity = 2, head = 2, tail = 0\<rparr>"
  "ring_isfull \<lparr>rbuf = [1, 2], capacity = 2, head = 2, tail = 0\<rparr>"
  "ring_list \<lparr>rbuf = [1, 2], capacity = 2, head = 2, tail = 0\<rparr> = [1, 2]"
  by (auto simp: ring_wf_def ring_isfull_def ring_list_def ring_count_def ring_mask_def
      upt_conv_Cons intro: exI [of _ 1])

lemma ring_init_list [simp]: "ring_list (ring_init cap buf) = []"
  by (simp add: ring_list_def ring_init_def ring_count_def)

text \<open>
  C10: the bytes that come out of a ring are exactly the bytes that went in, in order and without
  loss or duplication, for every interleaving of \<^verbatim>\<open>ring_write\<close> and \<^verbatim>\<open>ring_read\<close> calls on a
  well-formed ring, also across the wrap-around of the 32 bit head and tail counters; no call
  touches memory outside of its buffers and the ring stays well formed.
\<close>

theorem ring_stream_integrity:
  assumes "ring_wf r" and "list_all call_fits cs"
  shows "\<exists>acc got r'. queue_run ring_write ring_read r cs = Some (acc, got, r') \<and> ring_wf r' \<and>
    ring_list r @ acc = got @ ring_list r'"
  using assms by (rule ring.stream_integrity)

theorem ring_stream_integrity_witness:
  "\<exists>acc got r'. queue_run ring_write ring_read
      (ring_init 4 [0, 0, 0, 0]) [Put [1, 2, 3], Get 2, Put [4, 5, 6, 7], Get 8] =
      Some (acc, got, r') \<and> ring_wf r' \<and> acc = got @ ring_list r'"
  using ring_stream_integrity [OF ring4_wf, of "[Put [1, 2, 3], Get 2, Put [4, 5, 6, 7], Get 8]"]
  by simp

text \<open>
  C6: the four block routines of a well-formed ring are the operations of a bounded double-ended
  queue on the bytes between tail and head. A write takes the bytes that fit, at the head end in
  order or at the tail end reversed; a read hands out at most the bytes present, from the tail end
  or from the head end; each returns the number of bytes it moved and never touches memory
  outside of the given buffers.
\<close>

theorem ring_refines_deque:
  assumes "ring_wf r" and "unat n \<le> length b"
  defines "w \<equiv> min (unat n) (ring_cap r - length (ring_list r))"
    and "m \<equiv> min (unat n) (length (ring_list r))"
  shows "(\<exists>r'. ring_write r b n = Some (of_nat w, r') \<and> ring_wf r' \<and>
      ring_list r' = ring_list r @ take w b) \<and>
    (\<exists>r'. ring_write_reverse r b n = Some (of_nat w, r') \<and> ring_wf r' \<and>
      ring_list r' = rev (take w b) @ ring_list r) \<and>
    (\<exists>r'. ring_read r b n = Some (of_nat m, r', blit b 0 (take (unat n) (ring_list r))) \<and>
      ring_wf r' \<and> ring_list r' = drop (unat n) (ring_list r)) \<and>
    (\<exists>r'. ring_read_reverse r b n =
        Some (of_nat m, r', blit b 0 (take (unat n) (rev (ring_list r)))) \<and>
      ring_wf r' \<and> ring_list r' = rev (drop (unat n) (rev (ring_list r))))"
  unfolding w_def m_def
  using ring_write_ok [OF assms(1,2)] ring_write_reverse_ok [OF assms(1,2)]
    ring_read_ok [OF assms(1,2)] ring_read_reverse_ok [OF assms(1,2)]
  by blast

theorem ring_refines_deque_witness:
  "\<exists>r'. ring_write (ring_init 4 [0, 0, 0, 0]) [7, 8, 9, 10, 11] 5 = Some (4, r') \<and> ring_wf r' \<and>
     ring_list r' = [7, 8, 9, 10]"
  using ring_refines_deque [OF ring4_wf, of 5 "[7, 8, 9, 10, 11]"]
  by (simp add: ring_init_def ring_list_def ring_count_def)

text \<open>
  C31: \<^verbatim>\<open>ring_overwrite\<close> on a well-formed ring that is not full always takes the whole block and
  leaves the newest \<^verbatim>\<open>capacity - 1\<close> bytes of the old contents followed by the block, dropping the
  oldest ones.
\<close>

theorem ring_overwrite_keeps_newest:
  assumes "ring_wf r" and "\<not> ring_isfull r" and "unat count \<le> length b"
  shows "\<exists>r'. ring_overwrite r b count = Some (count, r') \<and> ring_wf r' \<and> \<not> ring_isfull r' \<and>
    ring_list r' = newest (ring_cap r - 1) (ring_list r @ take (unat count) b)"
proof -
  have room: "length (ring_list r) < ring_cap r"
    using assms ring_used_le [OF assms(1)] by (simp add: ring_isfull_def word_unat_eq_iff)
  show ?thesis
  proof (cases "count = 0")
    case True
    then show ?thesis
      using assms room by (simp add: ring_overwrite_def newest_def)
  next
    case False
    then have "ring_overwrite r b count = ring_overwrite_loop (unat count) r b 0"
      by (simp add: ring_overwrite_def)
    with ring_overwrite_loop_ok [OF assms(1) room, of 0 "unat count" b] assms(3) show ?thesis
      by (auto simp: ring_isfull_iff seg_def)
  qed
qed

theorem ring_overwrite_keeps_newest_witness:
  "\<exists>r'. ring_overwrite (ring_init 4 [0, 0, 0, 0]) [7, 8, 9, 10, 11] 5 = Some (5, r') \<and> ring_wf r' \<and>
     ring_list r' = [9, 10, 11]"
proof -
  have "\<not> ring_isfull (ring_init 4 [0, 0, 0, 0])"
    by (simp add: ring_init_def ring_isfull_def ring_count_def)
  from ring_overwrite_keeps_newest [OF ring4_wf this, of 5 "[7, 8, 9, 10, 11]"] show ?thesis
    by (auto simp: newest_def ring_init_def [of 4 "[0, 0, 0, 0]"])
qed

text \<open>
  C32: on a full ring the \<^verbatim>\<open>ring_isfull\<close> test that follows the store of \<^verbatim>\<open>ring_overwrite\<close> compares
  for equality and is already passed: one byte overwritten into a full ring leaves a count of
  \<^verbatim>\<open>capacity + 1\<close>, which is outside of the invariant, and the space reported by \<^verbatim>\<open>ring_avail\<close>
  wraps around to the largest 32 bit number.
\<close>

theorem ring_overwrite_full_overflows:
  assumes "ring_wf r" and "ring_isfull r" and "b \<noteq> []"
  shows "\<exists>r'. ring_overwrite r b 1 = Some (1, r') \<and> ring_count r' = capacity r + 1 \<and>
    ring_avail r' = 0xFFFFFFFF \<and> \<not> ring_wf r'"
proof -
  define r' where "r' = r\<lparr>rbuf := (rbuf r)[unat (ring_mask r (head r)) := hd b], head := head r + 1\<rparr>"
  have count: "ring_count r' = capacity r + 1"
    using assms(2) by (simp add: r'_def ring_isfull_def ring_count_def algebra_simps)
  have cap: "capacity r' = capacity r" by (simp add: r'_def)
  have "rd b 0 = Some (hd b)"
    using assms(3) by (simp add: rd_def hd_conv_nth)
  moreover have "slot_write_head r (hd b) = Some r'"
    using slot_in_range [OF assms(1)] by (simp add: slot_write_head_def r'_def)
  moreover have "\<not> ring_isfull r'"
    using count cap by (simp add: ring_isfull_def)
  ultimately have "ring_overwrite r b 1 = Some (1, r')"
    by (simp add: ring_overwrite_def)
  moreover have "unat (capacity r + 1) = ring_cap r + 1"
    using ring_cap_bound [OF assms(1)] by (simp add: unat_word_ariths)
  ultimately show ?thesis
    using count cap by (intro exI [of _ r']) (auto simp: ring_avail_def ring_wf_def word_le_nat_alt)
qed

theorem ring_overwrite_full_overflows_witness:
  "\<exists>r'. ring_overwrite \<lparr>rbuf = [1, 2], capacity = 2, head = 2, tail = 0\<rparr> [3] 1 = Some (1, r') \<and>
     ring_count r' = 3"
  using ring_overwrite_full_overflows [OF ring2_full(1,2), of "[3]"] by auto

text \<open>
  C33: \<^verbatim>\<open>ring_move\<close> ends for all well-formed rings, empties the source and appends to the
  destination exactly the prefix of the source's bytes that fits, returning its length;
  \<^verbatim>\<open>ring_copy\<close> does the same to the destination and leaves the source ring as it was.
\<close>

theorem ring_move_transfers:
  assumes "ring_wf dst" and "ring_wf src"
  defines "room \<equiv> ring_cap dst - length (ring_list dst)"
  shows "\<exists>n dst' src'. ring_move dst src = Some (n, dst', src') \<and>
    ring_copy dst src = Some (n, dst', src) \<and> ring_wf dst' \<and> ring_wf src' \<and>
    unat n = min (length (ring_list src)) room \<and> ring_list src' = [] \<and>
    ring_list dst' = ring_list dst @ take room (ring_list src)"
proof -
  from ring_move_loop_ok [OF assms(1,2), of 0] obtain dst' src' t where fin:
    "ring_move dst src = Some (of_nat (min (length (ring_list src)) room), dst', src')"
    "ring_wf dst'" "ring_wf src'" "ring_list src' = []" "src' = src\<lparr>tail := t\<rparr>"
    "ring_list dst' = ring_list dst @ take room (ring_list src)"
    unfolding room_def ring_move_def by auto
  have "ring_copy dst src = Some (of_nat (min (length (ring_list src)) room), dst', src)"
    using fin(1,5) by (simp add: ring_copy_def)
  moreover have "unat (of_nat (min (length (ring_list src)) room) :: u32) =
      min (length (ring_list src)) room"
    by (rule unat_of_nat_u32) (use unat_less_u32 [of "ring_count src"] in \<open>simp only: length_ring_list; linarith\<close>)
  ultimately show ?thesis using fin by blast
qed

theorem ring_move_transfers_witness:
  "\<exists>n dst' src'. ring_move (ring_init 4 [0, 0, 0, 0])
       \<lparr>rbuf = [1, 2], capacity = 2, head = 2, tail = 0\<rparr> = Some (n, dst', src') \<and>
     n = 2 \<and> ring_list dst' = [1, 2] \<and> ring_list src' = []"
proof -
  from ring_move_transfers [OF ring4_wf ring2_full(1)] obtain n dst' src' where
    "ring_move (ring_init 4 [0, 0, 0, 0])
       \<lparr>rbuf = [1, 2], capacity = 2, head = 2, tail = 0\<rparr> = Some (n, dst', src')"
    "unat n = 2" "ring_list dst' = [1, 2]" "ring_list src' = []"
    by (auto simp: ring2_full(3) ring_init_def [of 4] ring_list_def [of "\<lparr>rbuf = [0, 0, 0, 0], capacity = 4, head = 0, tail = 0\<rparr>"] ring_count_def)
  moreover then have "n = 2" by (metis unat_eq_of_nat of_nat_numeral)
  ultimately show ?thesis by blast
qed

end
