(* ===== verification/Libz_Spinlock.thy ===== *)
theory Libz_Spinlock
  imports C_Base
begin

text \<open>
  \<^verbatim>\<open>libz/fudge/spinlock.c\<close> over the atomic exchange of \<^verbatim>\<open>libz/fudge/x86/atomic.s\<close>, and the
  contract of a lock-protected object. The routines are given twice: as functions of the lock
  word, for sequential callers, and as the steps of a system of threads in which every thread
  takes the lock, executes the statements of a critical section one at a time, and releases it.
  The steps of different threads interleave arbitrarily. The clients' lemmas (at most one thread
  is inside, and the object is always the result of whole critical sections executed in the
  order in which the lock was taken) are proved once from the contract.
\<close>

section \<open>The lock word\<close>

record spinlock =
  lock :: u32

text \<open>\<^verbatim>\<open>lock xchgl\<close>: the new value goes into the lock word and the old one is returned.\<close>

definition atomic_testandset :: "u32 \<Rightarrow> spinlock \<Rightarrow> u32 \<times> spinlock" where
  "atomic_testandset v sp = (lock sp, sp\<lparr>lock := v\<rparr>)"

text \<open>On the ARM and RISC-V ports the routine is a stub: it returns 0 and stores nothing.\<close>

definition atomic_testandset_stub :: "u32 \<Rightarrow> spinlock \<Rightarrow> u32 \<times> spinlock" where
  "atomic_testandset_stub v sp = (0, sp)"

text \<open>The \<^verbatim>\<open>while\<close> loop of \<^verbatim>\<open>spinlock_acquire\<close> may spin forever; then there is no result.\<close>

partial_function (option) spinlock_acquire :: "spinlock \<Rightarrow> spinlock option" where
  "spinlock_acquire sp =
     (case atomic_testandset 1 sp of
        (old, sp') \<Rightarrow> if old \<noteq> 0 then spinlock_acquire sp' else Some sp')"

definition spinlock_release :: "spinlock \<Rightarrow> spinlock" where
  "spinlock_release sp = snd (atomic_testandset 0 sp)"

definition spinlock_init :: "spinlock \<Rightarrow> spinlock" where
  "spinlock_init sp = sp\<lparr>lock := 0\<rparr>"

lemma spinlock_acquire_free: "lock sp = 0 \<Longrightarrow> spinlock_acquire sp = Some (sp\<lparr>lock := 1\<rparr>)"
  by (simp add: spinlock_acquire.simps [of sp] atomic_testandset_def)

lemma spinlock_acquire_result: "spinlock_acquire sp = Some sp' \<Longrightarrow> lock sp = 0 \<and> lock sp' = 1"
proof (rule spinlock_acquire.raw_induct [of "\<lambda>sp sp'. lock sp = 0 \<and> lock sp' = 1"])
  fix acquire and sp sp' :: spinlock
  assume IH: "\<And>sp sp'. acquire sp = Some sp' \<Longrightarrow> lock sp = 0 \<and> lock sp' = 1"
    and body: "(case atomic_testandset 1 sp of
      (old, sp') \<Rightarrow> if old \<noteq> 0 then acquire sp' else Some sp') = Some sp'"
  show "lock sp = 0 \<and> lock sp' = 1"
    using body IH [of "sp\<lparr>lock := 1\<rparr>" sp']
    by (auto simp: atomic_testandset_def split: if_splits)
qed

lemma spinlock_acquire_held: "lock sp \<noteq> 0 \<Longrightarrow> spinlock_acquire sp = None"
  using spinlock_acquire_result [of sp] by (cases "spinlock_acquire sp") auto

lemma lock_spinlock_release [simp]: "lock (spinlock_release sp) = 0"
  by (simp add: spinlock_release_def atomic_testandset_def)

section \<open>Threads around a lock\<close>

text \<open>
  A statement of a critical section either succeeds with a new state of the shared object or
  faults. A thread is outside, spinning in the loop of \<^verbatim>\<open>spinlock_acquire\<close>, or inside with the
  statements it has still to execute. The component \<open>entered\<close> of a configuration records the
  critical sections in the order in which the lock was taken.
\<close>

type_synonym 's stmt = "'s \<Rightarrow> 's option"

primrec run_stmts :: "'s stmt list \<Rightarrow> 's \<Rightarrow> 's option" where
  "run_stmts [] s = Some s"
| "run_stmts (c # cs) s = do { s' \<leftarrow> c s; run_stmts cs s' }"

lemma run_stmts_append: "run_stmts (xs @ ys) s = do { s' \<leftarrow> run_stmts xs s; run_stmts ys s' }"
  by (induction xs arbitrary: s) (auto split: Option.bind_splits)

datatype 's pc = Outside | Spinning "'s stmt list" | Inside "'s stmt list"

record 's config =
  shared :: 's
  pcs :: "nat \<Rightarrow> 's pc"
  entered :: "'s stmt list list"

text \<open>
  One iteration of the \<^verbatim>\<open>while\<close> loop is one exchange; leaving is the exchange of
  \<^verbatim>\<open>spinlock_release\<close>. The exchange on the lock word of the object is the argument \<open>tas\<close>, the
  critical sections the threads may run are the argument \<open>bodies\<close>.
\<close>

inductive lock_step ::
  "(u32 \<Rightarrow> 's \<Rightarrow> (u32 \<times> 's) option) \<Rightarrow> 's stmt list set \<Rightarrow> 's config \<Rightarrow> 's config \<Rightarrow> bool"
  for tas bodies where
  call: "pcs c t = Outside \<Longrightarrow> body \<in> bodies \<Longrightarrow>
    lock_step tas bodies c (c\<lparr>pcs := (pcs c)(t := Spinning body)\<rparr>)"
| spin: "pcs c t = Spinning body \<Longrightarrow> tas 1 (shared c) = Some (old, s') \<Longrightarrow> old \<noteq> 0 \<Longrightarrow>
    lock_step tas bodies c (c\<lparr>shared := s'\<rparr>)"
| enter: "pcs c t = Spinning body \<Longrightarrow> tas 1 (shared c) = Some (old, s') \<Longrightarrow> old = 0 \<Longrightarrow>
    lock_step tas bodies c
      (c\<lparr>shared := s', pcs := (pcs c)(t := Inside body), entered := entered c @ [body]\<rparr>)"
| exec: "pcs c t = Inside (st # sts) \<Longrightarrow> st (shared c) = Some s' \<Longrightarrow>
    lock_step tas bodies c (c\<lparr>shared := s', pcs := (pcs c)(t := Inside sts)\<rparr>)"
| leave: "pcs c t = Inside [] \<Longrightarrow> tas 0 (shared c) = Some (old, s') \<Longrightarrow>
    lock_step tas bodies c (c\<lparr>shared := s', pcs := (pcs c)(t := Outside)\<rparr>)"

definition lock_start :: "'s \<Rightarrow> 's config" where
  "lock_start s = \<lparr>shared = s, pcs = (\<lambda>t. Outside), entered = []\<rparr>"

inductive lock_reach ::
  "(u32 \<Rightarrow> 's \<Rightarrow> (u32 \<times> 's) option) \<Rightarrow> 's stmt list set \<Rightarrow> 's \<Rightarrow> 's config \<Rightarrow> bool"
  for tas bodies s0 where
  start: "lock_reach tas bodies s0 (lock_start s0)"
| more: "lock_reach tas bodies s0 c \<Longrightarrow> lock_step tas bodies c c' \<Longrightarrow> lock_reach tas bodies s0 c'"

fun inside :: "'s pc \<Rightarrow> bool" where
  "inside (Inside sts) = True"
| "inside _ = False"

lemma inside_iff: "inside p \<longleftrightarrow> (\<exists>sts. p = Inside sts)"
  by (cases p) auto

section \<open>The contract of a lock-protected object\<close>

text \<open>
  The object has a lock word that the exchange reads and writes, and the statements of its
  critical sections neither read nor write it.
\<close>

locale lock_protected =
  fixes tas :: "u32 \<Rightarrow> 's \<Rightarrow> (u32 \<times> 's) option"
    and valid :: "'s \<Rightarrow> bool" and lock_of :: "'s \<Rightarrow> u32" and set_lock :: "u32 \<Rightarrow> 's \<Rightarrow> 's"
    and bodies :: "'s stmt list set"
  assumes tas: "valid s \<Longrightarrow> tas v s = Some (lock_of s, set_lock v s)"
    and valid_set: "valid s \<Longrightarrow> valid (set_lock v s)"
    and lock_set: "valid s \<Longrightarrow> lock_of (set_lock v s) = v"
    and set_set: "set_lock v (set_lock w s) = set_lock v s"
    and set_same: "valid s \<Longrightarrow> set_lock (lock_of s) s = s"
    and stmt_valid: "body \<in> bodies \<Longrightarrow> st \<in> set body \<Longrightarrow> valid s \<Longrightarrow> st s = Some s' \<Longrightarrow>
      valid s' \<and> lock_of s' = lock_of s"
    and stmt_commutes: "body \<in> bodies \<Longrightarrow> st \<in> set body \<Longrightarrow> valid s \<Longrightarrow>
      st (set_lock v s) = map_option (set_lock v) (st s)"
begin

definition stmts :: "'s stmt set" where
  "stmts = \<Union> (set ` bodies)"

lemma run_stmts_valid:
  "set sts \<subseteq> stmts \<Longrightarrow> valid s \<Longrightarrow> run_stmts sts s = Some s' \<Longrightarrow>
   valid s' \<and> lock_of s' = lock_of s"
proof (induction sts arbitrary: s)
  case (Cons st sts)
  then obtain s1 where s1: "st s = Some s1" "run_stmts sts s1 = Some s'"
    by (auto split: Option.bind_splits)
  with Cons.prems have "valid s1 \<and> lock_of s1 = lock_of s"
    using stmt_valid by (fastforce simp: stmts_def)
  with Cons s1 show ?case by auto
qed simp

lemma run_stmts_commutes:
  "set sts \<subseteq> stmts \<Longrightarrow> valid s \<Longrightarrow>
   run_stmts sts (set_lock v s) = map_option (set_lock v) (run_stmts sts s)"
proof (induction sts arbitrary: s)
  case (Cons st sts)
  then have st: "st (set_lock v s) = map_option (set_lock v) (st s)"
    using stmt_commutes by (fastforce simp: stmts_def)
  show ?case
  proof (cases "st s")
    case (Some s1)
    with Cons.prems have "valid s1"
      using stmt_valid by (fastforce simp: stmts_def)
    with Cons Some st show ?thesis by simp
  qed (use st in simp)
qed simp

text \<open>Running a section with the lock taken and then dropping it is running it with the lock free.\<close>

lemma run_stmts_locked:
  assumes "set sts \<subseteq> stmts" "valid s" "lock_of s = 0"
  shows "map_option (set_lock 0) (run_stmts sts (set_lock 1 s)) = run_stmts sts s"
proof -
  have "map_option (set_lock 0) (run_stmts sts (set_lock 1 s)) =
      map_option (\<lambda>s. set_lock 0 (set_lock 1 s)) (run_stmts sts s)"
    using run_stmts_commutes [OF assms(1,2)] by (simp add: option.map_comp comp_def)
  also have "\<dots> = run_stmts sts s"
  proof (cases "run_stmts sts s")
    case (Some s')
    with run_stmts_valid [OF assms(1,2) Some] assms(3) show ?thesis
      by (simp add: set_set) (metis set_same)
  qed simp
  finally show ?thesis .
qed

text \<open>
  The invariant: with the lock word zero nobody is inside and the object is what the recorded
  critical sections produce; otherwise exactly one thread is inside and the object will be that
  once the thread has executed the rest of its section.
\<close>

definition lock_inv :: "'s \<Rightarrow> 's config \<Rightarrow> bool" where
  "lock_inv s0 c \<longleftrightarrow> valid (shared c) \<and>
     (\<forall>t body. pcs c t = Spinning body \<longrightarrow> body \<in> bodies) \<and>
     (if lock_of (shared c) = 0
      then (\<forall>t. \<not> inside (pcs c t)) \<and> run_stmts (concat (entered c)) s0 = Some (shared c)
      else \<exists>t sts. pcs c t = Inside sts \<and> set sts \<subseteq> stmts \<and> (\<forall>u. inside (pcs c u) \<longrightarrow> u = t) \<and>
        run_stmts (concat (entered c)) s0 = map_option (set_lock 0) (run_stmts sts (shared c)))"

lemma lock_inv_lockedI:
  assumes "valid (shared c)" "\<And>t body. pcs c t = Spinning body \<Longrightarrow> body \<in> bodies"
    "lock_of (shared c) \<noteq> 0" "pcs c t = Inside sts" "set sts \<subseteq> stmts"
    "\<And>u. inside (pcs c u) \<Longrightarrow> u = t"
    "run_stmts (concat (entered c)) s0 = map_option (set_lock 0) (run_stmts sts (shared c))"
  shows "lock_inv s0 c"
  unfolding lock_inv_def using assms by auto

lemma lock_inv_freeI:
  assumes "valid (shared c)" "\<And>t body. pcs c t = Spinning body \<Longrightarrow> body \<in> bodies"
    "lock_of (shared c) = 0" "\<And>u. \<not> inside (pcs c u)"
    "run_stmts (concat (entered c)) s0 = Some (shared c)"
  shows "lock_inv s0 c"
  unfolding lock_inv_def using assms by auto

lemma lock_inv_spinning: "lock_inv s0 c \<Longrightarrow> pcs c t = Spinning body \<Longrightarrow> body \<in> bodies"
  by (auto simp: lock_inv_def)

lemma lock_inv_valid: "lock_inv s0 c \<Longrightarrow> valid (shared c)"
  by (simp add: lock_inv_def)

lemma lock_inv_free:
  "lock_inv s0 c \<Longrightarrow> lock_of (shared c) = 0 \<Longrightarrow> \<not> inside (pcs c u)"
  "lock_inv s0 c \<Longrightarrow> lock_of (shared c) = 0 \<Longrightarrow> run_stmts (concat (entered c)) s0 = Some (shared c)"
  by (simp_all add: lock_inv_def)

lemma lock_inv_start: "valid s0 \<Longrightarrow> lock_of s0 = 0 \<Longrightarrow> lock_inv s0 (lock_start s0)"
  by (simp add: lock_inv_def lock_start_def)

lemma lock_inv_locked:
  assumes "lock_inv s0 c" "pcs c t = Inside sts"
  shows "valid (shared c)" "lock_of (shared c) \<noteq> 0" "set sts \<subseteq> stmts"
    "\<And>u. inside (pcs c u) \<Longrightarrow> u = t"
    "run_stmts (concat (entered c)) s0 = map_option (set_lock 0) (run_stmts sts (shared c))"
proof -
  from assms have v: "valid (shared c)" by (simp add: lock_inv_def)
  from assms have nz: "lock_of (shared c) \<noteq> 0"
    by (auto simp: lock_inv_def inside_iff split: if_splits)
  with assms(1) obtain t' sts' where t': "pcs c t' = Inside sts'" "set sts' \<subseteq> stmts"
    "\<forall>u. inside (pcs c u) \<longrightarrow> u = t'"
    "run_stmts (concat (entered c)) s0 = map_option (set_lock 0) (run_stmts sts' (shared c))"
    by (auto simp: lock_inv_def)
  from t'(3) assms(2) have "t = t'" by (auto simp: inside_iff)
  with t'(1) assms(2) have "t' = t" "sts' = sts" by auto
  with t' show "valid (shared c)" "lock_of (shared c) \<noteq> 0" "set sts \<subseteq> stmts"
    "\<And>u. inside (pcs c u) \<Longrightarrow> u = t"
    "run_stmts (concat (entered c)) s0 = map_option (set_lock 0) (run_stmts sts (shared c))"
    using v nz assms(2) by auto
qed

lemma lock_inv_enter:
  assumes inv: "lock_inv s0 c" and t: "pcs c t = Spinning body" and free: "lock_of (shared c) = 0"
  shows "lock_inv s0 (c\<lparr>shared := set_lock 1 (shared c), pcs := (pcs c)(t := Inside body),
    entered := entered c @ [body]\<rparr>)"
proof (rule lock_inv_lockedI [of _ t body])
  note v = lock_inv_valid [OF inv]
  show sub: "set body \<subseteq> stmts"
    using lock_inv_spinning [OF inv t] by (auto simp: stmts_def)
  have "run_stmts (concat (entered c @ [body])) s0 = run_stmts body (shared c)"
    using lock_inv_free(2) [OF inv free] by (simp add: run_stmts_append)
  also have "\<dots> = map_option (set_lock 0) (run_stmts body (set_lock 1 (shared c)))"
    using run_stmts_locked [OF sub v free] by simp
  finally show "run_stmts (concat (entered (c\<lparr>shared := set_lock 1 (shared c),
      pcs := (pcs c)(t := Inside body), entered := entered c @ [body]\<rparr>))) s0 =
    map_option (set_lock 0) (run_stmts body (shared (c\<lparr>shared := set_lock 1 (shared c),
      pcs := (pcs c)(t := Inside body), entered := entered c @ [body]\<rparr>)))"
    by simp
qed (use inv lock_inv_free(1) [OF inv free] in
      \<open>auto simp: valid_set lock_set lock_inv_valid lock_inv_spinning split: if_splits\<close>)

lemma lock_inv_exec:
  assumes inv: "lock_inv s0 c" and t: "pcs c t = Inside (st # sts)" and st: "st (shared c) = Some s'"
  shows "lock_inv s0 (c\<lparr>shared := s', pcs := (pcs c)(t := Inside sts)\<rparr>)"
proof -
  note locked = lock_inv_locked [OF inv t]
  have "valid s' \<and> lock_of s' = lock_of (shared c)"
    using stmt_valid locked(1,3) st by (fastforce simp: stmts_def)
  then show ?thesis
    using locked lock_inv_spinning [OF inv] st
    by (intro lock_inv_lockedI [of _ t sts]) (auto split: if_splits)
qed

lemma lock_inv_leave:
  assumes inv: "lock_inv s0 c" and t: "pcs c t = Inside []"
  shows "lock_inv s0 (c\<lparr>shared := set_lock 0 (shared c), pcs := (pcs c)(t := Outside)\<rparr>)"
  using lock_inv_locked [OF inv t] lock_inv_spinning [OF inv]
  by (intro lock_inv_freeI) (auto simp: valid_set lock_set split: if_splits)

lemma lock_inv_spin:
  assumes inv: "lock_inv s0 c" and held: "lock_of (shared c) \<noteq> 0"
  shows "lock_inv s0 (c\<lparr>shared := set_lock 1 (shared c)\<rparr>)"
proof -
  from inv held obtain u sts where u: "pcs c u = Inside sts"
    unfolding lock_inv_def by auto
  note locked = lock_inv_locked [OF inv u]
  have "map_option (set_lock 0) (run_stmts sts (set_lock 1 (shared c))) =
      map_option (set_lock 0) (run_stmts sts (shared c))"
    using run_stmts_commutes [OF locked(3,1)] by (simp add: option.map_comp comp_def set_set)
  with locked u show ?thesis
    using lock_inv_spinning [OF inv]
    by (intro lock_inv_lockedI [of _ u sts]) (auto simp: valid_set lock_set)
qed

lemma lock_inv_call:
  assumes inv: "lock_inv s0 c" and t: "pcs c t = Outside" and body: "body \<in> bodies"
  shows "lock_inv s0 (c\<lparr>pcs := (pcs c)(t := Spinning body)\<rparr>)"
proof (cases "lock_of (shared c) = 0")
  case True
  then show ?thesis
    using lock_inv_free [OF inv True] lock_inv_spinning [OF inv] lock_inv_valid [OF inv] body
    by (intro lock_inv_freeI) (auto split: if_splits)
next
  case False
  with inv obtain u sts where u: "pcs c u = Inside sts"
    unfolding lock_inv_def by auto
  with t have "u \<noteq> t" by auto
  with u lock_inv_locked [OF inv u] show ?thesis
    using lock_inv_spinning [OF inv] body
    by (intro lock_inv_lockedI [of _ u sts]) (auto split: if_splits)
qed

lemma lock_inv_step:
  assumes "lock_step tas bodies c c'" "lock_inv s0 c"
  shows "lock_inv s0 c'"
  using assms
proof (induction rule: lock_step.induct)
  case (call c t body)
  then show ?case by (intro lock_inv_call)
next
  case (spin c t body old s')
  with tas [OF lock_inv_valid [OF spin.prems]] show ?case by (auto intro: lock_inv_spin)
next
  case (enter c t body old s')
  with tas [OF lock_inv_valid [OF enter.prems]] show ?case by (auto intro: lock_inv_enter)
next
  case (exec c t st sts s')
  then show ?case by (intro lock_inv_exec)
next
  case (leave c t old s')
  with tas [OF lock_inv_valid [OF leave.prems]] show ?case by (auto intro: lock_inv_leave)
qed

lemma lock_reach_inv:
  "lock_reach tas bodies s0 c \<Longrightarrow> valid s0 \<Longrightarrow> lock_of s0 = 0 \<Longrightarrow> lock_inv s0 c"
  by (induction rule: lock_reach.induct) (auto intro: lock_inv_start lock_inv_step)

theorem mutual_exclusion:
  assumes "lock_reach tas bodies s0 c" "valid s0" "lock_of s0 = 0"
    "pcs c t = Inside a" "pcs c u = Inside b"
  shows "t = u"
  using lock_inv_locked(4) [OF lock_reach_inv [OF assms(1-3)] assms(5)] assms(4) by simp

theorem sections_serialised:
  assumes "lock_reach tas bodies s0 c" "valid s0" "lock_of s0 = 0" "lock_of (shared c) = 0"
  shows "run_stmts (concat (entered c)) s0 = Some (shared c)"
  using lock_reach_inv [OF assms(1-3)] assms(4) by (simp add: lock_inv_def)

lemma exec_all:
  assumes "lock_reach tas bodies s0 c" "pcs c t = Inside sts" "run_stmts sts (shared c) = Some s'"
  shows "lock_reach tas bodies s0 (c\<lparr>shared := s', pcs := (pcs c)(t := Inside [])\<rparr>)"
  using assms
proof (induction sts arbitrary: c)
  case Nil
  then have "(pcs c)(t := Inside []) = pcs c" "shared c = s'" by auto
  with Nil show ?case by (cases c) simp
next
  case (Cons st sts)
  then obtain s1 where s1: "st (shared c) = Some s1" "run_stmts sts s1 = Some s'"
    by (auto split: Option.bind_splits)
  let ?c = "c\<lparr>shared := s1, pcs := (pcs c)(t := Inside sts)\<rparr>"
  have "lock_reach tas bodies s0 ?c"
    by (rule lock_reach.more [OF Cons.prems(1) lock_step.exec [OF Cons.prems(2) s1(1)]])
  moreover have "pcs ?c t = Inside sts" "run_stmts sts (shared ?c) = Some s'"
    using s1(2) by simp_all
  ultimately have "lock_reach tas bodies s0 (?c\<lparr>shared := s', pcs := (pcs ?c)(t := Inside [])\<rparr>)"
    by (rule Cons.IH)
  then show ?case by (cases c) (simp add: fun_upd_def cong: if_cong)
qed

theorem section_can_complete:
  assumes reach: "lock_reach tas bodies s0 c" and s0: "valid s0" "lock_of s0 = 0"
    and out: "\<forall>u. \<not> inside (pcs c u)" "pcs c t = Outside" and body: "body \<in> bodies"
    and run: "run_stmts body (shared c) = Some s'"
  shows "lock_reach tas bodies s0 (c\<lparr>shared := s', entered := entered c @ [body]\<rparr>)"
proof -
  have inv: "lock_inv s0 c" by (rule lock_reach_inv [OF reach s0])
  have free: "lock_of (shared c) = 0"
    using inv out(1) by (auto simp: lock_inv_def inside_iff split: if_splits)
  have v: "valid (shared c)" by (rule lock_inv_valid [OF inv])
  have sub: "set body \<subseteq> stmts" using body by (auto simp: stmts_def)
  let ?c1 = "c\<lparr>pcs := (pcs c)(t := Spinning body)\<rparr>"
  have r1: "lock_reach tas bodies s0 ?c1"
    by (rule lock_reach.more [OF reach lock_step.call [OF out(2) body]])
  let ?c2 = "c\<lparr>shared := set_lock 1 (shared c), pcs := (pcs c)(t := Inside body),
    entered := entered c @ [body]\<rparr>"
  have "lock_step tas bodies ?c1 ?c2"
    using lock_step.enter [of ?c1 t body tas "lock_of (shared c)" "set_lock 1 (shared c)" bodies]
      tas [OF v] free by simp
  with r1 have r2: "lock_reach tas bodies s0 ?c2" by (rule lock_reach.more)
  have "run_stmts body (set_lock 1 (shared c)) = Some (set_lock 1 s')"
    using run_stmts_commutes [OF sub v] run by simp
  then have r3: "lock_reach tas bodies s0
      (?c2\<lparr>shared := set_lock 1 s', pcs := (pcs c)(t := Inside [])\<rparr>)"
    using exec_all [OF r2, of t body] by simp
  have s': "valid s'" "lock_of s' = 0" using run_stmts_valid [OF sub v run] free by auto
  have "tas 0 (set_lock 1 s') = Some (1, s')"
    using tas [OF valid_set [OF s'(1)]] lock_set [OF s'(1)] set_set set_same [OF s'(1)] s'(2) by simp
  then have "lock_step tas bodies (?c2\<lparr>shared := set_lock 1 s', pcs := (pcs c)(t := Inside [])\<rparr>)
      (c\<lparr>shared := s', entered := entered c @ [body]\<rparr>)"
    using lock_step.leave [of "?c2\<lparr>shared := set_lock 1 s', pcs := (pcs c)(t := Inside [])\<rparr>" t
        tas 1 s' bodies] out(2) by (cases c) (simp add: fun_upd_idem)
  with r3 show ?thesis by (rule lock_reach.more)
qed

theorem waiting_thread_can_enter:
  assumes "lock_reach tas bodies s0 c" "valid s0" "lock_of s0 = 0"
    "\<forall>u. \<not> inside (pcs c u)" "pcs c t = Spinning body"
  shows "\<exists>c'. lock_step tas bodies c c' \<and> pcs c' t = Inside body"
proof -
  have inv: "lock_inv s0 c" by (rule lock_reach_inv [OF assms(1-3)])
  with assms(4) have "lock_of (shared c) = 0"
    by (auto simp: lock_inv_def inside_iff split: if_splits)
  moreover have "valid (shared c)" using inv by (simp add: lock_inv_def)
  ultimately have "tas 1 (shared c) = Some (0, set_lock 1 (shared c))"
    using tas by simp
  from lock_step.enter [where tas = tas and bodies = bodies, OF assms(5) this refl] show ?thesis
    by (intro exI conjI) (assumption, simp)
qed

end

section \<open>The stub of the other ports\<close>

text \<open>
  C34: with the test-and-set stub of the ARM and RISC-V ports the spinlock excludes nobody: a
  configuration with two threads inside their critical sections is reachable.
\<close>

theorem spinlock_stub_no_exclusion:
  "\<exists>c. lock_reach (\<lambda>v sp. Some (atomic_testandset_stub v sp)) {[]} (spinlock_init \<lparr>lock = 7\<rparr>) c \<and>
     inside (pcs c 0) \<and> inside (pcs c 1)"
proof -
  let ?tas = "\<lambda>v sp. Some (atomic_testandset_stub v sp)"
  let ?s = "spinlock_init \<lparr>lock = 7\<rparr>"
  let ?c = "\<lambda>p es. \<lparr>shared = ?s, pcs = p, entered = es\<rparr>"
  have call: "p t = Outside \<Longrightarrow> lock_reach ?tas {[]} ?s (?c p es) \<Longrightarrow>
      lock_reach ?tas {[]} ?s (?c (p(t := Spinning [])) es)" for p t es
    using lock_reach.more [OF _ lock_step.call [of "?c p es" t "[]" "{[]}" ?tas]] by simp
  have enter: "p t = Spinning [] \<Longrightarrow> lock_reach ?tas {[]} ?s (?c p es) \<Longrightarrow>
      lock_reach ?tas {[]} ?s (?c (p(t := Inside [])) (es @ [[]]))" for p t es
    using lock_reach.more [OF _ lock_step.enter [of "?c p es" t "[]" ?tas 0 ?s "{[]}"]]
    by (simp add: atomic_testandset_stub_def)
  have "lock_reach ?tas {[]} ?s (?c (\<lambda>t. Outside) [])"
    using lock_reach.start [of ?tas "{[]}" ?s] by (simp add: lock_start_def)
  from enter [OF _ call [OF _ enter [OF _ call [OF _ this, of 0]], of 0 1], of 1]
  show ?thesis by fastforce
qed

end
