(* ===== verification/Libz_List.thy ===== *)
theory Libz_List
  imports Libz_Spinlock
begin

text \<open>
  \<^verbatim>\<open>libz/fudge/list.c\<close>: the intrusive doubly linked list with a spinlock. Items and lists live in
  a store at 32 bit addresses, address 0 being the null pointer; dereferencing null or an address
  without an object faults. Every assignment of the C code is one statement, so that the same
  definitions serve the sequential routines and the interleaved threads of
  \<^verbatim>\<open>Libz_Spinlock\<close>.
\<close>

section \<open>The store\<close>

record list_item =
  li_next :: u32
  li_prev :: u32
  li_data :: u32

record list_head =
  ls_spinlock :: spinlock
  ls_head :: u32
  ls_tail :: u32
  ls_count :: u32

record list_store =
  items :: "u32 \<Rightarrow> list_item option"
  lists :: "u32 \<Rightarrow> list_head option"

definition get_item :: "list_store \<Rightarrow> u32 \<Rightarrow> list_item option" where
  "get_item s p = (if p = 0 then None else items s p)"

definition get_list :: "list_store \<Rightarrow> u32 \<Rightarrow> list_head option" where
  "get_list s l = (if l = 0 then None else lists s l)"

definition upd_item :: "u32 \<Rightarrow> (list_item \<Rightarrow> list_item) \<Rightarrow> list_store stmt" where
  "upd_item p f s = do { it \<leftarrow> get_item s p; Some (s\<lparr>items := (items s)(p \<mapsto> f it)\<rparr>) }"

definition upd_list :: "u32 \<Rightarrow> (list_head \<Rightarrow> list_head) \<Rightarrow> list_store stmt" where
  "upd_list l f s = do { h \<leftarrow> get_list s l; Some (s\<lparr>lists := (lists s)(l \<mapsto> f h)\<rparr>) }"

section \<open>The operations\<close>

definition list_add_stmts :: "u32 \<Rightarrow> u32 \<Rightarrow> list_store stmt list" where
  "list_add_stmts l item =
    [\<lambda>s. do { h \<leftarrow> get_list s l; upd_item item (\<lambda>i. i\<lparr>li_prev := ls_tail h\<rparr>) s },
     \<lambda>s. upd_item item (\<lambda>i. i\<lparr>li_next := 0\<rparr>) s,
     \<lambda>s. do { h \<leftarrow> get_list s l;
               if ls_head h \<noteq> 0 then upd_item (ls_tail h) (\<lambda>i. i\<lparr>li_next := item\<rparr>) s
               else upd_list l (\<lambda>h. h\<lparr>ls_head := item\<rparr>) s },
     \<lambda>s. upd_list l (\<lambda>h. h\<lparr>ls_tail := item\<rparr>) s,
     \<lambda>s. upd_list l (\<lambda>h. h\<lparr>ls_count := ls_count h + 1\<rparr>) s]"

definition list_add_unsafe :: "u32 \<Rightarrow> u32 \<Rightarrow> list_store \<Rightarrow> list_store option" where
  "list_add_unsafe l item = run_stmts (list_add_stmts l item)"

definition list_remove_stmts :: "u32 \<Rightarrow> u32 \<Rightarrow> list_store stmt list" where
  "list_remove_stmts l item =
    [\<lambda>s. do { h \<leftarrow> get_list s l;
               if ls_head h = item then
                 do { i \<leftarrow> get_item s item; upd_list l (\<lambda>h. h\<lparr>ls_head := li_next i\<rparr>) s }
               else Some s },
     \<lambda>s. do { h \<leftarrow> get_list s l;
               if ls_tail h = item then
                 do { i \<leftarrow> get_item s item; upd_list l (\<lambda>h. h\<lparr>ls_tail := li_prev i\<rparr>) s }
               else Some s },
     \<lambda>s. do { h \<leftarrow> get_list s l;
               if ls_head h \<noteq> 0 then upd_item (ls_head h) (\<lambda>i. i\<lparr>li_prev := 0\<rparr>) s else Some s },
     \<lambda>s. do { h \<leftarrow> get_list s l;
               if ls_tail h \<noteq> 0 then upd_item (ls_tail h) (\<lambda>i. i\<lparr>li_next := 0\<rparr>) s else Some s },
     \<lambda>s. do { i \<leftarrow> get_item s item;
               if li_next i \<noteq> 0 then upd_item (li_next i) (\<lambda>j. j\<lparr>li_prev := li_prev i\<rparr>) s
               else Some s },
     \<lambda>s. do { i \<leftarrow> get_item s item;
               if li_prev i \<noteq> 0 then upd_item (li_prev i) (\<lambda>j. j\<lparr>li_next := li_next i\<rparr>) s
               else Some s },
     \<lambda>s. upd_item item (\<lambda>i. i\<lparr>li_next := 0\<rparr>) s,
     \<lambda>s. upd_item item (\<lambda>i. i\<lparr>li_prev := 0\<rparr>) s,
     \<lambda>s. upd_list l (\<lambda>h. h\<lparr>ls_count := ls_count h - 1\<rparr>) s]"

definition list_remove_unsafe :: "u32 \<Rightarrow> u32 \<Rightarrow> list_store \<Rightarrow> list_store option" where
  "list_remove_unsafe l item = run_stmts (list_remove_stmts l item)"

definition list_move_unsafe :: "u32 \<Rightarrow> u32 \<Rightarrow> u32 \<Rightarrow> list_store \<Rightarrow> list_store option" where
  "list_move_unsafe to from item s =
     do { s \<leftarrow> list_remove_unsafe from item s; list_add_unsafe to item s }"

text \<open>The lock of a list, taken and released through the list's address.\<close>

definition acquire_list :: "u32 \<Rightarrow> list_store \<Rightarrow> list_store option" where
  "acquire_list l s =
     do { h \<leftarrow> get_list s l; sp \<leftarrow> spinlock_acquire (ls_spinlock h);
          upd_list l (\<lambda>h. h\<lparr>ls_spinlock := sp\<rparr>) s }"

definition release_list :: "u32 \<Rightarrow> list_store \<Rightarrow> list_store option" where
  "release_list l = upd_list l (\<lambda>h. h\<lparr>ls_spinlock := spinlock_release (ls_spinlock h)\<rparr>)"

definition list_add :: "u32 \<Rightarrow> u32 \<Rightarrow> list_store \<Rightarrow> list_store option" where
  "list_add l item s =
     do { s \<leftarrow> acquire_list l s; s \<leftarrow> list_add_unsafe l item s; release_list l s }"

definition list_remove :: "u32 \<Rightarrow> u32 \<Rightarrow> list_store \<Rightarrow> list_store option" where
  "list_remove l item s =
     do { s \<leftarrow> acquire_list l s; s \<leftarrow> list_remove_unsafe l item s; release_list l s }"

definition list_move :: "u32 \<Rightarrow> u32 \<Rightarrow> u32 \<Rightarrow> list_store \<Rightarrow> list_store option" where
  "list_move to from item s =
     (if to = from then
        do { s \<leftarrow> acquire_list to s; s \<leftarrow> list_move_unsafe to from item s; release_list to s }
      else
        do { s \<leftarrow> acquire_list from s; s \<leftarrow> acquire_list to s;
             s \<leftarrow> list_move_unsafe to from item s;
             s \<leftarrow> release_list to s; release_list from s })"

definition list_pickhead :: "u32 \<Rightarrow> list_store \<Rightarrow> (u32 \<times> list_store) option" where
  "list_pickhead l s =
     do { s \<leftarrow> acquire_list l s; h \<leftarrow> get_list s l;
          s \<leftarrow> (if ls_head h \<noteq> 0 then list_remove_unsafe l (ls_head h) s else Some s);
          s \<leftarrow> release_list l s; Some (ls_head h, s) }"

definition list_picktail :: "u32 \<Rightarrow> list_store \<Rightarrow> (u32 \<times> list_store) option" where
  "list_picktail l s =
     do { s \<leftarrow> acquire_list l s; h \<leftarrow> get_list s l;
          s \<leftarrow> (if ls_tail h \<noteq> 0 then list_remove_unsafe l (ls_tail h) s else Some s);
          s \<leftarrow> release_list l s; Some (ls_tail h, s) }"

definition list_inititem :: "u32 \<Rightarrow> u32 \<Rightarrow> list_store \<Rightarrow> list_store option" where
  "list_inititem item d = upd_item item (\<lambda>i. i\<lparr>li_next := 0, li_prev := 0, li_data := d\<rparr>)"

definition list_init :: "u32 \<Rightarrow> list_store \<Rightarrow> list_store option" where
  "list_init l =
     upd_list l (\<lambda>h. h\<lparr>ls_spinlock := spinlock_init (ls_spinlock h), ls_head := 0, ls_tail := 0,
                        ls_count := 0\<rparr>)"

section \<open>The contents of a list\<close>

text \<open>
  A chain of items between a predecessor and a successor address, and the list of the item
  addresses that a list object holds.
\<close>

definition first_of :: "u32 list \<Rightarrow> u32 \<Rightarrow> u32" where
  "first_of xs q = (case xs of [] \<Rightarrow> q | x # _ \<Rightarrow> x)"

definition last_of :: "u32 \<Rightarrow> u32 list \<Rightarrow> u32" where
  "last_of p xs = (if xs = [] then p else last xs)"

fun chain :: "(u32 \<Rightarrow> list_item option) \<Rightarrow> u32 \<Rightarrow> u32 list \<Rightarrow> u32 \<Rightarrow> bool" where
  "chain h p [] q = True"
| "chain h p (x # xs) q =
     (x \<noteq> 0 \<and> (\<exists>d. h x = Some \<lparr>li_next = first_of xs q, li_prev = p, li_data = d\<rparr>) \<and> chain h x xs q)"

text \<open>The state of a list object, with the value of its lock word, and of a list at rest.\<close>

definition list_state :: "list_store \<Rightarrow> u32 \<Rightarrow> u32 list \<Rightarrow> u32 \<Rightarrow> bool" where
  "list_state s l xs v \<longleftrightarrow> l \<noteq> 0 \<and> distinct xs \<and> chain (items s) 0 xs 0 \<and>
     lists s l = Some \<lparr>ls_spinlock = \<lparr>lock = v\<rparr>, ls_head = first_of xs 0, ls_tail = last_of 0 xs,
                       ls_count = of_nat (length xs)\<rparr>"

abbreviation list_holds :: "list_store \<Rightarrow> u32 \<Rightarrow> u32 list \<Rightarrow> bool" where
  "list_holds s l xs \<equiv> list_state s l xs 0"

text \<open>What an operation leaves alone: other lists, items outside of \<open>X\<close>, and all data pointers.\<close>

definition list_frame :: "list_store \<Rightarrow> list_store \<Rightarrow> u32 set \<Rightarrow> u32 set \<Rightarrow> bool" where
  "list_frame s s' L X \<longleftrightarrow> (\<forall>m. m \<notin> L \<longrightarrow> lists s' m = lists s m) \<and>
     (\<forall>p. p \<notin> X \<longrightarrow> items s' p = items s p) \<and>
     (\<forall>p. map_option li_data (items s' p) = map_option li_data (items s p))"

lemma first_of_simps [simp]: "first_of [] q = q" "first_of (x # xs) q = x"
  "first_of (xs @ ys) q = first_of xs (first_of ys q)"
  by (auto simp: first_of_def split: list.splits)

lemma last_of_simps [simp]: "last_of p [] = p" "last_of p (x # xs) = last_of x xs"
  "last_of p (xs @ ys) = last_of (last_of p xs) ys"
  by (auto simp: last_of_def)

lemma chain_append [simp]:
  "chain h p (xs @ ys) q \<longleftrightarrow> chain h p xs (first_of ys q) \<and> chain h (last_of p xs) ys q"
  by (induction xs arbitrary: p) auto

lemma chain_frame [simp]: "x \<notin> set xs \<Longrightarrow> chain (h(x := v)) p xs q = chain h p xs q"
  by (induction xs arbitrary: p) auto

lemma chain_cong: "(\<And>x. x \<in> set xs \<Longrightarrow> h x = h' x) \<Longrightarrow> chain h p xs q = chain h' p xs q"
  by (induction xs arbitrary: p) auto

lemma chain_not_null: "chain h p xs q \<Longrightarrow> x \<in> set xs \<Longrightarrow> x \<noteq> 0"
  by (induction xs arbitrary: p) auto

lemma first_of_eq_0: "chain h p xs q \<Longrightarrow> first_of xs 0 = 0 \<longleftrightarrow> xs = []"
  by (cases xs) auto

lemma last_of_eq_0: "chain h p xs q \<Longrightarrow> last_of 0 xs = 0 \<longleftrightarrow> xs = []"
  using chain_not_null [of h p xs q "last xs"] by (auto simp: last_of_def)

lemma list_frame_refl: "list_frame s s L X"
  by (simp add: list_frame_def)

lemma list_frame_trans:
  "list_frame s s1 L X \<Longrightarrow> list_frame s1 s2 L X \<Longrightarrow> list_frame s s2 L X"
  by (simp add: list_frame_def)

lemma list_frame_mono: "list_frame s s' L X \<Longrightarrow> L \<subseteq> L' \<Longrightarrow> X \<subseteq> X' \<Longrightarrow> list_frame s s' L' X'"
  by (auto simp: list_frame_def)

lemma list_state_frame:
  "list_state s m ys v \<Longrightarrow> list_frame s s' L X \<Longrightarrow> m \<notin> L \<Longrightarrow> X \<inter> set ys = {} \<Longrightarrow>
   list_state s' m ys v"
  using chain_cong [of ys "items s'" "items s" 0 0]
  by (auto simp: list_state_def list_frame_def)

section \<open>What the operations do\<close>

lemmas list_access = get_item_def get_list_def upd_item_def upd_list_def

lemma list_add_unsafe_ok:
  assumes "list_state s l xs v" "item \<notin> set xs" "item \<noteq> 0" "items s item \<noteq> None"
  shows "\<exists>s'. list_add_unsafe l item s = Some s' \<and> list_state s' l (xs @ [item]) v \<and>
    list_frame s s' {l} (insert item (set xs))"
proof -
  from assms(4) obtain n p d where
    it: "items s item = Some \<lparr>li_next = n, li_prev = p, li_data = d\<rparr>"
    by (metis list_item.cases not_None_eq)
  show ?thesis
  proof (cases xs rule: rev_cases)
    case Nil
    with assms it show ?thesis
      by (auto simp: list_add_unsafe_def list_add_stmts_def list_access list_state_def
          list_frame_def)
  next
    case (snoc ys y)
    with assms have "first_of ys y \<noteq> 0" by (cases ys) (auto simp: list_state_def)
    with snoc assms it show ?thesis
      by (auto simp: list_add_unsafe_def list_add_stmts_def list_access list_state_def
          list_frame_def)
  qed
qed

lemma list_ends:
  obtains "xs = []" | x where "xs = [x]" | x ys z where "xs = x # ys @ [z]"
  by (metis list.exhaust rev_exhaust)

lemma list_remove_unsafe_ok:
  assumes "list_state s l (as @ item # bs) v"
  shows "\<exists>s'. list_remove_unsafe l item s = Some s' \<and> list_state s' l (as @ bs) v \<and>
    list_frame s s' {l} (set (as @ item # bs)) \<and>
    (\<exists>d. items s' item = Some \<lparr>li_next = 0, li_prev = 0, li_data = d\<rparr>)"
  using assms
  by (cases as rule: list_ends; cases bs rule: list_ends)
     (auto simp: list_remove_unsafe_def list_remove_stmts_def list_access list_state_def
       list_frame_def)

lemma acquire_list_ok:
  "list_holds s l xs \<Longrightarrow>
   \<exists>s'. acquire_list l s = Some s' \<and> list_state s' l xs 1 \<and> list_frame s s' {l} {}"
  by (auto simp: acquire_list_def list_access list_state_def spinlock_acquire_free list_frame_def)

lemma acquire_list_held: "list_state s l xs v \<Longrightarrow> v \<noteq> 0 \<Longrightarrow> acquire_list l s = None"
  by (simp add: acquire_list_def list_access list_state_def spinlock_acquire_held)

lemma release_list_ok:
  "list_state s l xs v \<Longrightarrow>
   \<exists>s'. release_list l s = Some s' \<and> list_holds s' l xs \<and> list_frame s s' {l} {}"
  by (auto simp: release_list_def list_access list_state_def list_frame_def spinlock_release_def
      atomic_testandset_def)

lemma list_frame_items:
  "list_frame s s' L {} \<Longrightarrow> items s' = items s"
  by (auto simp: list_frame_def)

text \<open>A critical section run between taking and releasing the lock of a list at rest.\<close>

lemma locked_section:
  assumes "list_holds s l xs"
    and body: "\<And>s1. list_state s1 l xs 1 \<Longrightarrow> list_frame s s1 {l} {} \<Longrightarrow>
      \<exists>s2. f s1 = Some s2 \<and> list_state s2 l ys 1 \<and> list_frame s1 s2 {l} X"
  shows "\<exists>s1 s2 s3. acquire_list l s = Some s1 \<and> f s1 = Some s2 \<and> release_list l s2 = Some s3 \<and>
    list_state s1 l xs 1 \<and> list_state s2 l ys 1 \<and> list_holds s3 l ys \<and>
    list_frame s s3 {l} X \<and> items s3 = items s2 \<and> items s1 = items s"
proof -
  from acquire_list_ok [OF assms(1)] obtain s1 where
    s1: "acquire_list l s = Some s1" "list_state s1 l xs 1" "list_frame s s1 {l} {}"
    by blast
  from body [OF s1(2,3)] obtain s2 where
    s2: "f s1 = Some s2" "list_state s2 l ys 1" "list_frame s1 s2 {l} X"
    by blast
  from release_list_ok [OF s2(2)] obtain s3 where
    s3: "release_list l s2 = Some s3" "list_holds s3 l ys" "list_frame s2 s3 {l} {}"
    by blast
  have "list_frame s s3 {l} X"
    using s1(3) s2(3) s3(3)
    by (meson empty_subsetI list_frame_mono list_frame_trans subset_refl)
  with s1 s2 s3 show ?thesis
    using list_frame_items [OF s1(3)] list_frame_items [OF s3(3)] by blast
qed

lemma list_add_ok:
  assumes "list_holds s l xs" "item \<notin> set xs" "item \<noteq> 0" "items s item \<noteq> None"
  shows "\<exists>s'. list_add l item s = Some s' \<and> list_holds s' l (xs @ [item]) \<and>
    list_frame s s' {l} (insert item (set xs))"
proof -
  have "\<exists>s2. list_add_unsafe l item s1 = Some s2 \<and> list_state s2 l (xs @ [item]) 1 \<and>
      list_frame s1 s2 {l} (insert item (set xs))"
    if "list_state s1 l xs 1" "list_frame s s1 {l} {}" for s1
    using list_add_unsafe_ok [OF that(1) assms(2,3)] assms(4) list_frame_items [OF that(2)] by simp
  from locked_section [OF assms(1) this] show ?thesis
    by (auto simp: list_add_def)
qed

lemma list_remove_ok:
  assumes "list_holds s l (as @ item # bs)"
  shows "\<exists>s'. list_remove l item s = Some s' \<and> list_holds s' l (as @ bs) \<and>
    list_frame s s' {l} (set (as @ item # bs)) \<and>
    map_option li_next (items s' item) = Some 0 \<and> map_option li_prev (items s' item) = Some 0"
proof -
  have "\<exists>s2. list_remove_unsafe l item s1 = Some s2 \<and> list_state s2 l (as @ bs) 1 \<and>
      list_frame s1 s2 {l} (set (as @ item # bs))"
    if "list_state s1 l (as @ item # bs) 1" "list_frame s s1 {l} {}" for s1
    using list_remove_unsafe_ok [OF that(1)] by blast
  from locked_section [OF assms this] obtain s1 s2 s3 where
    "acquire_list l s = Some s1" "list_remove_unsafe l item s1 = Some s2"
    "release_list l s2 = Some s3" "list_state s1 l (as @ item # bs) 1" "list_holds s3 l (as @ bs)"
    "list_frame s s3 {l} (set (as @ item # bs))" "items s3 = items s2"
    by blast
  moreover with list_remove_unsafe_ok [of s1 l as item bs 1] obtain d where
    "items s2 item = Some \<lparr>li_next = 0, li_prev = 0, li_data = d\<rparr>"
    by auto
  ultimately show ?thesis by (simp add: list_remove_def)
qed

lemma list_pickhead_empty:
  assumes "list_holds s l []"
  shows "\<exists>s'. list_pickhead l s = Some (0, s') \<and> list_holds s' l [] \<and> list_frame s s' {l} {}"
proof -
  have "\<exists>s2. Some s1 = Some s2 \<and> list_state s2 l [] 1 \<and> list_frame s1 s2 {l} {}"
    if "list_state s1 l [] 1" "list_frame s s1 {l} {}" for s1
    using that list_frame_refl by blast
  from locked_section [OF assms this] show ?thesis
    by (auto simp: list_pickhead_def list_state_def get_list_def)
qed

lemma list_pickhead_ok:
  assumes "list_holds s l (x # xs)"
  shows "\<exists>s'. list_pickhead l s = Some (x, s') \<and> list_holds s' l xs \<and>
    list_frame s s' {l} (set (x # xs))"
proof -
  have "\<exists>s2. list_remove_unsafe l x s1 = Some s2 \<and> list_state s2 l xs 1 \<and>
      list_frame s1 s2 {l} (set (x # xs))"
    if "list_state s1 l (x # xs) 1" "list_frame s s1 {l} {}" for s1
    using list_remove_unsafe_ok [of s1 l "[]" x xs 1] that(1) by auto
  from locked_section [OF assms this] obtain s1 s2 s3 where
    "acquire_list l s = Some s1" "list_remove_unsafe l x s1 = Some s2"
    "release_list l s2 = Some s3" "list_state s1 l (x # xs) 1" "list_holds s3 l xs"
    "list_frame s s3 {l} (set (x # xs))"
    by blast
  then show ?thesis by (auto simp: list_pickhead_def get_list_def list_state_def)
qed

lemma list_picktail_empty:
  assumes "list_holds s l []"
  shows "\<exists>s'. list_picktail l s = Some (0, s') \<and> list_holds s' l [] \<and> list_frame s s' {l} {}"
proof -
  have "\<exists>s2. Some s1 = Some s2 \<and> list_state s2 l [] 1 \<and> list_frame s1 s2 {l} {}"
    if "list_state s1 l [] 1" "list_frame s s1 {l} {}" for s1
    using that list_frame_refl by blast
  from locked_section [OF assms this] show ?thesis
    by (auto simp: list_picktail_def list_state_def get_list_def)
qed

lemma list_picktail_ok:
  assumes "list_holds s l (xs @ [x])"
  shows "\<exists>s'. list_picktail l s = Some (x, s') \<and> list_holds s' l xs \<and>
    list_frame s s' {l} (set (xs @ [x]))"
proof -
  have "\<exists>s2. list_remove_unsafe l x s1 = Some s2 \<and> list_state s2 l xs 1 \<and>
      list_frame s1 s2 {l} (set (xs @ [x]))"
    if "list_state s1 l (xs @ [x]) 1" "list_frame s s1 {l} {}" for s1
    using list_remove_unsafe_ok [of s1 l xs x "[]" 1] that(1) by auto
  from locked_section [OF assms this] obtain s1 s2 s3 where
    "acquire_list l s = Some s1" "list_remove_unsafe l x s1 = Some s2"
    "release_list l s2 = Some s3" "list_state s1 l (xs @ [x]) 1" "list_holds s3 l xs"
    "list_frame s s3 {l} (set (xs @ [x]))"
    by blast
  then show ?thesis by (auto simp: list_picktail_def get_list_def list_state_def)
qed

lemma list_move_unsafe_ok:
  assumes "list_state s from (as @ item # bs) v" "list_state s to ys w" "to \<noteq> from"
    "set ys \<inter> set (as @ item # bs) = {}"
  shows "\<exists>s'. list_move_unsafe to from item s = Some s' \<and> list_state s' from (as @ bs) v \<and>
    list_state s' to (ys @ [item]) w \<and>
    list_frame s s' {to, from} (set ys \<union> set (as @ item # bs))"
proof -
  from list_remove_unsafe_ok [OF assms(1)] obtain s1 where
    s1: "list_remove_unsafe from item s = Some s1" "list_state s1 from (as @ bs) v"
      "list_frame s s1 {from} (set (as @ item # bs))" "items s1 item \<noteq> None"
    by auto
  have to1: "list_state s1 to ys w"
    using list_state_frame [OF assms(2) s1(3)] assms(3,4) by blast
  have item: "item \<noteq> 0" "item \<notin> set ys"
    using assms(1,4) by (auto simp: list_state_def)
  from list_add_unsafe_ok [OF to1 item(2,1) s1(4)] obtain s2 where
    s2: "list_add_unsafe to item s1 = Some s2" "list_state s2 to (ys @ [item]) w"
      "list_frame s1 s2 {to} (insert item (set ys))"
    by blast
  have "list_state s2 from (as @ bs) v"
    using list_state_frame [OF s1(2) s2(3)] assms(1,3,4) by (auto simp: list_state_def)
  moreover have "list_frame s s2 {to, from} (set ys \<union> set (as @ item # bs))"
    using s1(3) s2(3) by (auto simp: list_frame_def)
  ultimately show ?thesis
    using s1(1) s2(1,2) by (auto simp: list_move_unsafe_def)
qed

lemma list_move_other_ok:
  assumes "list_holds s from (as @ item # bs)" "list_holds s to ys" "to \<noteq> from"
    "set ys \<inter> set (as @ item # bs) = {}"
  shows "\<exists>s'. list_move to from item s = Some s' \<and> list_holds s' from (as @ bs) \<and>
    list_holds s' to (ys @ [item]) \<and> list_frame s s' {to, from} (set ys \<union> set (as @ item # bs))"
proof -
  from acquire_list_ok [OF assms(1)] obtain s1 where
    s1: "acquire_list from s = Some s1" "list_state s1 from (as @ item # bs) 1"
      "list_frame s s1 {from} {}"
    by blast
  from acquire_list_ok [OF list_state_frame [OF assms(2) s1(3)]] assms(3) obtain s2 where
    s2: "acquire_list to s1 = Some s2" "list_state s2 to ys 1" "list_frame s1 s2 {to} {}"
    by auto
  have "list_state s2 from (as @ item # bs) 1"
    using list_state_frame [OF s1(2) s2(3)] assms(3) by auto
  from list_move_unsafe_ok [OF this s2(2) assms(3,4)] obtain s3 where
    s3: "list_move_unsafe to from item s2 = Some s3" "list_state s3 from (as @ bs) 1"
      "list_state s3 to (ys @ [item]) 1"
      "list_frame s2 s3 {to, from} (set ys \<union> set (as @ item # bs))"
    by blast
  from release_list_ok [OF s3(3)] obtain s4 where
    s4: "release_list to s3 = Some s4" "list_holds s4 to (ys @ [item])" "list_frame s3 s4 {to} {}"
    by blast
  from release_list_ok [OF list_state_frame [OF s3(2) s4(3)]] assms(3) obtain s5 where
    s5: "release_list from s4 = Some s5" "list_holds s5 from (as @ bs)" "list_frame s4 s5 {from} {}"
    by auto
  have "list_holds s5 to (ys @ [item])"
    using list_state_frame [OF s4(2) s5(3)] assms(3) by auto
  moreover have "list_frame s s5 {to, from} (set ys \<union> set (as @ item # bs))"
    using s1(3) s2(3) s3(4) s4(3) s5(3) by (auto simp: list_frame_def)
  ultimately show ?thesis
    using s1 s2 s3 s4 s5 assms(3) by (auto simp: list_move_def)
qed

lemma list_move_same_ok:
  assumes "list_holds s l (as @ item # bs)"
  shows "\<exists>s'. list_move l l item s = Some s' \<and> list_holds s' l (as @ bs @ [item]) \<and>
    list_frame s s' {l} (set (as @ item # bs))"
proof -
  have "\<exists>s2. list_move_unsafe l l item s1 = Some s2 \<and> list_state s2 l (as @ bs @ [item]) 1 \<and>
      list_frame s1 s2 {l} (set (as @ item # bs))"
    if "list_state s1 l (as @ item # bs) 1" for s1
  proof -
    from list_remove_unsafe_ok [OF that] obtain s2 where
      s2: "list_remove_unsafe l item s1 = Some s2" "list_state s2 l (as @ bs) 1"
        "list_frame s1 s2 {l} (set (as @ item # bs))" "items s2 item \<noteq> None"
      by auto
    have item: "item \<notin> set (as @ bs)" "item \<noteq> 0"
      using that by (auto simp: list_state_def)
    from list_add_unsafe_ok [OF s2(2) item s2(4)] obtain s3 where
      s3: "list_add_unsafe l item s2 = Some s3" "list_state s3 l ((as @ bs) @ [item]) 1"
        "list_frame s2 s3 {l} (insert item (set (as @ bs)))"
      by blast
    have "list_frame s1 s3 {l} (set (as @ item # bs))"
      by (rule list_frame_trans [OF s2(3)], rule list_frame_mono [OF s3(3)]) auto
    with s2 s3 show ?thesis by (auto simp: list_move_unsafe_def)
  qed
  from locked_section [OF assms this] show ?thesis
    by (auto simp: list_move_def)
qed

lemma list_init_ok:
  "l \<noteq> 0 \<Longrightarrow> lists s l = Some h \<Longrightarrow>
   \<exists>s'. list_init l s = Some s' \<and> list_holds s' l [] \<and> list_frame s s' {l} {}"
  by (cases h; cases "ls_spinlock h")
     (auto simp: list_init_def list_access list_state_def list_frame_def spinlock_init_def)

section \<open>Threads sharing a list\<close>

text \<open>
  The lock word of the list at \<open>l\<close>, and the critical sections of \<^verbatim>\<open>list_add\<close> and \<^verbatim>\<open>list_remove\<close>,
  instantiate the contract of a lock-protected object.
\<close>

definition list_tas :: "u32 \<Rightarrow> u32 \<Rightarrow> list_store \<Rightarrow> (u32 \<times> list_store) option" where
  "list_tas l v s =
     do { h \<leftarrow> get_list s l;
          let (old, sp) = atomic_testandset v (ls_spinlock h) in
          do { s' \<leftarrow> upd_list l (\<lambda>h. h\<lparr>ls_spinlock := sp\<rparr>) s; Some (old, s') } }"

definition list_valid :: "u32 \<Rightarrow> list_store \<Rightarrow> bool" where
  "list_valid l s \<longleftrightarrow> l \<noteq> 0 \<and> lists s l \<noteq> None"

definition list_lock_of :: "u32 \<Rightarrow> list_store \<Rightarrow> u32" where
  "list_lock_of l s = lock (ls_spinlock (the (lists s l)))"

definition list_set_lock :: "u32 \<Rightarrow> u32 \<Rightarrow> list_store \<Rightarrow> list_store" where
  "list_set_lock l v s =
     s\<lparr>lists := (lists s)(l := map_option (\<lambda>h. h\<lparr>ls_spinlock := \<lparr>lock = v\<rparr>\<rparr>) (lists s l))\<rparr>"

definition list_sections :: "u32 \<Rightarrow> list_store stmt list set" where
  "list_sections l = range (list_add_stmts l) \<union> range (list_remove_stmts l)"

lemma ls_update_lock [simp]:
  "h\<lparr>ls_spinlock := sp, ls_head := x\<rparr> = h\<lparr>ls_head := x, ls_spinlock := sp\<rparr>"
  "h\<lparr>ls_spinlock := sp, ls_tail := x\<rparr> = h\<lparr>ls_tail := x, ls_spinlock := sp\<rparr>"
  "h\<lparr>ls_spinlock := sp, ls_count := c\<rparr> = h\<lparr>ls_count := c, ls_spinlock := sp\<rparr>"
  by (cases h; simp)+

lemma list_set_lock_get [simp]:
  "get_item (list_set_lock l v s) p = get_item s p"
  "get_list (list_set_lock l v s) l =
     map_option (\<lambda>h. h\<lparr>ls_spinlock := \<lparr>lock = v\<rparr>\<rparr>) (get_list s l)"
  by (simp_all add: list_access list_set_lock_def)

lemma upd_item_set_lock [simp]:
  "upd_item p f (list_set_lock l v s) = map_option (list_set_lock l v) (upd_item p f s)"
  by (auto simp: list_access list_set_lock_def split: Option.bind_splits)

lemma upd_list_set_lock [simp]:
  "(\<And>h. f (h\<lparr>ls_spinlock := \<lparr>lock = v\<rparr>\<rparr>) = (f h)\<lparr>ls_spinlock := \<lparr>lock = v\<rparr>\<rparr>) \<Longrightarrow>
   upd_list l f (list_set_lock l v s) = map_option (list_set_lock l v) (upd_list l f s)"
  by (cases "lists s l") (auto simp: list_access list_set_lock_def)

lemma list_stmt_commutes:
  assumes "body \<in> list_sections l" "st \<in> set body"
  shows "st (list_set_lock l v s) = map_option (list_set_lock l v) (st s)"
proof -
  have "\<forall>st \<in> set (list_add_stmts l item). st (list_set_lock l v s) = map_option (list_set_lock l v) (st s)"
    for item
    by (cases "get_list s l") (simp_all add: list_add_stmts_def)
  moreover have "\<forall>st \<in> set (list_remove_stmts l item).
      st (list_set_lock l v s) = map_option (list_set_lock l v) (st s)" for item
    by (cases "get_list s l"; cases "get_item s item") (simp_all add: list_remove_stmts_def)
  ultimately show ?thesis using assms by (auto simp: list_sections_def)
qed

text \<open>The statements keep the lock word of the list: closure under the statement forms used.\<close>

definition keeps_lock :: "u32 \<Rightarrow> list_store stmt \<Rightarrow> bool" where
  "keeps_lock l st \<longleftrightarrow> (\<forall>s s'. st s = Some s' \<longrightarrow>
     map_option ls_spinlock (lists s' l) = map_option ls_spinlock (lists s l))"

lemma keeps_lock_upd_item: "keeps_lock l (\<lambda>s. upd_item p f s)"
  by (auto simp: keeps_lock_def list_access split: Option.bind_splits if_splits)

lemma keeps_lock_upd_list:
  "(\<And>h. ls_spinlock (f h) = ls_spinlock h) \<Longrightarrow> keeps_lock l (\<lambda>s. upd_list l f s)"
  by (auto simp: keeps_lock_def list_access split: Option.bind_splits if_splits)

lemma keeps_lock_bind:
  "(\<And>x. keeps_lock l (\<lambda>s. g x s)) \<Longrightarrow> keeps_lock l (\<lambda>s. Option.bind (f s) (\<lambda>x. g x s))"
  by (auto simp: keeps_lock_def split: Option.bind_splits)

lemma keeps_lock_if:
  "keeps_lock l (\<lambda>s. a s) \<Longrightarrow> keeps_lock l (\<lambda>s. b s) \<Longrightarrow> keeps_lock l (\<lambda>s. if c then a s else b s)"
  by (auto simp: keeps_lock_def)

lemma keeps_lock_skip: "keeps_lock l (\<lambda>s. Some s)"
  by (simp add: keeps_lock_def)

lemmas keeps_lock_intros =
  keeps_lock_upd_item keeps_lock_upd_list keeps_lock_bind keeps_lock_if keeps_lock_skip

lemma list_stmt_keeps_lock:
  "body \<in> list_sections l \<Longrightarrow> st \<in> set body \<Longrightarrow> keeps_lock l st"
proof -
  have "\<forall>st \<in> set (list_add_stmts l item). keeps_lock l st" for item
    unfolding list_add_stmts_def by (simp; intro conjI keeps_lock_intros; simp)
  moreover have "\<forall>st \<in> set (list_remove_stmts l item). keeps_lock l st" for item
    unfolding list_remove_stmts_def by (simp; intro conjI keeps_lock_intros; simp)
  ultimately show "body \<in> list_sections l \<Longrightarrow> st \<in> set body \<Longrightarrow> keeps_lock l st"
    by (auto simp: list_sections_def)
qed

lemma list_stmt_valid:
  assumes "body \<in> list_sections l" "st \<in> set body" "list_valid l s" "st s = Some s'"
  shows "list_valid l s' \<and> list_lock_of l s' = list_lock_of l s"
  using list_stmt_keeps_lock [OF assms(1,2)] assms(3,4)
  by (fastforce simp: keeps_lock_def list_valid_def list_lock_of_def)

interpretation list_lock: lock_protected "list_tas l" "list_valid l" "list_lock_of l"
  "list_set_lock l" "list_sections l" for l
proof
  fix s v assume "list_valid l s"
  then show "list_tas l v s = Some (list_lock_of l s, list_set_lock l v s)"
    by (cases "ls_spinlock (the (lists s l))")
       (auto simp: list_tas_def list_access list_valid_def list_lock_of_def list_set_lock_def
        atomic_testandset_def)
next
  fix s v assume "list_valid l s"
  then show "list_valid l (list_set_lock l v s)" "list_lock_of l (list_set_lock l v s) = v"
    by (auto simp: list_valid_def list_lock_of_def list_set_lock_def)
next
  fix s v w show "list_set_lock l v (list_set_lock l w s) = list_set_lock l v s"
    by (simp add: list_set_lock_def option.map_comp comp_def)
next
  fix s assume "list_valid l s"
  then show "list_set_lock l (list_lock_of l s) s = s"
    by (cases "the (lists s l)"; cases "ls_spinlock (the (lists s l))")
       (auto simp: list_valid_def list_lock_of_def list_set_lock_def fun_upd_idem)
qed (use list_stmt_valid list_stmt_commutes in blast)+

lemma run_adds:
  assumes "list_holds s l xs" "distinct (xs @ ps)" "0 \<notin> set ps" "\<And>p. p \<in> set ps \<Longrightarrow> items s p \<noteq> None"
  shows "\<exists>s'. run_stmts (concat (map (list_add_stmts l) ps)) s = Some s' \<and> list_holds s' l (xs @ ps)"
  using assms
proof (induction ps arbitrary: s xs)
  case (Cons p ps)
  then have p: "p \<notin> set xs" "p \<noteq> 0" "items s p \<noteq> None" by auto
  from list_add_unsafe_ok [OF Cons.prems(1) p] obtain s1 where
    s1: "run_stmts (list_add_stmts l p) s = Some s1" "list_holds s1 l (xs @ [p])"
      "list_frame s s1 {l} (insert p (set xs))"
    by (auto simp: list_add_unsafe_def)
  have "items s1 q \<noteq> None" if "q \<in> set ps" for q
  proof -
    have "map_option li_data (items s1 q) = map_option li_data (items s q)"
      using s1(3) by (simp add: list_frame_def)
    with Cons.prems(4) [of q] that show ?thesis by auto
  qed
  with Cons.IH [OF s1(2)] Cons.prems(2,3) s1(1) show ?case
    by (simp add: run_stmts_append)
qed simp

section \<open>Properties\<close>

text \<open>
  C11: the list routines implement a sequence of items. On a list at rest, \<^verbatim>\<open>list_add\<close> appends an
  item that is in no list position yet, \<^verbatim>\<open>list_remove\<close> takes out an item wherever it stands and
  clears its links, \<^verbatim>\<open>list_pickhead\<close> and \<^verbatim>\<open>list_picktail\<close> take out the first and the last
  item and return 0 on an empty list. None of them faults or blocks, the element count stays
  exact, and every other list whose items are not touched keeps its contents.
\<close>

theorem list_refines_sequence:
  assumes "list_holds s l xs"
  shows "(item \<notin> set xs \<and> item \<noteq> 0 \<and> items s item \<noteq> None \<longrightarrow>
      (\<exists>s'. list_add l item s = Some s' \<and> list_holds s' l (xs @ [item]) \<and>
        (\<forall>m ys. m \<noteq> l \<and> list_holds s m ys \<and> set ys \<inter> insert item (set xs) = {} \<longrightarrow> list_holds s' m ys))) \<and>
    (item \<in> set xs \<longrightarrow>
      (\<exists>s'. list_remove l item s = Some s' \<and> list_holds s' l (remove1 item xs) \<and>
        map_option li_next (items s' item) = Some 0 \<and> map_option li_prev (items s' item) = Some 0 \<and>
        (\<forall>m ys. m \<noteq> l \<and> list_holds s m ys \<and> set ys \<inter> set xs = {} \<longrightarrow> list_holds s' m ys))) \<and>
    (\<exists>s'. list_pickhead l s = Some (first_of xs 0, s') \<and> list_holds s' l (tl xs) \<and>
        (\<forall>m ys. m \<noteq> l \<and> list_holds s m ys \<and> set ys \<inter> set xs = {} \<longrightarrow> list_holds s' m ys)) \<and>
    (\<exists>s'. list_picktail l s = Some (last_of 0 xs, s') \<and> list_holds s' l (butlast xs) \<and>
        (\<forall>m ys. m \<noteq> l \<and> list_holds s m ys \<and> set ys \<inter> set xs = {} \<longrightarrow> list_holds s' m ys))"
proof (intro conjI impI)
  assume "item \<notin> set xs \<and> item \<noteq> 0 \<and> items s item \<noteq> None"
  with list_add_ok [OF assms] obtain s' where
    "list_add l item s = Some s'" "list_holds s' l (xs @ [item])"
    "list_frame s s' {l} (insert item (set xs))"
    by blast
  then show "\<exists>s'. list_add l item s = Some s' \<and> list_holds s' l (xs @ [item]) \<and>
      (\<forall>m ys. m \<noteq> l \<and> list_holds s m ys \<and> set ys \<inter> insert item (set xs) = {} \<longrightarrow> list_holds s' m ys)"
    using list_state_frame by (fastforce simp: Int_commute)
next
  assume "item \<in> set xs"
  then obtain as bs where split: "xs = as @ item # bs" "item \<notin> set as" by (metis split_list_first)
  from list_remove_ok [of s l as item bs] assms split(1) obtain s' where
    "list_remove l item s = Some s'" "list_holds s' l (as @ bs)" "list_frame s s' {l} (set xs)"
    "map_option li_next (items s' item) = Some 0" "map_option li_prev (items s' item) = Some 0"
    by auto
  moreover have "remove1 item xs = as @ bs" using split by (simp add: remove1_append)
  ultimately show "\<exists>s'. list_remove l item s = Some s' \<and> list_holds s' l (remove1 item xs) \<and>
      map_option li_next (items s' item) = Some 0 \<and> map_option li_prev (items s' item) = Some 0 \<and>
      (\<forall>m ys. m \<noteq> l \<and> list_holds s m ys \<and> set ys \<inter> set xs = {} \<longrightarrow> list_holds s' m ys)"
    using list_state_frame by (fastforce simp: Int_commute)
next
  have "\<exists>s'. list_pickhead l s = Some (first_of xs 0, s') \<and> list_holds s' l (tl xs) \<and>
      list_frame s s' {l} (set xs)"
    using assms list_pickhead_empty list_pickhead_ok by (cases xs) fastforce+
  then show "\<exists>s'. list_pickhead l s = Some (first_of xs 0, s') \<and> list_holds s' l (tl xs) \<and>
      (\<forall>m ys. m \<noteq> l \<and> list_holds s m ys \<and> set ys \<inter> set xs = {} \<longrightarrow> list_holds s' m ys)"
    using list_state_frame by (fastforce simp: Int_commute)
next
  have "\<exists>s'. list_picktail l s = Some (last_of 0 xs, s') \<and> list_holds s' l (butlast xs) \<and>
      list_frame s s' {l} (set xs)"
    using assms list_picktail_empty list_picktail_ok by (cases xs rule: rev_cases) fastforce+
  then show "\<exists>s'. list_picktail l s = Some (last_of 0 xs, s') \<and> list_holds s' l (butlast xs) \<and>
      (\<forall>m ys. m \<noteq> l \<and> list_holds s m ys \<and> set ys \<inter> set xs = {} \<longrightarrow> list_holds s' m ys)"
    using list_state_frame by (fastforce simp: Int_commute)
qed

text \<open>A store with one list at address 16 that holds the item 32, and two free items.\<close>

definition demo_store :: list_store where
  "demo_store = \<lparr>
     items = [32 \<mapsto> \<lparr>li_next = 0, li_prev = 0, li_data = 1\<rparr>,
              64 \<mapsto> \<lparr>li_next = 9, li_prev = 9, li_data = 2\<rparr>,
              96 \<mapsto> \<lparr>li_next = 0, li_prev = 0, li_data = 3\<rparr>],
     lists = [16 \<mapsto> \<lparr>ls_spinlock = \<lparr>lock = 0\<rparr>, ls_head = 32, ls_tail = 32, ls_count = 1\<rparr>,
              48 \<mapsto> \<lparr>ls_spinlock = \<lparr>lock = 0\<rparr>, ls_head = 0, ls_tail = 0, ls_count = 0\<rparr>]\<rparr>"

lemma demo_holds: "list_holds demo_store 16 [32]" "list_holds demo_store 48 []"
  by (simp_all add: demo_store_def list_state_def)

theorem list_refines_sequence_witness:
  "\<exists>s' s''. list_add 16 64 demo_store = Some s' \<and> list_holds s' 16 [32, 64] \<and>
     list_remove 16 32 demo_store = Some s'' \<and> list_holds s'' 16 [] \<and> list_holds s'' 48 [] \<and>
     (\<exists>s3. list_pickhead 16 demo_store = Some (32, s3) \<and> list_holds s3 48 [])"
proof -
  have "\<exists>s'. list_add 16 64 demo_store = Some s' \<and> list_holds s' 16 [32, 64]"
    using list_refines_sequence [OF demo_holds(1), of 64] by (auto simp: demo_store_def)
  moreover have "\<exists>s''. list_remove 16 32 demo_store = Some s'' \<and> list_holds s'' 16 [] \<and>
      list_holds s'' 48 []"
    using list_refines_sequence [OF demo_holds(1), of 32] demo_holds(2) by fastforce
  moreover have "\<exists>s3. list_pickhead 16 demo_store = Some (32, s3) \<and> list_holds s3 48 []"
    using list_refines_sequence [OF demo_holds(1)] demo_holds(2) by fastforce
  ultimately show ?thesis by blast
qed

text \<open>
  \<^verbatim>\<open>list_move\<close> takes an item out of one list and appends it to another one, or moves it to
  the end of its own list when both arguments are the same list. It takes two locks in the first
  case and only one in the second, so it does not block on itself.
\<close>

theorem list_move_transfers:
  assumes "list_holds s from (as @ item # bs)"
  shows "(to \<noteq> from \<and> list_holds s to ys \<and> set ys \<inter> set (as @ item # bs) = {} \<longrightarrow>
      (\<exists>s'. list_move to from item s = Some s' \<and> list_holds s' from (as @ bs) \<and>
        list_holds s' to (ys @ [item]))) \<and>
    (\<exists>s'. list_move from from item s = Some s' \<and> list_holds s' from (as @ bs @ [item]))"
  using list_move_other_ok [OF assms] list_move_same_ok [OF assms] by blast

theorem list_move_transfers_witness:
  "\<exists>s'. list_move 48 16 32 demo_store = Some s' \<and> list_holds s' 16 [] \<and> list_holds s' 48 [32]"
  using list_move_transfers [of demo_store 16 "[]" 32 "[]" 48 "[]"] demo_holds by simp

text \<open>
  C27: threads that call \<^verbatim>\<open>list_add\<close> and \<^verbatim>\<open>list_remove\<close> on one list, with their statements
  interleaved in any way, are never inside the critical section together; and whenever nobody is
  inside, any thread spinning in \<^verbatim>\<open>spinlock_acquire\<close> enters with its next test-and-set.
\<close>

theorem list_threads_exclusive:
  assumes "lock_reach (list_tas l) (list_sections l) s0 c" and "list_holds s0 l xs"
  shows "(\<forall>t u. inside (pcs c t) \<and> inside (pcs c u) \<longrightarrow> t = u) \<and>
    (\<forall>t body. (\<forall>u. \<not> inside (pcs c u)) \<and> pcs c t = Spinning body \<longrightarrow>
      (\<exists>c'. lock_step (list_tas l) (list_sections l) c c' \<and> pcs c' t = Inside body))"
proof -
  have "list_valid l s0" "list_lock_of l s0 = 0"
    using assms(2) by (simp_all add: list_state_def list_valid_def list_lock_of_def)
  then show ?thesis
    using list_lock.mutual_exclusion [OF assms(1)] list_lock.waiting_thread_can_enter [OF assms(1)]
    by (auto simp: inside_iff)
qed

lemma demo_call:
  "lock_reach (list_tas 16) (list_sections 16) demo_store
     ((lock_start demo_store)\<lparr>pcs := (\<lambda>t. Outside)(0 := Spinning (list_add_stmts 16 64))\<rparr>)"
  using lock_reach.more [OF lock_reach.start lock_step.call [of "lock_start demo_store" 0
      "list_add_stmts 16 64" "list_sections 16" "list_tas 16"]]
  by (simp add: lock_start_def list_sections_def)

theorem list_threads_exclusive_witness:
  "\<exists>c'. lock_step (list_tas 16) (list_sections 16)
      ((lock_start demo_store)\<lparr>pcs := (\<lambda>t. Outside)(0 := Spinning (list_add_stmts 16 64))\<rparr>) c' \<and>
     pcs c' 0 = Inside (list_add_stmts 16 64)"
  using list_threads_exclusive [OF demo_call demo_holds(1)] by simp

text \<open>
  C3: concurrent additions are serialised. If threads have called \<^verbatim>\<open>list_add\<close> for the items
  \<open>ps\<close>, listed in the order in which they took the lock, then whenever the lock is free the list
  is well formed and holds its old contents followed by exactly \<open>ps\<close>: no interleaving of the
  assignments loses or corrupts an item.
\<close>

theorem list_concurrent_adds:
  assumes "lock_reach (list_tas l) (list_sections l) s0 c" and "list_holds s0 l xs"
    and "entered c = map (list_add_stmts l) ps" and "distinct (xs @ ps)" and "0 \<notin> set ps"
    and "\<forall>p \<in> set ps. items s0 p \<noteq> None" and "list_lock_of l (shared c) = 0"
  shows "list_holds (shared c) l (xs @ ps)"
proof -
  have "list_valid l s0" "list_lock_of l s0 = 0"
    using assms(2) by (simp_all add: list_state_def list_valid_def list_lock_of_def)
  from list_lock.sections_serialised [OF assms(1) this assms(7)]
  have "run_stmts (concat (map (list_add_stmts l) ps)) s0 = Some (shared c)"
    by (simp add: assms(3))
  with run_adds [OF assms(2,4,5)] assms(6) show ?thesis by fastforce
qed

theorem list_concurrent_adds_witness:
  "\<exists>c. lock_reach (list_tas 16) (list_sections 16) demo_store c \<and>
     entered c = [list_add_stmts 16 96, list_add_stmts 16 64] \<and>
     list_holds (shared c) 16 [32, 96, 64]"
proof -
  note demo_holds(1) [unfolded list_state_def]
  then have s0: "list_valid 16 demo_store" "list_lock_of 16 demo_store = 0"
    by (simp_all add: list_valid_def list_lock_of_def)
  have it: "items demo_store 96 \<noteq> None" "items demo_store 64 \<noteq> None"
    by (simp_all add: demo_store_def)
  from run_adds [OF demo_holds(1), of "[96]"] it obtain s1 where
    s1: "run_stmts (list_add_stmts 16 96) demo_store = Some s1" by auto
  from run_adds [OF demo_holds(1), of "[96, 64]"] it s1 obtain s2 where
    s2: "run_stmts (list_add_stmts 16 64) s1 = Some s2" "list_holds s2 16 [32, 96, 64]"
    by (auto simp: run_stmts_append)
  have sec: "list_add_stmts 16 p \<in> list_sections 16" for p by (simp add: list_sections_def)
  have "lock_reach (list_tas 16) (list_sections 16) demo_store
      \<lparr>shared = s1, pcs = \<lambda>t. Outside, entered = [list_add_stmts 16 96]\<rparr>"
    using list_lock.section_can_complete [OF lock_reach.start s0 _ _ sec, of 0 96] s1
    by (simp add: lock_start_def)
  from list_lock.section_can_complete [OF this s0 _ _ sec, of 1 64] s2
  have r: "lock_reach (list_tas 16) (list_sections 16) demo_store
      \<lparr>shared = s2, pcs = \<lambda>t. Outside, entered = [list_add_stmts 16 96, list_add_stmts 16 64]\<rparr>"
    by simp
  have "list_lock_of 16 s2 = 0" using s2(2) by (simp add: list_state_def list_lock_of_def)
  with list_concurrent_adds [OF r demo_holds(1), of "[96, 64]"] it r show ?thesis by fastforce
qed

end
