(* ===== verification/Libz_Cstring.thy ===== *)
theory Libz_Cstring
  imports Libz_Buffer "HOL-Library.Signed_Division"
begin

text \<open>
  \<^verbatim>\<open>libz/fudge/cstring.c\<close>: NUL-terminated strings, number conversion and the formatted writer.
  A \<^verbatim>\<open>char\<close> is a byte, and signed where the code compares characters. A value of type \<^verbatim>\<open>int\<close>
  that the code divides is an \<^typ>\<open>int\<close>, divided with C's truncating division.
\<close>

section \<open>String literals\<close>

definition cstr :: "string \<Rightarrow> u8 list" where
  "cstr s = map of_char s"

definition ch :: "char \<Rightarrow> u8" where
  "ch c = of_char c"

text \<open>The bytes before the terminating NUL.\<close>

definition c_string :: "u8 list \<Rightarrow> u8 list" where
  "c_string xs = takeWhile (\<lambda>b. b \<noteq> 0) xs"

section \<open>Conversion of a number\<close>

definition digit_table :: "u8 list" where
  "digit_table =
     cstr ''zyxwvutsrqponmlkjihgfedcba9876543210123456789abcdefghijklmnopqrstuvwxyz''"

text \<open>Division by zero and the quotient that does not fit an \<^verbatim>\<open>int\<close> are undefined.\<close>

definition int_div_ok :: "int \<Rightarrow> int \<Rightarrow> bool" where
  "int_div_ok n d \<longleftrightarrow> d \<noteq> 0 \<and> \<not> (n = -2147483648 \<and> d = -1)"

definition rd_int :: "'a list \<Rightarrow> int \<Rightarrow> 'a option" where
  "rd_int xs i = (if i < 0 then None else rd xs (nat i))"

text \<open>
  The digit loop of \<^verbatim>\<open>writevalue\<close>: \<open>cur\<close> is the index of the pointer \<^verbatim>\<open>current\<close> in \<^verbatim>\<open>out\<close>. The
  result has the object, the counter \<^verbatim>\<open>i\<close> and the final \<^verbatim>\<open>current\<close>.
\<close>

function writevalue_loop ::
  "u8 list \<Rightarrow> u32 \<Rightarrow> int \<Rightarrow> u32 \<Rightarrow> u32 \<Rightarrow> int \<Rightarrow> nat \<Rightarrow> (u8 list \<times> u32 \<times> nat) option" where
  "writevalue_loop out count b padding i num cur =
     (if i < count then
        if int_div_ok num b then
          do { c \<leftarrow> rd_int digit_table (35 + num smod b);
               out' \<leftarrow> wr out cur c;
               let num' = num sdiv b in
               if num' = 0 \<and> i \<ge> padding then Some (out', i, Suc cur)
               else writevalue_loop out' count b padding (i + 1) num' (Suc cur) }
        else None
      else Some (out, i, cur))"
  by pat_completeness auto
termination
  by (relation "measure (\<lambda>(out, count, b, padding, i, num, cur). unat count - unat i)")
     (auto simp: counter_decreases)

declare writevalue_loop.simps [simp del]

text \<open>The reversal in place, from the indices of \<^verbatim>\<open>out\<close> and \<^verbatim>\<open>current\<close>.\<close>

function writevalue_reverse :: "u8 list \<Rightarrow> nat \<Rightarrow> nat \<Rightarrow> u8 list option" where
  "writevalue_reverse out lo hi =
     (if lo < hi then
        do { c \<leftarrow> rd out hi; d \<leftarrow> rd out lo;
             out' \<leftarrow> wr out hi d; out'' \<leftarrow> wr out' lo c;
             writevalue_reverse out'' (Suc lo) (hi - 1) }
      else Some out)"
  by pat_completeness auto
termination
  by (relation "measure (\<lambda>(out, lo, hi). hi - lo)") auto

declare writevalue_reverse.simps [simp del]

text \<open>
  The last step \<^verbatim>\<open>current--\<close> from the start of the object gives a pointer that is only compared;
  index 0 compares the same way.
\<close>

definition writevalue :: "u8 list \<Rightarrow> u32 \<Rightarrow> u32 \<Rightarrow> u32 \<Rightarrow> u32 \<Rightarrow> (u32 \<times> u8 list) option" where
  "writevalue out count value base padding =
     do { (out, i, cur) \<leftarrow> writevalue_loop out count (sint base) padding 1 (sint value) 0;
          (out, i, cur) \<leftarrow>
            (if sint value < 0 then do { out \<leftarrow> wr out cur (ch CHR ''-''); Some (out, i + 1, Suc cur) }
             else Some (out, i, cur));
          out \<leftarrow> writevalue_reverse out 0 (cur - 1);
          Some (i, out) }"

section \<open>Strings\<close>

primrec cstring_length_loop :: "u8 list \<Rightarrow> u32 \<Rightarrow> u32 option" where
  "cstring_length_loop [] len = None"
| "cstring_length_loop (b # bs) len =
     (if b \<noteq> 0 then cstring_length_loop bs (len + 1) else Some len)"

definition cstring_length :: "u8 list \<Rightarrow> u32 option" where
  "cstring_length inp = cstring_length_loop inp 0"

definition cstring_length_zero :: "u8 list \<Rightarrow> u32 option" where
  "cstring_length_zero inp = do { n \<leftarrow> cstring_length inp; Some (n + 1) }"

definition cstring_match :: "u8 list \<Rightarrow> u8 list \<Rightarrow> u32 option" where
  "cstring_match in1 in2 =
     do { n1 \<leftarrow> cstring_length_zero in1; n2 \<leftarrow> cstring_length_zero in2;
          buffer_match in1 in2 (if n1 < n2 then n1 else n2) }"

definition cstring_match_substring :: "u8 list \<Rightarrow> u8 list \<Rightarrow> u32 option" where
  "cstring_match_substring in1 in2 =
     do { n1 \<leftarrow> cstring_length_zero in1; n2 \<leftarrow> cstring_length in2;
          if n2 < n1 then buffer_match in1 in2 n2 else Some 0 }"

definition cstring_isspace :: "u8 \<Rightarrow> u32" where
  "cstring_isspace c = (if c = ch CHR '' '' then 1 else 0)"

definition cstring_isalpha :: "u8 \<Rightarrow> u32" where
  "cstring_isalpha c =
     (if sint c \<ge> sint (ch CHR ''a'') \<and> sint c \<le> sint (ch CHR ''z'') then 1
      else if sint c \<ge> sint (ch CHR ''A'') \<and> sint c \<le> sint (ch CHR ''Z'') then 1 else 0)"

definition cstring_isdigit :: "u8 \<Rightarrow> u32" where
  "cstring_isdigit c =
     (if sint c \<ge> sint (ch CHR ''0'') \<and> sint c \<le> sint (ch CHR ''9'') then 1 else 0)"

definition cstring_toint :: "u8 \<Rightarrow> u32" where
  "cstring_toint c =
     (if sint c \<ge> sint (ch CHR ''a'') then word_of_int (sint c - sint (ch CHR ''a'') + 10)
      else if sint c \<ge> sint (ch CHR ''A'') then word_of_int (sint c - sint (ch CHR ''A'') + 10)
      else if sint c \<ge> sint (ch CHR ''0'') then word_of_int (sint c - sint (ch CHR ''0''))
      else 0)"

function cstring_read_value_loop :: "u8 list \<Rightarrow> u32 \<Rightarrow> u32 \<Rightarrow> u32 \<Rightarrow> u32 \<Rightarrow> u32 option" where
  "cstring_read_value_loop inp count base i value =
     (if i < count then
        do { c \<leftarrow> rd inp (unat i);
             cstring_read_value_loop inp count base (i + 1) (value * base + cstring_toint c) }
      else Some value)"
  by pat_completeness auto
termination
  by (relation "measure (\<lambda>(inp, count, base, i, value). unat count - unat i)")
     (auto simp: counter_decreases)

declare cstring_read_value_loop.simps [simp del]

definition cstring_read_value :: "u8 list \<Rightarrow> u32 \<Rightarrow> u32 \<Rightarrow> u32 option" where
  "cstring_read_value inp count base = cstring_read_value_loop inp count base 0 0"

definition cstring_write :: "u8 list \<Rightarrow> u32 \<Rightarrow> u8 list \<Rightarrow> u32 \<Rightarrow> (u32 \<times> u8 list) option" where
  "cstring_write out count inp offset =
     do { n \<leftarrow> cstring_length inp; buffer_write out 0 count inp n offset }"

definition cstring_write_zero :: "u8 list \<Rightarrow> u32 \<Rightarrow> u32 \<Rightarrow> (u32 \<times> u8 list) option" where
  "cstring_write_zero out count offset =
     (if offset < count then do { out' \<leftarrow> wr out (unat offset) 0; Some (1, out') }
      else do { out' \<leftarrow> wr out (unat (count - 1)) 0; Some (0, out') })"

text \<open>The local array \<^verbatim>\<open>num\<close> of 64 bytes is not initialised: its first contents are an argument.\<close>

definition cstring_write_value ::
  "u8 list \<Rightarrow> u8 list \<Rightarrow> u32 \<Rightarrow> u32 \<Rightarrow> u32 \<Rightarrow> u32 \<Rightarrow> u32 \<Rightarrow> (u32 \<times> u8 list) option" where
  "cstring_write_value num out count value base padding offset =
     do { (n, num') \<leftarrow> writevalue num 64 value base padding;
          buffer_write out 0 count num' n offset }"

section \<open>The formatted writer\<close>

record fmt_ctl =
  f_escaped :: bool
  f_interpreted :: bool
  f_cargs :: u32
  f_base :: u32
  f_padding :: u32
  f_isunsigned :: bool

record fmt_state = fmt_ctl +
  fout :: "u8 list"
  fnum :: "u8 list"
  f_offset :: u32

text \<open>Little-endian reads of an object of two and four bytes.\<close>

definition load16 :: "u8 list \<Rightarrow> u16 option" where
  "load16 p = do { a \<leftarrow> rd p 0; b \<leftarrow> rd p 1; Some (ucast a OR push_bit 8 (ucast b)) }"

definition load32 :: "u8 list \<Rightarrow> u32 option" where
  "load32 p =
     do { a \<leftarrow> rd p 0; b \<leftarrow> rd p 1; c \<leftarrow> rd p 2; d \<leftarrow> rd p 3;
          Some (ucast a OR push_bit 8 (ucast b) OR push_bit 16 (ucast c) OR push_bit 24 (ucast d)) }"

text \<open>The end of a conversion.\<close>

definition fmt_done :: "fmt_state \<Rightarrow> fmt_state" where
  "fmt_done st = st\<lparr>f_interpreted := False, f_padding := 0, f_base := 10\<rparr>"

definition fmt_put :: "u32 \<Rightarrow> u8 list \<Rightarrow> u32 \<Rightarrow> fmt_state \<Rightarrow> fmt_state option" where
  "fmt_put count inp n st =
     do { (k, out) \<leftarrow> buffer_write (fout st) 0 count inp n (f_offset st);
          Some (st\<lparr>fout := out, f_offset := f_offset st + k\<rparr>) }"

definition fmt_number :: "u32 \<Rightarrow> u32 \<Rightarrow> fmt_state \<Rightarrow> fmt_state option" where
  "fmt_number count value st =
     do { (n, num) \<leftarrow> writevalue (fnum st) 64 value (f_base st) (f_padding st);
          st \<leftarrow> fmt_put count num n (st\<lparr>fnum := num\<rparr>);
          Some (fmt_done st) }"

text \<open>The next argument pointer, \<^verbatim>\<open>args[cargs++]\<close>: the bytes of the object it points to.\<close>

definition fmt_arg :: "u8 list list \<Rightarrow> fmt_state \<Rightarrow> (u8 list \<times> fmt_state) option" where
  "fmt_arg args st =
     do { p \<leftarrow> rd args (unat (f_cargs st)); Some (p, st\<lparr>f_cargs := f_cargs st + 1\<rparr>) }"

definition fmt_escaped :: "u32 \<Rightarrow> u8 \<Rightarrow> fmt_state \<Rightarrow> fmt_state option" where
  "fmt_escaped count q st =
     do { st \<leftarrow> (if q = ch CHR ''0'' then fmt_put count [0] 1 st else Some st);
          Some (st\<lparr>f_escaped := False\<rparr>) }"

definition fmt_interpreted :: "u32 \<Rightarrow> u8 list list \<Rightarrow> u8 \<Rightarrow> fmt_state \<Rightarrow> fmt_state option" where
  "fmt_interpreted count args q st =
     (if q = ch CHR ''0'' then Some (st\<lparr>f_padding := 0\<rparr>)
      else if q = ch CHR ''1'' then Some (st\<lparr>f_padding := 1\<rparr>)
      else if q = ch CHR ''2'' then Some (st\<lparr>f_padding := 2\<rparr>)
      else if q = ch CHR ''4'' then Some (st\<lparr>f_padding := 4\<rparr>)
      else if q = ch CHR ''8'' then Some (st\<lparr>f_padding := 8\<rparr>)
      else if q = ch CHR ''>'' then Some (st\<lparr>f_padding := drop_bit 1 (f_padding st)\<rparr>)
      else if q = ch CHR ''<'' then Some (st\<lparr>f_padding := push_bit 1 (f_padding st)\<rparr>)
      else if q = ch CHR ''B'' then Some (st\<lparr>f_base := 2\<rparr>)
      else if q = ch CHR ''O'' then Some (st\<lparr>f_base := 8\<rparr>)
      else if q = ch CHR ''D'' then Some (st\<lparr>f_base := 10\<rparr>)
      else if q = ch CHR ''H'' then Some (st\<lparr>f_base := 16\<rparr>)
      else if q = ch CHR ''-'' then Some (st\<lparr>f_isunsigned := False\<rparr>)
      else if q = ch CHR ''+'' then Some (st\<lparr>f_isunsigned := True\<rparr>)
      else if q = ch CHR ''c'' then
        do { (p, st) \<leftarrow> fmt_arg args st; v \<leftarrow> rd p 0;
             fmt_number count (if f_isunsigned st then ucast v else scast v) st }
      else if q = ch CHR ''h'' then
        do { (p, st) \<leftarrow> fmt_arg args st; v \<leftarrow> load16 p;
             fmt_number count (if f_isunsigned st then ucast v else scast v) st }
      else if q = ch CHR ''u'' then
        do { (p, st) \<leftarrow> fmt_arg args st; v \<leftarrow> load32 p; fmt_number count v st }
      else if q = ch CHR ''i'' then
        do { (p, st) \<leftarrow> fmt_arg args st; v \<leftarrow> load32 p; fmt_number count v st }
      else if q = ch CHR ''s'' then
        do { (p, st) \<leftarrow> fmt_arg args st; n \<leftarrow> cstring_length p;
             st \<leftarrow> fmt_put count p n st; Some (fmt_done st) }
      else if q = ch CHR ''w'' then
        do { (p, st) \<leftarrow> fmt_arg args st; (m, st) \<leftarrow> fmt_arg args st; n \<leftarrow> load32 m;
             st \<leftarrow> fmt_put count p n st; Some (fmt_done st) }
      else Some (fmt_done st))"

definition fmt_literal :: "u32 \<Rightarrow> u8 \<Rightarrow> fmt_state \<Rightarrow> fmt_state option" where
  "fmt_literal count q st =
     (if q = ch CHR ''%'' then Some (st\<lparr>f_interpreted := True\<rparr>)
      else if q = 92 then Some (st\<lparr>f_escaped := True\<rparr>)
      else fmt_put count [q] 1 st)"

definition fmt_char :: "u32 \<Rightarrow> u8 list list \<Rightarrow> u8 \<Rightarrow> fmt_state \<Rightarrow> fmt_state option" where
  "fmt_char count args q st =
     (if f_escaped st then fmt_escaped count q st
      else if f_interpreted st then fmt_interpreted count args q st
      else fmt_literal count q st)"

function fmt_loop :: "u32 \<Rightarrow> u8 list \<Rightarrow> u32 \<Rightarrow> u8 list list \<Rightarrow> u32 \<Rightarrow> fmt_state \<Rightarrow> fmt_state option" where
  "fmt_loop count fmt len args i st =
     (if i < len then
        do { q \<leftarrow> rd fmt (unat i); st' \<leftarrow> fmt_char count args q st;
             fmt_loop count fmt len args (i + 1) st' }
      else Some st)"
  by pat_completeness auto
termination
  by (relation "measure (\<lambda>(count, fmt, len, args, i, st). unat len - unat i)")
     (auto simp: counter_decreases)

declare fmt_loop.simps [simp del]

definition fmt_start :: "u8 list \<Rightarrow> u8 list \<Rightarrow> u32 \<Rightarrow> fmt_state" where
  "fmt_start num out start =
     \<lparr>f_escaped = False, f_interpreted = False, f_cargs = 0, f_base = 10, f_padding = 0, f_isunsigned = True,
      fout = out, fnum = num, f_offset = start\<rparr>"

definition cstring_write_fmt ::
  "u8 list \<Rightarrow> u8 list \<Rightarrow> u32 \<Rightarrow> u8 list \<Rightarrow> u8 list list \<Rightarrow> u32 \<Rightarrow> (u32 \<times> u8 list) option" where
  "cstring_write_fmt num out count fmt args start =
     do { len \<leftarrow> cstring_length fmt;
          st \<leftarrow> fmt_loop count fmt len args 0 (fmt_start num out start);
          Some (f_offset st - start, fout st) }"

definition cstring_write_fmt0 :: "u8 list \<Rightarrow> u8 list \<Rightarrow> u32 \<Rightarrow> u8 list \<Rightarrow> u32 \<Rightarrow> (u32 \<times> u8 list) option" where
  "cstring_write_fmt0 num out count fmt start = cstring_write_fmt num out count fmt [] start"

definition cstring_write_fmt1 ::
  "u8 list \<Rightarrow> u8 list \<Rightarrow> u32 \<Rightarrow> u8 list \<Rightarrow> u32 \<Rightarrow> u8 list \<Rightarrow> (u32 \<times> u8 list) option" where
  "cstring_write_fmt1 num out count fmt start arg1 = cstring_write_fmt num out count fmt [arg1] start"

definition cstring_write_fmt2 ::
  "u8 list \<Rightarrow> u8 list \<Rightarrow> u32 \<Rightarrow> u8 list \<Rightarrow> u32 \<Rightarrow> u8 list \<Rightarrow> u8 list \<Rightarrow> (u32 \<times> u8 list) option" where
  "cstring_write_fmt2 num out count fmt start arg1 arg2 =
     cstring_write_fmt num out count fmt [arg1, arg2] start"

definition cstring_write_fmt3 ::
  "u8 list \<Rightarrow> u8 list \<Rightarrow> u32 \<Rightarrow> u8 list \<Rightarrow> u32 \<Rightarrow> u8 list \<Rightarrow> u8 list \<Rightarrow> u8 list \<Rightarrow>
   (u32 \<times> u8 list) option" where
  "cstring_write_fmt3 num out count fmt start arg1 arg2 arg3 =
     cstring_write_fmt num out count fmt [arg1, arg2, arg3] start"

definition cstring_write_fmt4 ::
  "u8 list \<Rightarrow> u8 list \<Rightarrow> u32 \<Rightarrow> u8 list \<Rightarrow> u32 \<Rightarrow> u8 list \<Rightarrow> u8 list \<Rightarrow> u8 list \<Rightarrow> u8 list \<Rightarrow>
   (u32 \<times> u8 list) option" where
  "cstring_write_fmt4 num out count fmt start arg1 arg2 arg3 arg4 =
     cstring_write_fmt num out count fmt [arg1, arg2, arg3, arg4] start"

definition cstring_write_fmt6 ::
  "u8 list \<Rightarrow> u8 list \<Rightarrow> u32 \<Rightarrow> u8 list \<Rightarrow> u32 \<Rightarrow> u8 list \<Rightarrow> u8 list \<Rightarrow> u8 list \<Rightarrow> u8 list \<Rightarrow>
   u8 list \<Rightarrow> u8 list \<Rightarrow> (u32 \<times> u8 list) option" where
  "cstring_write_fmt6 num out count fmt start arg1 arg2 arg3 arg4 arg5 arg6 =
     cstring_write_fmt num out count fmt [arg1, arg2, arg3, arg4, arg5, arg6] start"

definition cstring_write_fmt8 ::
  "u8 list \<Rightarrow> u8 list \<Rightarrow> u32 \<Rightarrow> u8 list \<Rightarrow> u32 \<Rightarrow> u8 list \<Rightarrow> u8 list \<Rightarrow> u8 list \<Rightarrow> u8 list \<Rightarrow>
   u8 list \<Rightarrow> u8 list \<Rightarrow> u8 list \<Rightarrow> u8 list \<Rightarrow> (u32 \<times> u8 list) option" where
  "cstring_write_fmt8 num out count fmt start arg1 arg2 arg3 arg4 arg5 arg6 arg7 arg8 =
     cstring_write_fmt num out count fmt [arg1, arg2, arg3, arg4, arg5, arg6, arg7, arg8] start"

section \<open>What \<^verbatim>\<open>writevalue\<close> writes\<close>

text \<open>
  The digits of a number, least significant first and padded with zeros to the width \<open>pad\<close>, and
  the text of a signed value.
\<close>

function digits :: "nat \<Rightarrow> nat \<Rightarrow> nat \<Rightarrow> nat list" where
  "digits b pad n =
     n mod b # (if b < 2 \<or> n div b = 0 \<and> pad \<le> 1 then [] else digits b (pad - 1) (n div b))"
  by pat_completeness auto
termination
proof (relation "measure (\<lambda>(b, pad, n). n + pad)")
  fix b pad n :: nat assume *: "\<not> (b < 2 \<or> n div b = 0 \<and> pad \<le> 1)"
  show "((b, pad - 1, n div b), b, pad, n) \<in> measure (\<lambda>(b, pad, n). n + pad)"
  proof (cases "n div b = 0")
    case False
    then have "0 < n" by (cases n) auto
    with * have "n div b < n" by (intro div_less_dividend) auto
    then show ?thesis by auto
  qed (use * in auto)
qed simp

declare digits.simps [simp del]

definition digit_char :: "nat \<Rightarrow> u8" where
  "digit_char d = digit_table ! (35 + d)"

definition number_text :: "int \<Rightarrow> nat \<Rightarrow> int \<Rightarrow> u8 list" where
  "number_text b pad v =
     (if v < 0 then [ch CHR ''-''] else []) @ map digit_char (rev (digits (nat b) pad (nat \<bar>v\<bar>)))"

lemma digits_stop: "n div b = 0 \<Longrightarrow> pad \<le> 1 \<Longrightarrow> digits b pad n = [n mod b]"
  by (subst digits.simps) auto

lemma digits_more:
  assumes "2 \<le> b" "\<not> (n div b = 0 \<and> pad \<le> 1)"
  shows "digits b pad n = n mod b # digits b (pad - 1) (n div b)"
proof -
  from assms have "\<not> (b < 2 \<or> n div b = 0 \<and> pad \<le> 1)" by simp
  then show ?thesis by (subst digits.simps) (simp only: if_False)
qed

lemma digits_less: "2 \<le> b \<Longrightarrow> d \<in> set (digits b pad n) \<Longrightarrow> d < b"
proof (induction b pad n rule: digits.induct)
  case (1 b pad n)
  show ?case
  proof (cases "n div b = 0 \<and> pad \<le> 1")
    case True
    with "1.prems" show ?thesis by (simp add: digits_stop)
  next
    case False
    with 1 show ?thesis by (auto simp: digits_more [OF "1.prems"(1) False])
  qed
qed

lemma digits_value:
  "2 \<le> b \<Longrightarrow> foldl (\<lambda>v d. v * b + d) 0 (rev (digits b pad n)) = n"
proof (induction b pad n rule: digits.induct)
  case (1 b pad n)
  show ?case
  proof (cases "n div b = 0 \<and> pad \<le> 1")
    case True
    with 1 show ?thesis by (subst digits.simps) (auto simp: div_eq_0_iff)
  next
    case False
    with 1 have "foldl (\<lambda>v d. v * b + d) 0 (rev (digits b (pad - 1) (n div b))) = n div b" by auto
    with False "1.prems" show ?thesis by (subst digits.simps) auto
  qed
qed

lemma digits_length: "2 \<le> b \<Longrightarrow> n < 2 ^ k \<Longrightarrow> 0 < k \<Longrightarrow> length (digits b pad n) \<le> max pad k"
proof (induction b pad n arbitrary: k rule: digits.induct)
  case (1 b pad n)
  show ?case
  proof (cases "n div b = 0 \<and> pad \<le> 1")
    case True
    with 1 show ?thesis by (subst digits.simps) auto
  next
    case False
    show ?thesis
    proof (cases "n div b = 0")
      case True
      with False "1.prems" have "length (digits b (pad - 1) 0) \<le> max (pad - 1) 1"
        using "1.IH" [of 1] by auto
      with True False "1.prems" show ?thesis by (subst digits.simps) auto
    next
      case nz: False
      then have "k \<noteq> 1" using "1.prems" by (metis div_less less_le_trans power_one_right)
      then have k: "0 < k - 1" using "1.prems" by simp
      have "n div b \<le> n div 2" using "1.prems" by (simp add: div_le_mono2)
      also have "\<dots> < 2 ^ (k - 1)"
        using "1.prems" by (metis Suc_diff_1 less_mult_imp_div_less power_Suc2)
      finally have "length (digits b (pad - 1) (n div b)) \<le> max (pad - 1) (k - 1)"
        using "1.IH" "1.prems" False k by auto
      with nz k "1.prems" show ?thesis by (subst digits.simps) auto
    qed
  qed
qed

lemma digits_nonempty [simp]: "digits b pad n \<noteq> []"
  by (subst digits.simps) simp

lemma digits_length_pos: "0 < length (digits b pad n)"
  by simp

lemma digits_pad: "2 \<le> b \<Longrightarrow> pad \<le> length (digits b pad n)"
proof (induction b pad n rule: digits.induct)
  case (1 b pad n)
  then show ?case by (subst digits.simps) auto
qed

text \<open>The table is symmetric around its middle, so a negative remainder gives the same digit.\<close>

lemma digit_table_length [simp]: "length digit_table = 71"
  by (simp add: digit_table_def cstr_def)

lemma digit_table_mirror: "k \<le> 35 \<Longrightarrow> digit_table ! (35 - k) = digit_table ! (35 + k)"
proof -
  have "list_all (\<lambda>k. digit_table ! (35 - k) = digit_table ! (35 + k)) [0..<36]"
    by (simp add: digit_table_def cstr_def upt_rec)
  then show "k \<le> 35 \<Longrightarrow> digit_table ! (35 - k) = digit_table ! (35 + k)"
    by (simp add: list_all_iff)
qed

lemma toint_digit: "d < 36 \<Longrightarrow> cstring_toint (digit_char d) = of_nat d"
proof -
  have "list_all (\<lambda>d. cstring_toint (digit_char d) = of_nat d) [0..<36]"
    by (simp add: cstring_toint_def digit_char_def digit_table_def cstr_def upt_rec ch_def)
  then show "d < 36 \<Longrightarrow> cstring_toint (digit_char d) = of_nat d"
    by (simp add: list_all_iff)
qed

lemma smod_nat:
  assumes "0 < b"
  shows "num smod b = (if num < 0 then - int (nat \<bar>num\<bar> mod nat b) else int (nat \<bar>num\<bar> mod nat b))"
proof -
  have "num smod b = sgn num * (\<bar>num\<bar> mod b)" using assms by (simp add: signed_modulo_int_def)
  also have "\<bar>num\<bar> mod b = int (nat \<bar>num\<bar> mod nat b)" using assms by (simp add: zmod_int)
  finally show ?thesis by (simp add: sgn_if)
qed

lemma sdiv_nat:
  assumes "0 < b"
  shows "nat \<bar>num sdiv b\<bar> = nat \<bar>num\<bar> div nat b"
proof -
  have "0 \<le> \<bar>num\<bar> div b" using assms by (simp add: pos_imp_zdiv_nonneg_iff)
  moreover have "num sdiv b = sgn num * (\<bar>num\<bar> div b)"
    using assms by (simp add: signed_divide_int_def)
  ultimately have "\<bar>num sdiv b\<bar> = \<bar>num\<bar> div b"
    by (cases "num = 0") (simp_all add: abs_mult)
  then show ?thesis by (simp add: nat_div_distrib)
qed

lemma digit_lookup:
  assumes "2 \<le> b" "b \<le> 36"
  shows "rd_int digit_table (35 + num smod b) = Some (digit_char (nat \<bar>num\<bar> mod nat b))"
proof -
  define d where "d = nat \<bar>num\<bar> mod nat b"
  have "d < nat b" unfolding d_def using assms by (intro mod_less_divisor) auto
  then have d: "d \<le> 35" using assms by linarith
  have "num smod b = int d \<or> num smod b = - int d"
    using smod_nat [of b num] assms by (auto simp: d_def)
  then show ?thesis
  proof
    assume "num smod b = int d"
    then show ?thesis using d by (simp add: rd_int_def digit_char_def d_def [symmetric] nat_add_distrib)
  next
    assume m: "num smod b = - int d"
    have "nat (35 - int d) = 35 - d" using d by linarith
    with m d digit_table_mirror [OF d] show ?thesis
      by (simp add: rd_int_def digit_char_def d_def [symmetric])
  qed
qed

lemma writevalue_loop_ok:
  assumes "2 \<le> b" "b \<le> 36" "1 \<le> unat i"
    and "unat i + length (digits (nat b) (unat padding - (unat i - 1)) (nat \<bar>num\<bar>)) \<le> unat count"
    and "cur + length (digits (nat b) (unat padding - (unat i - 1)) (nat \<bar>num\<bar>)) \<le> length out"
  shows "writevalue_loop out count b padding i num cur =
    (let ds = digits (nat b) (unat padding - (unat i - 1)) (nat \<bar>num\<bar>) in
     Some (blit out cur (map digit_char ds), i + of_nat (length ds - 1), cur + length ds))"
  using assms
proof (induction out count b padding i num cur rule: writevalue_loop.induct)
  case (1 out count b padding i num cur)
  define n where "n = nat \<bar>num\<bar>"
  define p where "p = unat padding - (unat i - 1)"
  have b2: "2 \<le> nat b" and b0: "0 < b" using "1.prems" by auto
  have room: "unat i + length (digits (nat b) p n) \<le> unat count"
    "cur + length (digits (nat b) p n) \<le> length out"
    using "1.prems"(4,5) unfolding n_def p_def .
  have pos: "1 \<le> length (digits (nat b) p n)" 
    by (metis One_nat_def Suc_leI digits_length_pos)
  have lt: "i < count" using "1.prems" pos by (simp add: n_def p_def word_less_nat_alt)
  have cur: "cur < length out" using "1.prems" pos by (simp add: n_def p_def)
  have ok: "int_div_ok num b" using "1.prems" by (simp add: int_div_ok_def)
  have dig: "rd_int digit_table (35 + num smod b) = Some (digit_char (n mod nat b))"
    using digit_lookup "1.prems" by (simp add: n_def)
  have quo: "nat \<bar>num sdiv b\<bar> = n div nat b" using sdiv_nat [OF b0] by (simp add: n_def)
  have stop: "num sdiv b = 0 \<and> i \<ge> padding \<longleftrightarrow> n div nat b = 0 \<and> p \<le> 1"
    using "1.prems"(3) unfolding quo [symmetric] p_def by (auto simp: word_le_nat_alt)
  show ?case
  proof (cases "n div nat b = 0 \<and> p \<le> 1")
    case True
    then have "digits (nat b) p n = [n mod nat b]" by (simp add: digits_stop)
    with True stop lt cur ok dig show ?thesis
      by (simp add: writevalue_loop.simps [of out count b padding i num cur] n_def p_def blit_single)
  next
    case False
    let ?out = "out[cur := digit_char (n mod nat b)]"
    have ds: "digits (nat b) p n = n mod nat b # digits (nat b) (p - 1) (n div nat b)"
      by (rule digits_more [OF b2 False])
    have inc: "unat (i + 1) = Suc (unat i)" by (rule unat_inc_u32 [OF lt])
    have p1: "unat padding - (unat (i + 1) - 1) = p - 1" using "1.prems"(3) by (simp add: inc p_def)
    have step: "writevalue_loop out count b padding i num cur =
        writevalue_loop ?out count b padding (i + 1) (num sdiv b) (Suc cur)"
      using False stop lt cur ok dig
      by (auto simp: writevalue_loop.simps [of out count b padding i num cur])
    have "writevalue_loop ?out count b padding (i + 1) (num sdiv b) (Suc cur) =
      (let ds = digits (nat b) (unat padding - (unat (i + 1) - 1)) (nat \<bar>num sdiv b\<bar>) in
       Some (blit ?out (Suc cur) (map digit_char ds), i + 1 + of_nat (length ds - 1),
             Suc cur + length ds))"
    proof (rule "1.IH" [OF lt ok dig])
      show "unat (i + 1) + length (digits (nat b) (unat padding - (unat (i + 1) - 1))
          (nat \<bar>num sdiv b\<bar>)) \<le> unat count"
        using room(1) unfolding p1 quo ds by (simp add: inc)
      show "Suc cur + length (digits (nat b) (unat padding - (unat (i + 1) - 1))
          (nat \<bar>num sdiv b\<bar>)) \<le> length ?out"
        using room(2) unfolding p1 quo ds by simp
    qed (use cur False stop "1.prems"(1,2) inc in auto)
    moreover have "i + 1 + of_nat (length (digits (nat b) (p - 1) (n div nat b)) - 1) =
        i + of_nat (length (digits (nat b) p n) - 1)"
      unfolding ds by (cases "digits (nat b) (p - 1) (n div nat b)")
        (use digits_length_pos [of "nat b" "p - 1" "n div nat b"] in simp_all)
    ultimately show ?thesis
      using cur unfolding step p1 quo Let_def n_def [symmetric] p_def [symmetric] ds
      by (simp add: blit_Cons)
  qed
qed

lemma writevalue_reverse_ok:
  "lo \<le> Suc hi \<Longrightarrow> hi < length out \<Longrightarrow>
   writevalue_reverse out lo hi = Some (blit out lo (rev (seg out lo (Suc hi - lo))))"
proof (induction out lo hi rule: writevalue_reverse.induct)
  case (1 out lo hi)
  show ?case
  proof (cases "lo < hi")
    case True
    let ?out = "out[hi := out ! lo, lo := out ! hi]"
    have "writevalue_reverse out lo hi = writevalue_reverse ?out (Suc lo) (hi - 1)"
      using True 1 by (simp add: writevalue_reverse.simps [of out lo hi])
    also have "\<dots> = Some (blit ?out (Suc lo) (rev (seg ?out (Suc lo) (Suc (hi - 1) - Suc lo))))"
      using "1.IH" [of "out ! hi" "out ! lo" "out[hi := out ! lo]" ?out] True "1.prems" by simp
    also have "blit ?out (Suc lo) (rev (seg ?out (Suc lo) (Suc (hi - 1) - Suc lo))) =
        blit out lo (rev (seg out lo (Suc hi - lo)))"
      using True "1.prems"
      by (intro nth_equalityI) (auto simp: nth_blit rev_nth nth_seg nth_list_update Suc_diff_Suc)
    finally show ?thesis .
  next
    case False
    then show ?thesis
    proof (cases "lo = hi")
      case True
      then show ?thesis using "1.prems"
        by (simp add: writevalue_reverse.simps [of out hi hi] seg_Suc blit_single)
    qed (use "1.prems" in \<open>simp add: writevalue_reverse.simps [of out lo hi]\<close>)
  qed
qed

lemma seg_blit_prefix:
  "length xs \<le> length out \<Longrightarrow> seg (blit out 0 xs) 0 (length xs) = xs"
  by (simp add: seg_def blit_def)

lemma blit_blit: "length xs = length ys \<Longrightarrow> i + length ys \<le> length out \<Longrightarrow>
  blit (blit out i xs) i ys = blit out i ys"
  by (rule nth_equalityI) (simp_all add: nth_blit)

lemma blit_snoc: "i + length xs < length out \<Longrightarrow>
  (blit out i xs)[i + length xs := y] = blit out i (xs @ [y])"
  by (rule nth_equalityI) (auto simp: nth_blit nth_append nth_list_update)

lemma number_text_length:
  "2 \<le> b \<Longrightarrow> length (number_text b pad v) = (if v < 0 then 1 else 0) + length (digits (nat b) pad (nat \<bar>v\<bar>))"
  by (simp add: number_text_def)

lemma nat_abs_sint: "nat \<bar>sint (v :: u32)\<bar> \<le> 2147483648"
  using sint_ge [of v] sint_lt [of v] by simp

lemma number_text_short:
  assumes "2 \<le> b" "pad \<le> 62"
  shows "length (number_text b pad (sint (v :: u32))) \<le> 63"
proof -
  have "nat \<bar>sint v\<bar> < 2 ^ 32" using nat_abs_sint [of v] by simp
  then have "length (digits (nat b) pad (nat \<bar>sint v\<bar>)) \<le> max pad 32"
    by (rule digits_length [rotated]) (use assms in auto)
  moreover have "length (number_text b pad (sint v)) \<le> 1 + length (digits (nat b) pad (nat \<bar>sint v\<bar>))"
    unfolding number_text_length [OF assms(1)] by (simp split: if_split)
  ultimately show ?thesis using assms by linarith
qed

lemma writevalue_ok:
  assumes "2 \<le> sint base" "sint base \<le> 36" "unat count \<le> length out"
    and len: "length (number_text (sint base) (unat padding) (sint value)) < unat count"
  shows "writevalue out count value base padding =
    (let t = number_text (sint base) (unat padding) (sint value) in
     Some (of_nat (length t), blit out 0 t))"
proof -
  let ?ds = "digits (nat (sint base)) (unat padding) (nat \<bar>sint value\<bar>)"
  let ?t = "number_text (sint base) (unat padding) (sint value)"
  let ?rt = "map digit_char ?ds @ (if sint value < 0 then [ch CHR ''-''] else [])"
  have t: "?t = rev ?rt" by (simp add: number_text_def rev_map)
  have tl: "length ?t = (if sint value < 0 then 1 else 0) + length ?ds"
    by (rule number_text_length [OF assms(1)])
  have pos: "1 \<le> length ?ds" by (metis One_nat_def Suc_leI digits_length_pos)
  have loop: "writevalue_loop out count (sint base) padding 1 (sint value) 0 =
      Some (blit out 0 (map digit_char ?ds), 1 + of_nat (length ?ds - 1), length ?ds)"
    using writevalue_loop_ok [of "sint base" 1 padding "sint value" count 0 out] assms tl
    by (auto simp: Let_def split: if_splits)
  have one: "1 + of_nat (length ?ds - 1) = (of_nat (length ?ds) :: u32)"
    using pos by (cases ?ds) simp_all
  have fill: "(if sint value < 0
       then do { out \<leftarrow> wr (blit out 0 (map digit_char ?ds)) (length ?ds) (ch CHR ''-'');
                 Some (out, of_nat (length ?ds) + 1, Suc (length ?ds)) }
       else Some (blit out 0 (map digit_char ?ds), of_nat (length ?ds), length ?ds)) =
      Some (blit out 0 ?rt, of_nat (length ?t) :: u32, length ?t)"
    using assms tl blit_snoc [of 0 "map digit_char ?ds" out "ch CHR ''-''"]
    by (auto split: if_splits)
  define rt where "rt = ?rt"
  have rt: "length rt = length ?t" "1 \<le> length rt" "length rt \<le> length out" "?t = rev rt"
    using t tl pos assms(3) len by (simp_all add: rt_def)
  have "writevalue_reverse (blit out 0 rt) 0 (length rt - 1) =
      Some (blit (blit out 0 rt) 0 (rev (seg (blit out 0 rt) 0 (length rt))))"
    using writevalue_reverse_ok [of 0 "length rt - 1" "blit out 0 rt"] rt(2,3)
    by (cases rt) simp_all
  also have "seg (blit out 0 rt) 0 (length rt) = rt"
    by (rule seg_blit_prefix [OF rt(3)])
  also have "blit (blit out 0 rt) 0 (rev rt) = blit out 0 (rev rt)"
    using rt(3) by (intro blit_blit) simp_all
  finally have rev: "writevalue_reverse (blit out 0 rt) 0 (length rt - 1) = Some (blit out 0 ?t)"
    by (simp add: rt(4))
  show ?thesis
    unfolding writevalue_def loop bind.bind_lunit one prod.case fill rt_def [symmetric]
      rt(1) [symmetric] rev Let_def
    by simp
qed

section \<open>Strings and reading numbers back\<close>

lemma cstring_length_loop_eq:
  "cstring_length_loop bs len =
     (if 0 \<in> set bs then Some (len + of_nat (length (c_string bs))) else None)"
  by (induction bs arbitrary: len) (auto simp: c_string_def)

lemma cstring_length_eq:
  "cstring_length bs = (if 0 \<in> set bs then Some (of_nat (length (c_string bs))) else None)"
  by (simp add: cstring_length_def cstring_length_loop_eq)

lemma c_string_split:
  assumes "0 \<in> set bs"
  obtains tail where "bs = c_string bs @ 0 # tail" "0 \<notin> set (c_string bs)"
proof -
  from assms obtain xs ys where xs: "bs = xs @ 0 # ys" "0 \<notin> set xs" by (metis split_list_first)
  then have "c_string bs = xs"
    unfolding c_string_def by (subst xs(1), subst takeWhile_append2) auto
  with xs show thesis by (intro that [of ys]) simp_all
qed

lemma c_string_length: "0 \<in> set bs \<Longrightarrow> length (c_string bs) < length bs"
  by (erule c_string_split) (metis length_append length_Cons less_add_Suc1 add_Suc_right)

lemma read_value_loop_eq:
  assumes "unat count \<le> length inp"
  shows "cstring_read_value_loop inp count base i acc =
    Some (foldl (\<lambda>v c. v * base + cstring_toint c) acc (seg inp (unat i) (unat count - unat i)))"
  using assms
proof (induction inp count base i acc rule: cstring_read_value_loop.induct)
  case (1 inp count base i acc)
  show ?case
  proof (cases "i < count")
    case True
    have inc: "unat (i + 1) = Suc (unat i)" by (rule unat_inc_u32 [OF True])
    have lt: "unat i < unat count" using True by (simp add: word_less_nat_alt)
    have "seg inp (unat i) (unat count - unat i) =
        inp ! unat i # seg inp (Suc (unat i)) (unat count - Suc (unat i))"
      using lt 1 seg_Suc [of "unat i" inp "unat count - Suc (unat i)"] by (simp add: Suc_diff_Suc)
    with 1 True lt inc show ?thesis
      by (simp add: cstring_read_value_loop.simps [of inp count base i acc])
  next
    case False
    then show ?thesis
      by (simp add: cstring_read_value_loop.simps [of inp count base i acc] word_less_nat_alt)
  qed
qed

lemma foldl_digits:
  "\<forall>d \<in> set ds. d < 36 \<Longrightarrow>
   foldl (\<lambda>v c. v * of_nat b + cstring_toint c) (of_nat v) (map digit_char ds) =
   (of_nat (foldl (\<lambda>v d. v * b + d) v ds) :: u32)"
proof (induction ds arbitrary: v)
  case (Cons d ds)
  have "of_nat v * of_nat b + cstring_toint (digit_char d) = (of_nat (v * b + d) :: u32)"
    using Cons.prems by (simp add: toint_digit)
  with Cons show ?case by (simp del: of_nat_add of_nat_mult)
qed simp

lemma read_digits:
  assumes "2 \<le> sint base" "sint base \<le> 36" "unat count \<le> length inp"
    and "take (unat count) inp = map digit_char (rev (digits (nat (sint base)) pad n))"
  shows "cstring_read_value inp count base = Some (of_nat n)"
proof -
  have b: "of_nat (nat (sint base)) = base" using assms(1) by simp
  have "\<forall>d \<in> set (rev (digits (nat (sint base)) pad n)). d < 36"
    using digits_less [of "nat (sint base)" _ pad n] assms(1,2) by fastforce
  from foldl_digits [OF this, of "nat (sint base)" 0] assms show ?thesis
    by (simp add: cstring_read_value_def read_value_loop_eq seg_def b digits_value)
qed

lemma cstring_match_prefix:
  assumes "0 \<in> set xs" "0 \<in> set ys"
  defines "n \<equiv> Suc (min (length (c_string xs)) (length (c_string ys)))"
  shows "take n xs = take n ys \<longleftrightarrow> c_string xs = c_string ys"
proof -
  obtain xt where xs: "xs = c_string xs @ 0 # xt" "0 \<notin> set (c_string xs)"
    using assms(1) by (rule c_string_split)
  obtain yt where ys: "ys = c_string ys @ 0 # yt" "0 \<notin> set (c_string ys)"
    using assms(2) by (rule c_string_split)
  define a b where "a = c_string xs" and "b = c_string ys"
  have ne: "take (Suc (length a)) (a @ 0 # xt) \<noteq> take (Suc (length a)) (b @ 0 # yt)"
    if "length a < length b" "0 \<notin> set b" for a b :: "u8 list" and xt yt
  proof
    assume "take (Suc (length a)) (a @ 0 # xt) = take (Suc (length a)) (b @ 0 # yt)"
    then have "a @ [0] = take (Suc (length a)) b" using that by simp
    then have "0 \<in> set (take (Suc (length a)) b)" by (metis in_set_conv_decomp)
    with that show False by (meson in_set_takeD)
  qed
  show ?thesis
    unfolding n_def a_def [symmetric] b_def [symmetric]
    using xs ys ne [of a b xt yt] ne [of b a yt xt] unfolding a_def [symmetric] b_def [symmetric]
    by (cases "length a" "length b" rule: linorder_cases) (auto simp: min_def)
qed

section \<open>Properties\<close>

text \<open>
  C26: a value written by \<^verbatim>\<open>cstring_write_value\<close> is read back by \<^verbatim>\<open>cstring_read_value\<close>, for
  every base from 2 to 36, every field width up to 62 and every \<^verbatim>\<open>int\<close>: a value that is not
  negative reads back as itself, and behind the minus sign of a negative value stands its
  magnitude. The text has at least the width asked for. The output has room for the 63 characters a text can have.
\<close>

theorem cstring_value_roundtrip:
  assumes "2 \<le> sint base" "sint base \<le> 36" "unat padding \<le> 62" "length num = 64"
    and "unat offset + 63 \<le> unat count" "unat count \<le> length out"
  shows "\<exists>n out'. cstring_write_value num out count value base padding offset = Some (n, out') \<and>
    unat padding \<le> unat n \<and>
    (if sint value < 0
     then out' ! unat offset = ch CHR ''-'' \<and>
       cstring_read_value (drop (unat offset + 1) out') (n - 1) base = Some (- value)
     else cstring_read_value (drop (unat offset) out') n base = Some value)"
proof -
  let ?t = "number_text (sint base) (unat padding) (sint value)"
  let ?ds = "digits (nat (sint base)) (unat padding) (nat \<bar>sint value\<bar>)"
  define n where "n = (of_nat (length ?t) :: u32)"
  define out' where "out' = blit out (unat offset) ?t"
  have short: "length ?t \<le> 63" by (rule number_text_short [OF assms(1,3)])
  then have n: "unat n = length ?t" unfolding n_def by (intro unat_of_nat_u32) simp
  have tl: "length ?t = (if sint value < 0 then 1 else 0) + length ?ds"
    by (rule number_text_length [OF assms(1)])
  have pos: "0 < length ?ds" by simp
  have "writevalue num 64 value base padding = Some (n, blit num 0 ?t)"
    using writevalue_ok [OF assms(1,2), of 64 num padding "value"] short assms(4)
    by (simp add: n_def Let_def)
  moreover have "clip n count offset = n"
    using n short assms(5) by (intro word_unat_eq_iff [THEN iffD2]) (simp add: unat_clip)
  moreover have "take (unat n) (blit num 0 ?t) = ?t" by (simp add: n blit_def)
  moreover have "n \<noteq> 0" using n tl pos by (metis add_gr_0 not_gr0 unat_0)
  ultimately have w: "cstring_write_value num out count value base padding offset = Some (n, out')"
    using buffer_write_ok [of 0 count out n "blit num 0 ?t" offset] assms n short
    by (simp add: cstring_write_value_def Let_def out'_def)
  have rest: "take (length ?t) (drop (unat offset) out') = ?t"
    using assms short by (simp add: out'_def blit_def)
  have len: "length out' = length out" using assms short by (simp add: out'_def)
  have "2 \<le> nat (sint base)" using assms(1) by simp
  then have "unat padding \<le> length ?ds" by (rule digits_pad)
  then have "unat padding \<le> unat n" using n tl by linarith
  moreover have "cstring_read_value (drop (unat offset) out') n base = Some value"
    if "\<not> sint value < 0"
    using read_digits [OF assms(1,2), of n "drop (unat offset) out'" "unat padding" "nat (sint value)"]
      rest that n short assms len by (simp add: number_text_def)
  moreover have "out' ! unat offset = ch CHR ''-'' \<and>
      cstring_read_value (drop (unat offset + 1) out') (n - 1) base = Some (- value)"
    if neg: "sint value < 0"
  proof
    have t: "?t = ch CHR ''-'' # map digit_char (rev ?ds)" using neg by (simp add: number_text_def)
    show "out' ! unat offset = ch CHR ''-''"
      using assms short by (simp add: out'_def nth_blit t)
    have n1: "unat (n - 1) = length ?ds"
      using n tl neg \<open>n \<noteq> 0\<close> by (simp add: unat_sub_u32 word_le_nat_alt)
    have "take (unat (n - 1)) (drop (unat offset + 1) out') = map digit_char (rev ?ds)"
      using assms short by (simp add: n1 out'_def blit_def t)
    from read_digits [OF assms(1,2) _ this] n1 short tl neg assms len
    show "cstring_read_value (drop (unat offset + 1) out') (n - 1) base = Some (- value)" by simp
  qed
  ultimately show ?thesis using w by auto
qed

theorem cstring_value_roundtrip_witness:
  "\<exists>n out'. cstring_write_value (replicate 64 7) (replicate 80 1) 80 (-255) 16 4 3 = Some (n, out') \<and>
     out' ! 3 = ch CHR ''-'' \<and> cstring_read_value (drop 4 out') (n - 1) 16 = Some 255"
  using cstring_value_roundtrip [of 16 4 "replicate 64 7" 3 80 "replicate 80 1" "-255"] by auto

text \<open>
  C35: \<^verbatim>\<open>cstring_match\<close> returns 1 exactly for equal strings and \<^verbatim>\<open>cstring_match_substring\<close>
  exactly when the second string is a prefix of the first one; both only read the two strings
  with their terminators.
\<close>

theorem cstring_match_correct:
  assumes "0 \<in> set in1" "0 \<in> set in2" "length in1 < 4294967296" "length in2 < 4294967296"
  shows "cstring_match in1 in2 = Some (if c_string in1 = c_string in2 then 1 else 0) \<and>
    cstring_match_substring in1 in2 =
      Some (if take (length (c_string in2)) (c_string in1) = c_string in2 then 1 else 0)"
proof -
  define a b where "a = length (c_string in1)" and "b = length (c_string in2)"
  have lt: "a < length in1" "b < length in2"
    using assms c_string_length by (auto simp: a_def b_def)
  have un: "unat (of_nat a :: u32) = a" "unat (of_nat b :: u32) = b"
    "unat (of_nat a + 1 :: u32) = Suc a" "unat (of_nat b + 1 :: u32) = Suc b"
    using lt assms unat_of_nat_u32 [of "Suc a"] unat_of_nat_u32 [of "Suc b"]
    by (simp_all add: unat_of_nat_u32 add.commute)
  have "cstring_match in1 in2 = buffer_match in1 in2
      (if of_nat a + 1 < (of_nat b + 1 :: u32) then of_nat a + 1 else of_nat b + 1)"
    using assms by (simp add: cstring_match_def cstring_length_zero_def cstring_length_eq a_def b_def)
  also have "\<dots> = Some (if take (Suc (min a b)) in1 = take (Suc (min a b)) in2 then 1 else 0)"
    using un lt by (simp add: buffer_match_eq word_less_nat_alt min_def)
  also have "take (Suc (min a b)) in1 = take (Suc (min a b)) in2 \<longleftrightarrow> c_string in1 = c_string in2"
    unfolding a_def b_def by (rule cstring_match_prefix [OF assms(1,2)])
  finally have "cstring_match in1 in2 = Some (if c_string in1 = c_string in2 then 1 else 0)" .
  moreover have "cstring_match_substring in1 in2 =
      (if b \<le> a then Some (if take b in1 = take b in2 then 1 else 0) else Some 0)"
    using assms un lt
    by (simp add: cstring_match_substring_def cstring_length_zero_def cstring_length_eq a_def [symmetric]
        b_def [symmetric] buffer_match_eq word_less_nat_alt less_Suc_eq_le)
  moreover obtain t1 where "in1 = c_string in1 @ 0 # t1" using assms(1) by (rule c_string_split)
  then have "take b in1 = take b (c_string in1)" if "b \<le> a"
    using that by (metis a_def diff_is_0_eq' take0 take_append append_Nil2)
  moreover obtain t2 where "in2 = c_string in2 @ 0 # t2" using assms(2) by (rule c_string_split)
  then have "take b in2 = c_string in2" by (metis append_eq_conv_conj b_def)
  moreover have "take b (c_string in1) \<noteq> c_string in2" if "\<not> b \<le> a"
    using that by (metis a_def b_def length_take min.cobounded1)
  ultimately show ?thesis by (simp add: b_def [symmetric])
qed

theorem cstring_match_correct_witness:
  "cstring_match [104, 105, 0, 3] [104, 105, 0] = Some 1 \<and>
   cstring_match_substring [104, 105, 0] [104, 0, 9] = Some 1 \<and>
   cstring_match [104, 105, 0] [104, 0, 9] = Some 0"
  using cstring_match_correct [of "[104, 105, 0, 3]" "[104, 105, 0]"]
    cstring_match_correct [of "[104, 105, 0]" "[104, 0, 9]"]
  by (simp add: c_string_def)

end
