(* ===== verification/Libz_Format.thy ===== *)
theory Libz_Format
  imports Libz_Cstring
begin

text \<open>
  The formatted writer of \<^verbatim>\<open>libz/fudge/cstring.c\<close> against an abstract specification: the text
  that a format denotes for its arguments, as a list of bytes, without a buffer. The refinement
  shows that \<^verbatim>\<open>cstring_write_fmt\<close> writes exactly that text, cut off at the end of the buffer.
\<close>

section \<open>The text of a format\<close>

definition ctl_done :: "fmt_ctl \<Rightarrow> fmt_ctl" where
  "ctl_done c = c\<lparr>f_interpreted := False, f_padding := 0, f_base := 10\<rparr>"

text \<open>A number with a field width above 62 has no text: it does not fit the array of 64 bytes.\<close>

definition emit_number :: "fmt_ctl \<Rightarrow> u32 \<Rightarrow> (u8 list \<times> fmt_ctl) option" where
  "emit_number c v =
     (if unat (f_padding c) \<le> 62
      then Some (number_text (sint (f_base c)) (unat (f_padding c)) (sint v), ctl_done c) else None)"

definition emit_arg :: "u8 list list \<Rightarrow> fmt_ctl \<Rightarrow> (u8 list \<times> fmt_ctl) option" where
  "emit_arg args c =
     do { p \<leftarrow> rd args (unat (f_cargs c)); Some (p, c\<lparr>f_cargs := f_cargs c + 1\<rparr>) }"

text \<open>The conversion letters that print, and the ones that only set a parameter.\<close>

definition emit_setting :: "u8 \<Rightarrow> fmt_ctl \<Rightarrow> fmt_ctl option" where
  "emit_setting q c =
     (if q \<in> set (cstr ''01248'') then Some (c\<lparr>f_padding := ucast (q - ch CHR ''0'')\<rparr>)
      else if q = ch CHR ''>'' then Some (c\<lparr>f_padding := drop_bit 1 (f_padding c)\<rparr>)
      else if q = ch CHR ''<'' then Some (c\<lparr>f_padding := push_bit 1 (f_padding c)\<rparr>)
      else if q = ch CHR ''B'' then Some (c\<lparr>f_base := 2\<rparr>)
      else if q = ch CHR ''O'' then Some (c\<lparr>f_base := 8\<rparr>)
      else if q = ch CHR ''D'' then Some (c\<lparr>f_base := 10\<rparr>)
      else if q = ch CHR ''H'' then Some (c\<lparr>f_base := 16\<rparr>)
      else if q = ch CHR ''-'' then Some (c\<lparr>f_isunsigned := False\<rparr>)
      else if q = ch CHR ''+'' then Some (c\<lparr>f_isunsigned := True\<rparr>)
      else None)"

definition emit_conversion :: "u8 list list \<Rightarrow> u8 \<Rightarrow> fmt_ctl \<Rightarrow> (u8 list \<times> fmt_ctl) option" where
  "emit_conversion args q c =
     (if q = ch CHR ''c'' then
        do { (p, c) \<leftarrow> emit_arg args c; v \<leftarrow> rd p 0;
             emit_number c (if f_isunsigned c then ucast v else scast v) }
      else if q = ch CHR ''h'' then
        do { (p, c) \<leftarrow> emit_arg args c; v \<leftarrow> load16 p;
             emit_number c (if f_isunsigned c then ucast v else scast v) }
      else if q = ch CHR ''u'' \<or> q = ch CHR ''i'' then
        do { (p, c) \<leftarrow> emit_arg args c; v \<leftarrow> load32 p; emit_number c v }
      else if q = ch CHR ''s'' then
        do { (p, c) \<leftarrow> emit_arg args c;
             if 0 \<in> set p \<and> length p < 4294967296 then Some (c_string p, ctl_done c) else None }
      else if q = ch CHR ''w'' then
        do { (p, c) \<leftarrow> emit_arg args c; (m, c) \<leftarrow> emit_arg args c; n \<leftarrow> load32 m;
             if unat n \<le> length p then Some (take (unat n) p, ctl_done c) else None }
      else Some ([], ctl_done c))"

definition emit :: "u8 list list \<Rightarrow> u8 \<Rightarrow> fmt_ctl \<Rightarrow> (u8 list \<times> fmt_ctl) option" where
  "emit args q c =
     (if f_escaped c then Some (if q = ch CHR ''0'' then [0] else [], c\<lparr>f_escaped := False\<rparr>)
      else if f_interpreted c then
        (case emit_setting q c of Some c' \<Rightarrow> Some ([], c') | None \<Rightarrow> emit_conversion args q c)
      else if q = ch CHR ''%'' then Some ([], c\<lparr>f_interpreted := True\<rparr>)
      else if q = 92 then Some ([], c\<lparr>f_escaped := True\<rparr>)
      else Some ([q], c))"

primrec fmt_text :: "u8 list list \<Rightarrow> u8 list \<Rightarrow> fmt_ctl \<Rightarrow> u8 list option" where
  "fmt_text args [] c = Some []"
| "fmt_text args (q # qs) c =
     do { (bs, c') \<leftarrow> emit args q c; rest \<leftarrow> fmt_text args qs c'; Some (bs @ rest) }"

definition ctl_start :: fmt_ctl where
  "ctl_start = \<lparr>f_escaped = False, f_interpreted = False, f_cargs = 0, f_base = 10, f_padding = 0,
     f_isunsigned = True\<rparr>"

section \<open>Clipped output\<close>

text \<open>What a state has written: the text so far, as much of it as fits behind the start offset.\<close>

definition fits :: "u32 \<Rightarrow> u32 \<Rightarrow> u8 list \<Rightarrow> nat" where
  "fits count start tx = min (length tx) (unat count - unat start)"

definition written :: "u32 \<Rightarrow> u32 \<Rightarrow> u8 list \<Rightarrow> u8 list \<Rightarrow> u8 list" where
  "written count start out tx =
     (if fits count start tx = 0 then out
      else blit out (unat start) (take (fits count start tx) tx))"

definition wrote :: "u32 \<Rightarrow> u32 \<Rightarrow> u8 list \<Rightarrow> u8 list \<Rightarrow> fmt_state \<Rightarrow> bool" where
  "wrote count start out tx st \<longleftrightarrow>
     f_offset st = start + of_nat (fits count start tx) \<and> fout st = written count start out tx"

lemma blit_append:
  "i + length xs + length ys \<le> length out \<Longrightarrow>
   blit (blit out i xs) (i + length xs) ys = blit out i (xs @ ys)"
  by (rule nth_equalityI) (auto simp: nth_blit nth_append)

lemma fits_offset: "unat start + fits count start tx \<le> max (unat start) (unat count)"
  by (simp add: fits_def)

lemma unat_fits_offset:
  "unat (start + of_nat (fits count start tx) :: u32) = unat start + fits count start tx"
proof -
  have lt: "unat start + fits count start tx < 4294967296"
    using fits_offset [of start count tx] unat_less_u32 [of start] unat_less_u32 [of count] by linarith
  then have "unat (of_nat (fits count start tx) :: u32) = fits count start tx"
    by (intro unat_of_nat_u32) linarith
  with lt show ?thesis using unat_add_u32 [of start "of_nat (fits count start tx)"] by simp
qed

lemma written_append:
  fixes tx bs :: "u8 list" and start :: u32
  assumes "unat count \<le> length out"
  defines "m \<equiv> min (length bs) (unat count - (unat start + fits count start tx))"
  shows "fits count start (tx @ bs) = fits count start tx + m"
    and "written count start out (tx @ bs) =
      (if m = 0 then written count start out tx
       else blit (written count start out tx) (unat start + fits count start tx) (take m bs))"
proof -
  show len: "fits count start (tx @ bs) = fits count start tx + m"
    by (auto simp: m_def fits_def)
  show "written count start out (tx @ bs) =
      (if m = 0 then written count start out tx
       else blit (written count start out tx) (unat start + fits count start tx) (take m bs))"
  proof (cases "m = 0")
    case True
    have "fits count start tx \<le> length tx" by (simp add: fits_def)
    with True len show ?thesis by (simp add: written_def)
  next
    case False
    then have full: "fits count start tx = length tx" by (auto simp: m_def fits_def)
    have fit: "unat start + length tx + m \<le> length out"
      using False assms(1) full by (auto simp: m_def)
    have m: "m \<le> length bs" by (simp add: m_def)
    show ?thesis
    proof (cases "tx = []")
      case True
      then show ?thesis using False len full m by (simp add: written_def)
    next
      case ne: False
      have "blit (blit out (unat start) tx) (unat start + length tx) (take m bs) =
          blit out (unat start) (tx @ take m bs)"
        using fit m by (intro blit_append) simp
      with ne False len full m show ?thesis by (simp add: written_def)
    qed
  qed
qed

lemma length_written [simp]: "unat count \<le> length out \<Longrightarrow> length (written count start out tx) = length out"
  by (auto simp: written_def fits_def)

lemma fmt_put_ok:
  assumes "wrote count start out tx st" "unat count \<le> length out" "unat n \<le> length inp"
  shows "\<exists>out' off. fmt_put count inp n st = Some (st\<lparr>fout := out', f_offset := off\<rparr>) \<and>
    wrote count start out (tx @ take (unat n) inp) (st\<lparr>fout := out', f_offset := off\<rparr>)"
proof -
  let ?bs = "take (unat n) inp"
  define m where "m = min (length ?bs) (unat count - (unat start + fits count start tx))"
  define k where "k = clip n count (f_offset st)"
  have off: "unat (f_offset st) = unat start + fits count start tx"
    using assms(1) unat_fits_offset by (simp add: wrote_def)
  have k: "unat k = m" using assms(3) by (simp add: k_def unat_clip off m_def)
  note app = written_append [OF assms(2), where bs = ?bs and start = start and tx = tx,
      folded m_def]
  have mn: "m \<le> unat n" by (simp add: m_def)
  have "fmt_put count inp n st = Some (st\<lparr>
      fout := if k = 0 then fout st else blit (fout st) (unat (f_offset st)) (take (unat k) inp),
      f_offset := f_offset st + k\<rparr>)"
    using buffer_write_ok [of 0 count "fout st" n inp "f_offset st"] assms
    by (simp add: fmt_put_def k_def Let_def wrote_def)
  moreover have "(if k = 0 then fout st else blit (fout st) (unat (f_offset st)) (take (unat k) inp)) =
      written count start out (tx @ ?bs)"
    using app(2) k off assms(1) mn unat_eq_0 [of k] by (auto simp: wrote_def min_def)
  moreover have "f_offset st + k = start + of_nat (fits count start (tx @ ?bs))"
    using app(1) assms(1) unat_eq_of_nat [OF k] by (simp add: wrote_def)
  ultimately show ?thesis by (auto simp: wrote_def)
qed

section \<open>The simulation\<close>

definition fmt_sim :: "u32 \<Rightarrow> u32 \<Rightarrow> u8 list \<Rightarrow> u8 list \<Rightarrow> fmt_state \<Rightarrow> fmt_ctl \<Rightarrow> bool" where
  "fmt_sim count start out tx st c \<longleftrightarrow> wrote count start out tx st \<and> unat count \<le> length out \<and>
     fmt_ctl.truncate st = c \<and> length (fnum st) = 64 \<and> f_base c \<in> {2, 8, 10, 16}"

lemma sim_ctl:
  assumes "fmt_sim count start out tx st c"
  shows "f_escaped c = f_escaped st" "f_interpreted c = f_interpreted st" "f_cargs c = f_cargs st"
    "f_base c = f_base st" "f_padding c = f_padding st" "f_isunsigned c = f_isunsigned st"
  using assms by (auto simp: fmt_sim_def fmt_ctl.defs)

lemma sim_base:
  assumes "fmt_sim count start out tx st c"
  shows "2 \<le> sint (f_base st)" "sint (f_base st) \<le> 36"
proof -
  have "f_base st \<in> {2, 8, 10, 16}" using assms by (auto simp: fmt_sim_def fmt_ctl.defs)
  then show "2 \<le> sint (f_base st)" "sint (f_base st) \<le> 36" by auto
qed

lemma sim_put:
  assumes "fmt_sim count start out tx st c" "unat n \<le> length inp"
  shows "\<exists>st'. fmt_put count inp n st = Some st' \<and>
    fmt_sim count start out (tx @ take (unat n) inp) st' c"
proof -
  from assms(1) have "wrote count start out tx st" "unat count \<le> length out"
    by (simp_all add: fmt_sim_def)
  from fmt_put_ok [OF this assms(2)] assms(1) show ?thesis
    by (auto simp: fmt_sim_def fmt_ctl.defs)
qed

lemma sim_done: "fmt_sim count start out tx st c \<Longrightarrow> fmt_sim count start out tx (fmt_done st) (ctl_done c)"
  by (auto simp: fmt_sim_def fmt_ctl.defs fmt_done_def ctl_done_def wrote_def)

lemma sim_arg:
  assumes "fmt_sim count start out tx st c" "emit_arg args c = Some (p, c')"
  shows "\<exists>st'. fmt_arg args st = Some (p, st') \<and> fmt_sim count start out tx st' c'"
  using assms
  by (auto simp: emit_arg_def fmt_arg_def fmt_sim_def fmt_ctl.defs wrote_def
      split: Option.bind_splits)

lemma sim_number:
  assumes "fmt_sim count start out tx st c" "emit_number c v = Some (bs, c')"
  shows "\<exists>st'. fmt_number count v st = Some st' \<and> fmt_sim count start out (tx @ bs) st' c'"
proof -
  let ?t = "number_text (sint (f_base st)) (unat (f_padding st)) (sint v)"
  have pad: "unat (f_padding st) \<le> 62" and bs: "bs = ?t" "c' = ctl_done c"
    using assms sim_ctl [OF assms(1)] by (auto simp: emit_number_def split: if_splits)
  have num: "length (fnum st) = 64" using assms(1) by (simp add: fmt_sim_def)
  have short: "length ?t \<le> 63" by (rule number_text_short [OF sim_base(1) [OF assms(1)] pad])
  have len: "unat (of_nat (length ?t) :: u32) = length ?t"
    using short by (intro unat_of_nat_u32) simp
  have w: "writevalue (fnum st) 64 v (f_base st) (f_padding st) =
      Some (of_nat (length ?t), blit (fnum st) 0 ?t)"
    using writevalue_ok [of "f_base st" 64 "fnum st" "f_padding st" v] sim_base [OF assms(1)] short num
    by (simp add: Let_def)
  let ?st = "st\<lparr>fnum := blit (fnum st) 0 ?t\<rparr>"
  have "fmt_sim count start out tx ?st c"
    using assms(1) short num by (auto simp: fmt_sim_def fmt_ctl.defs wrote_def)
  from sim_put [OF this, of "of_nat (length ?t)" "blit (fnum st) 0 ?t"] len short num
  obtain st' where "fmt_put count (blit (fnum st) 0 ?t) (of_nat (length ?t)) ?st = Some st'"
    "fmt_sim count start out (tx @ ?t) st' c"
    by (auto simp: blit_def)
  with w bs sim_done [of count start out "tx @ ?t" st' c] show ?thesis
    by (auto simp: fmt_number_def)
qed

lemma sim_setting:
  assumes "fmt_sim count start out tx st c" "emit_setting q c = Some c'"
  shows "\<exists>st'. fmt_interpreted count args q st = Some st' \<and> fmt_sim count start out tx st' c'"
proof -
  have chars: "cstr ''01248'' = [48, 49, 50, 52, 56]" by (simp add: cstr_def)
  show ?thesis
  proof (cases "q \<in> set (cstr ''01248'')")
    case True
    then consider "q = 48" | "q = 49" | "q = 50" | "q = 52" | "q = 56" by (auto simp: chars)
    then show ?thesis
      using assms
      by cases (auto simp: emit_setting_def fmt_interpreted_def chars ch_def fmt_sim_def
          fmt_ctl.defs wrote_def)
  next
    case False
    then have "q \<noteq> 48" "q \<noteq> 49" "q \<noteq> 50" "q \<noteq> 52" "q \<noteq> 56" by (auto simp: chars)
    with assms show ?thesis
      by (auto simp: emit_setting_def fmt_interpreted_def chars ch_def fmt_sim_def
          fmt_ctl.defs wrote_def split: if_splits)
  qed
qed

lemma not_setting:
  "emit_setting q c = None \<Longrightarrow> q \<notin> set (cstr ''01248><BODH-+'')"
  by (auto simp: emit_setting_def cstr_def ch_def split: if_splits)

lemma fmt_interpreted_conversion:
  assumes "q \<notin> set (cstr ''01248><BODH-+'')"
  shows "fmt_interpreted count args q st =
    (if q = ch CHR ''c'' then
       do { (p, st) \<leftarrow> fmt_arg args st; v \<leftarrow> rd p 0;
            fmt_number count (if f_isunsigned st then ucast v else scast v) st }
     else if q = ch CHR ''h'' then
       do { (p, st) \<leftarrow> fmt_arg args st; v \<leftarrow> load16 p;
            fmt_number count (if f_isunsigned st then ucast v else scast v) st }
     else if q = ch CHR ''u'' \<or> q = ch CHR ''i'' then
       do { (p, st) \<leftarrow> fmt_arg args st; v \<leftarrow> load32 p; fmt_number count v st }
     else if q = ch CHR ''s'' then
       do { (p, st) \<leftarrow> fmt_arg args st; n \<leftarrow> cstring_length p;
            st \<leftarrow> fmt_put count p n st; Some (fmt_done st) }
     else if q = ch CHR ''w'' then
       do { (p, st) \<leftarrow> fmt_arg args st; (m, st) \<leftarrow> fmt_arg args st; n \<leftarrow> load32 m;
            st \<leftarrow> fmt_put count p n st; Some (fmt_done st) }
     else Some (fmt_done st))"
  using assms by (simp add: fmt_interpreted_def cstr_def ch_def)

text \<open>A conversion that reads one object and prints a number.\<close>

lemma sim_arg_number:
  assumes "fmt_sim count start out tx st c"
    and "do { (p, c) \<leftarrow> emit_arg args c; v \<leftarrow> load p; emit_number c (conv (f_isunsigned c) v) } = Some (bs, c')"
  shows "\<exists>st'. do { (p, st) \<leftarrow> fmt_arg args st; v \<leftarrow> load p;
      fmt_number count (conv (f_isunsigned st) v) st } = Some st' \<and>
    fmt_sim count start out (tx @ bs) st' c'"
proof -
  from assms(2) obtain p c1 v where
    c1: "emit_arg args c = Some (p, c1)" "load p = Some v"
      "emit_number c1 (conv (f_isunsigned c1) v) = Some (bs, c')"
    by (auto split: Option.bind_splits)
  from sim_arg [OF assms(1) c1(1)] obtain st1 where
    st1: "fmt_arg args st = Some (p, st1)" "fmt_sim count start out tx st1 c1" by blast
  from sim_number [OF st1(2) c1(3)] st1 c1(2) sim_ctl(6) [OF st1(2)] show ?thesis by simp
qed

text \<open>A conversion that prints a block of bytes.\<close>

lemma sim_put_done:
  assumes "fmt_sim count start out tx st c" "unat n \<le> length p"
  shows "\<exists>st'. do { st \<leftarrow> fmt_put count p n st; Some (fmt_done st) } = Some st' \<and>
    fmt_sim count start out (tx @ take (unat n) p) st' (ctl_done c)"
  using sim_put [OF assms] sim_done by fastforce

lemma sim_string:
  assumes "fmt_sim count start out tx st c" "0 \<in> set p" "length p < 4294967296"
  shows "\<exists>st'. do { n \<leftarrow> cstring_length p; st \<leftarrow> fmt_put count p n st; Some (fmt_done st) } = Some st' \<and>
    fmt_sim count start out (tx @ c_string p) st' (ctl_done c)"
proof -
  have len: "unat (of_nat (length (c_string p)) :: u32) = length (c_string p)"
    using c_string_length [OF assms(2)] assms(3) by (intro unat_of_nat_u32) linarith
  obtain q where "p = c_string p @ 0 # q" using assms(2) by (rule c_string_split)
  then have "take (length (c_string p)) p = c_string p" by (metis append_eq_conv_conj)
  with sim_put_done [OF assms(1), of "of_nat (length (c_string p))" p] len
    c_string_length [OF assms(2)] show ?thesis
    by (auto simp: cstring_length_eq assms(2))
qed

lemma sim_conversion:
  assumes sim: "fmt_sim count start out tx st c" and none: "emit_setting q c = None"
    and conv: "emit_conversion args q c = Some (bs, c')"
  shows "\<exists>st'. fmt_interpreted count args q st = Some st' \<and> fmt_sim count start out (tx @ bs) st' c'"
proof -
  note interp = fmt_interpreted_conversion [OF not_setting [OF none]]
  consider "q = ch CHR ''c''" | "q = ch CHR ''h''" | "q = ch CHR ''u'' \<or> q = ch CHR ''i''"
    | "q = ch CHR ''s''" | "q = ch CHR ''w''"
    | "q \<noteq> ch CHR ''c''" "q \<noteq> ch CHR ''h''" "q \<noteq> ch CHR ''u''" "q \<noteq> ch CHR ''i''"
      "q \<noteq> ch CHR ''s''" "q \<noteq> ch CHR ''w''" by blast
  then show ?thesis
  proof cases
    case 1
    with conv sim_arg_number [OF sim, of args "\<lambda>p. rd p 0" "\<lambda>u v. if u then ucast v else scast v"]
    show ?thesis unfolding interp by (simp add: emit_conversion_def)
  next
    case 2
    with conv sim_arg_number [OF sim, of args load16 "\<lambda>u v. if u then ucast v else scast v"]
    show ?thesis unfolding interp by (simp add: emit_conversion_def ch_def)
  next
    case 3
    with conv sim_arg_number [OF sim, of args load32 "\<lambda>u v. v"]
    show ?thesis unfolding interp by (auto simp: emit_conversion_def ch_def)
  next
    case 4
    with conv obtain p c1 where c1: "emit_arg args c = Some (p, c1)" "0 \<in> set p"
      "length p < 4294967296" "bs = c_string p" "c' = ctl_done c1"
      by (auto simp: emit_conversion_def ch_def split: Option.bind_splits if_splits)
    from sim_arg [OF sim c1(1)] obtain st1 where
      st1: "fmt_arg args st = Some (p, st1)" "fmt_sim count start out tx st1 c1" by blast
    from sim_string [OF st1(2) c1(2,3)] st1(1) c1(4,5) 4 show ?thesis
      unfolding interp by (simp add: ch_def)
  next
    case 5
    with conv obtain p c1 m c2 n where c1: "emit_arg args c = Some (p, c1)"
      "emit_arg args c1 = Some (m, c2)" "load32 m = Some n" "unat n \<le> length p"
      "bs = take (unat n) p" "c' = ctl_done c2"
      by (auto simp: emit_conversion_def ch_def split: Option.bind_splits if_splits)
    from sim_arg [OF sim c1(1)] obtain st1 where
      st1: "fmt_arg args st = Some (p, st1)" "fmt_sim count start out tx st1 c1" by blast
    from sim_arg [OF st1(2) c1(2)] obtain st2 where
      st2: "fmt_arg args st1 = Some (m, st2)" "fmt_sim count start out tx st2 c2" by blast
    from sim_put_done [OF st2(2) c1(4)] st1(1) st2(1) c1(3,5,6) 5 show ?thesis
      unfolding interp by (simp add: ch_def)
  next
    case 6
    with conv sim_done [OF sim] show ?thesis by (auto simp: interp emit_conversion_def)
  qed
qed

lemma sim_char:
  assumes sim: "fmt_sim count start out tx st c" and em: "emit args q c = Some (bs, c')"
  shows "\<exists>st'. fmt_char count args q st = Some st' \<and> fmt_sim count start out (tx @ bs) st' c'"
proof -
  note ctl = sim_ctl [OF sim]
  consider "f_escaped st" | "\<not> f_escaped st" "f_interpreted st"
    | "\<not> f_escaped st" "\<not> f_interpreted st" by blast
  then show ?thesis
  proof cases
    case 1
    from sim_put [OF sim, of 1 "[0]"] obtain st1 where
      "fmt_put count [0] 1 st = Some st1" "fmt_sim count start out (tx @ [0]) st1 c" by auto
    with 1 em ctl sim show ?thesis
      by (auto simp: fmt_char_def fmt_escaped_def emit_def fmt_sim_def fmt_ctl.defs wrote_def
          split: if_splits)
  next
    case 2
    with em ctl sim_setting [OF sim] sim_conversion [OF sim] show ?thesis
      by (auto simp: fmt_char_def emit_def split: option.splits)
  next
    case 3
    from sim_put [OF sim, of 1 "[q]"] obtain st1 where
      "fmt_put count [q] 1 st = Some st1" "fmt_sim count start out (tx @ [q]) st1 c" by auto
    with 3 em ctl sim show ?thesis
      by (auto simp: fmt_char_def fmt_literal_def emit_def fmt_sim_def fmt_ctl.defs wrote_def
          split: if_splits)
  qed
qed

lemma sim_loop:
  assumes "fmt_sim count start out tx st c" "unat len \<le> length fmt"
    and "fmt_text args (seg fmt (unat i) (unat len - unat i)) c = Some t"
  shows "\<exists>st' c'. fmt_loop count fmt len args i st = Some st' \<and>
    fmt_sim count start out (tx @ t) st' c'"
  using assms
proof (induction count fmt len args i st arbitrary: tx c t rule: fmt_loop.induct)
  case (1 count fmt len args i st)
  show ?case
  proof (cases "i < len")
    case True
    have inc: "unat (i + 1) = Suc (unat i)" by (rule unat_inc_u32 [OF True])
    have lt: "unat i < unat len" using True by (simp add: word_less_nat_alt)
    have "seg fmt (unat i) (unat len - unat i) =
        fmt ! unat i # seg fmt (unat (i + 1)) (unat len - unat (i + 1))"
      using lt 1 seg_Suc [of "unat i" fmt "unat len - Suc (unat i)"] by (simp add: Suc_diff_Suc inc)
    with "1.prems"(3) obtain bs c1 t1 where
      c1: "emit args (fmt ! unat i) c = Some (bs, c1)"
        "fmt_text args (seg fmt (unat (i + 1)) (unat len - unat (i + 1))) c1 = Some t1" "t = bs @ t1"
      by (auto split: Option.bind_splits)
    from sim_char [OF "1.prems"(1) c1(1)] obtain st1 where
      st1: "fmt_char count args (fmt ! unat i) st = Some st1"
        "fmt_sim count start out (tx @ bs) st1 c1" by blast
    have q: "rd fmt (unat i) = Some (fmt ! unat i)" using lt "1.prems"(2) by simp
    from "1.IH" [OF True q st1(1) st1(2) "1.prems"(2) c1(2)] q st1(1) True c1(3) show ?thesis
      by (simp add: fmt_loop.simps [of count fmt len args i st])
  next
    case False
    with "1.prems" show ?thesis
      by (auto simp: fmt_loop.simps [of count fmt len args i st] word_less_nat_alt)
  qed
qed

lemma cstring_write_fmt_ok:
  assumes "0 \<in> set fmt" and "length fmt < 4294967296" and "length num = 64"
    and "unat count \<le> length out" and "fmt_text args (c_string fmt) ctl_start = Some t"
  shows "\<exists>n out'. cstring_write_fmt num out count fmt args start = Some (n, out') \<and>
    unat n = min (length t) (unat count - unat start) \<and> length out' = length out \<and>
    (\<forall>j < length out. out' ! j =
      (if unat start \<le> j \<and> j < unat start + unat n then t ! (j - unat start) else out ! j))"
proof -
  define len where "len = (of_nat (length (c_string fmt)) :: u32)"
  have len: "cstring_length fmt = Some len" "unat len = length (c_string fmt)"
    using assms(1,2) c_string_length [OF assms(1)]
    by (simp_all add: len_def cstring_length_eq unat_of_nat_u32)
  obtain tail where "fmt = c_string fmt @ 0 # tail" using assms(1) by (rule c_string_split)
  then have "seg fmt 0 (unat len) = c_string fmt"
    unfolding len(2) seg_def by (metis append_eq_conv_conj drop0)
  moreover have "fmt_sim count start out [] (fmt_start num out start) ctl_start"
    using assms(3,4) by (simp add: fmt_sim_def fmt_start_def ctl_start_def fmt_ctl.defs wrote_def
        fits_def written_def)
  ultimately obtain st' c' where
    st': "fmt_loop count fmt len args 0 (fmt_start num out start) = Some st'"
      "fmt_sim count start out t st' c'"
    using sim_loop [of count start out "[]" "fmt_start num out start" ctl_start len fmt args 0 t]
      assms(5) c_string_length [OF assms(1)] len(2) by auto
  define k where "k = fits count start t"
  have w: "f_offset st' = start + of_nat k" "fout st' = written count start out t"
    using st'(2) by (simp_all add: fmt_sim_def wrote_def k_def)
  have k: "k \<le> unat count" by (simp add: k_def fits_def)
  have n: "unat (of_nat k :: u32) = k"
    using k unat_less_u32 [of count] by (intro unat_of_nat_u32) linarith
  have "out' ! j = (if unat start \<le> j \<and> j < unat start + k then t ! (j - unat start) else out ! j)"
    if "j < length out" "out' = written count start out t" for j out'
  proof -
    have kt: "k \<le> length t" "k \<noteq> 0 \<Longrightarrow> unat start + k \<le> length out"
      using assms(4) by (auto simp: k_def fits_def)
    have "take k t ! (j - unat start) = t ! (j - unat start)" if "unat start \<le> j" "j < unat start + k"
      using that by (intro nth_take) linarith
    with that kt show ?thesis
      unfolding that(2) written_def k_def [symmetric] by (auto simp: nth_blit min_def)
  qed
  with len(1) st'(1) w n assms(4) show ?thesis
    by (auto simp: cstring_write_fmt_def k_def fits_def)
qed

section \<open>Properties\<close>

text \<open>
  C8: whenever a format denotes a text for its arguments, \<^verbatim>\<open>cstring_write_fmt\<close> returns, writes
  exactly that text behind the offset, cut off at the \<^verbatim>\<open>count\<close> bytes of the buffer, reports the
  number of bytes written and changes no other byte. This covers literal text, escapes, all
  conversions with their bases, widths and signedness, and any number of pieces, of which the
  one that meets the end of the buffer is cut and the later ones are dropped.
\<close>

theorem cstring_write_fmt_correct:
  assumes "0 \<in> set fmt" and "length fmt < 4294967296" and "length num = 64"
    and "unat count \<le> length out" and "fmt_text args (c_string fmt) ctl_start = Some t"
  shows "\<exists>n out'. cstring_write_fmt num out count fmt args start = Some (n, out') \<and>
    unat n = min (length t) (unat count - unat start) \<and> length out' = length out \<and>
    (\<forall>j < length out. out' ! j =
      (if unat start \<le> j \<and> j < unat start + unat n then t ! (j - unat start) else out ! j))"
  by (rule cstring_write_fmt_ok [OF assms])

lemma demo_text:
  "fmt_text [[5, 0, 0, 0], [104, 105, 0]] (c_string (cstr ''a%uH%s'' @ [0])) ctl_start =
     Some (cstr ''a5Hhi'')"
  by (simp add: c_string_def cstr_def ctl_start_def ctl_done_def emit_def emit_setting_def
      emit_conversion_def ch_def emit_arg_def load32_def emit_number_def number_text_def
      digits.simps digit_char_def digit_table_def)

theorem cstring_write_fmt_correct_witness:
  "\<exists>n out'. cstring_write_fmt (replicate 64 9) [1, 1, 1, 1, 1] 4 (cstr ''a%uH%s'' @ [0])
       [[5, 0, 0, 0], [104, 105, 0]] 1 = Some (n, out') \<and> unat n = 3 \<and>
     out' ! 0 = 1 \<and> out' ! 1 = 97 \<and> out' ! 2 = 53 \<and> out' ! 3 = 72 \<and> out' ! 4 = 1"
  using cstring_write_fmt_correct [OF _ _ _ _ demo_text, of "replicate 64 9" 4 "[1, 1, 1, 1, 1]" 1]
  by (auto simp: cstr_def)

text \<open>
  The conversion for an \<^verbatim>\<open>unsigned int\<close> hands the value to \<^verbatim>\<open>writevalue\<close> as a signed number,
  so every value from 2147483648 on is printed with a minus sign.
\<close>

theorem fmt_unsigned_prints_negative:
  assumes "length num = 64" "63 \<le> unat count" "unat count \<le> length out"
    and "load32 arg = Some v" "2147483648 \<le> v"
  shows "\<exists>n out'. cstring_write_fmt1 num out count (cstr ''%u'' @ [0]) 0 arg = Some (n, out') \<and>
    1 \<le> n \<and> out' ! 0 = ch CHR ''-''"
proof -
  let ?t = "number_text 10 0 (sint v)"
  have neg: "sint v < 0"
    using assms(5) unsigned_less [of v, where 'a = int] by (simp add: sint_u32 word_le_def)
  have ft: "fmt_text [arg] (c_string (cstr ''%u'' @ [0])) ctl_start = Some ?t"
    using assms(4) by (simp add: c_string_def cstr_def ctl_start_def emit_def emit_setting_def
        emit_conversion_def ch_def emit_arg_def emit_number_def)
  have t: "1 \<le> length ?t" "?t ! 0 = ch CHR ''-''" using neg by (simp_all add: number_text_def)
  have "0 \<in> set (cstr ''%u'' @ [0])" "length (cstr ''%u'' @ [0]) < 4294967296"
    by (simp_all add: cstr_def)
  from cstring_write_fmt_ok [OF this assms(1,3) ft, of 0] obtain n out' where
    n: "cstring_write_fmt num out count (cstr ''%u'' @ [0]) [arg] 0 = Some (n, out')"
      "unat n = min (length ?t) (unat count)"
      "\<forall>j < length out. out' ! j = (if j < unat n then ?t ! j else out ! j)"
    by auto
  have "0 < length out" using assms(2,3) by linarith
  have "1 \<le> unat n" using n(2) t(1) assms(2) by linarith
  moreover from this have "out' ! 0 = ch CHR ''-''"
    using n(3) t(2) \<open>0 < length out\<close> by simp
  ultimately show ?thesis
    using n(1) by (auto simp: cstring_write_fmt1_def word_le_nat_alt)
qed

theorem fmt_unsigned_prints_negative_witness:
  "\<exists>n out'. cstring_write_fmt1 (replicate 64 0) (replicate 64 1) 64 (cstr ''%u'' @ [0]) 0
     [255, 255, 255, 255] = Some (n, out') \<and> out' ! 0 = ch CHR ''-''"
  using fmt_unsigned_prints_negative [of "replicate 64 0" 64 "replicate 64 1" "[255, 255, 255, 255]"
      "0xFFFFFFFF"]
  by (auto simp: load32_def)

end
