(* ===== verification/Byte_Codec.thy ===== *)
theory Byte_Codec
  imports C_Base
begin

text \<open>
  The contract of a fixed-width field in a byte buffer, which the 9P marshaller and the network
  headers rely on: storing a value puts its bytes at an index and changes nothing else, and
  loading from an index that holds the bytes of a value gives the value. The clients' lemmas (a
  field reads back, fields at disjoint places do not disturb each other) are proved once from the
  contract.
\<close>

section \<open>Blocks at disjoint places\<close>

lemma blit_blit_append:
  "i + length xs + length ys \<le> length b \<Longrightarrow> j = i + length xs \<Longrightarrow>
   blit (blit b i xs) j ys = blit b i (xs @ ys)"
  by (rule nth_equalityI) (auto simp: nth_blit nth_append)

lemma blit_blit_prepend:
  "i + length xs + length ys \<le> length b \<Longrightarrow> j = i + length xs \<Longrightarrow>
   blit (blit b j ys) i xs = blit b i (xs @ ys)"
  by (rule nth_equalityI) (auto simp: nth_blit nth_append)

lemma blit_commute:
  "i + length xs \<le> j \<Longrightarrow> j + length ys \<le> length b \<Longrightarrow>
   blit (blit b j ys) i xs = blit (blit b i xs) j ys"
  by (rule nth_equalityI) (auto simp: nth_blit)

lemma seg_blit_inner:
  "i + length xs \<le> length b \<Longrightarrow> k + n \<le> length xs \<Longrightarrow>
   seg (blit b i xs) (i + k) n = seg xs k n"
  by (rule nth_equalityI) (auto simp: nth_seg nth_blit)

lemma seg_append_left: "k + n \<le> length xs \<Longrightarrow> seg (xs @ ys) k n = seg xs k n"
  by (simp add: seg_def)

lemma seg_append_right: "length xs \<le> k \<Longrightarrow> seg (xs @ ys) k n = seg ys (k - length xs) n"
  by (simp add: seg_def)

section \<open>Values as bytes\<close>

definition le16 :: "u16 \<Rightarrow> u8 list" where
  "le16 v = [ucast v, ucast (drop_bit 8 v)]"

definition le32 :: "u32 \<Rightarrow> u8 list" where
  "le32 v = [ucast v, ucast (drop_bit 8 v), ucast (drop_bit 16 v), ucast (drop_bit 24 v)]"

definition be16 :: "u16 \<Rightarrow> u8 list" where
  "be16 v = [ucast (drop_bit 8 v), ucast v]"

definition be32 :: "u32 \<Rightarrow> u8 list" where
  "be32 v = [ucast (drop_bit 24 v), ucast (drop_bit 16 v), ucast (drop_bit 8 v), ucast v]"

lemma length_le_be [simp]:
  "length (le16 v) = 2" "length (le32 w) = 4" "length (be16 v) = 2" "length (be32 w) = 4"
  by (simp_all add: le16_def le32_def be16_def be32_def)

lemma join16 [simp]:
  "push_bit 8 (ucast (ucast (drop_bit 8 v) :: u8)) OR ucast (ucast v :: u8) = (v :: u16)"
  by (rule bit_word_eqI) (auto simp: bit_simps)

lemma join32 [simp]:
  "push_bit 24 (ucast (ucast (drop_bit 24 v) :: u8)) OR push_bit 16 (ucast (ucast (drop_bit 16 v) :: u8)) OR
   push_bit 8 (ucast (ucast (drop_bit 8 v) :: u8)) OR ucast (ucast v :: u8) = (v :: u32)"
  (is "?w = v")
proof (rule bit_word_eqI)
  fix n assume "n < LENGTH(32)"
  then consider "n < 8" | "8 \<le> n" "n < 16" | "16 \<le> n" "n < 24" | "24 \<le> n" "n < 32" by fastforce
  then show "bit ?w n = bit v n"
    by cases (auto simp: bit_simps)
qed

section \<open>The contract\<close>

locale field_codec =
  fixes width :: nat and enc :: "'a \<Rightarrow> u8 list"
    and load :: "u8 list \<Rightarrow> nat \<Rightarrow> 'a option"
    and save :: "u8 list \<Rightarrow> nat \<Rightarrow> 'a \<Rightarrow> u8 list option"
  assumes enc_length: "length (enc v) = width"
    and save: "i + width \<le> length b \<Longrightarrow> save b i v = Some (blit b i (enc v))"
    and load: "i + width \<le> length b \<Longrightarrow> seg b i width = enc v \<Longrightarrow> load b i = Some v"
begin

lemma save_length: "i + width \<le> length b \<Longrightarrow> save b i v = Some b' \<Longrightarrow> length b' = length b"
  by (auto simp: save enc_length)

lemma load_saved: "i + width \<le> length b \<Longrightarrow> save b i v = Some b' \<Longrightarrow> load b' i = Some v"
  using seg_blit_same [of i "enc v" b] by (auto simp: save enc_length intro!: load)

lemma load_kept:
  assumes "i + width \<le> length b" "seg b i width = enc v"
    and "j + length ys \<le> length b" "i + width \<le> j \<or> j + length ys \<le> i"
  shows "load (blit b j ys) i = Some v"
  using assms by (intro load) (auto simp: seg_blit_other)

lemma load_in_block:
  assumes "i + length xs \<le> length b" "k + width \<le> length xs" "seg xs k width = enc v"
  shows "load (blit b i xs) (i + k) = Some v"
  using assms by (intro load) (auto simp: seg_blit_inner)

end

end
