(* ===== verification/Libz_P9p.thy ===== *)
theory Libz_P9p
  imports Byte_Codec Libz_Cstring
begin

text \<open>
  \<^verbatim>\<open>libz/fudge/p9p.c\<close>: the marshaller for 9P messages. A buffer pointer is an object with the
  index it points to. A message is built by a sequence of steps \<^verbatim>\<open>n += p9p_write...(buffer, n, ...)\<close>
  that starts behind the 7 bytes of \<^verbatim>\<open>struct p9p_header\<close>, followed by the header.
\<close>

section \<open>Reading and writing fields\<close>

definition p9p_read1 :: "u8 list \<Rightarrow> nat \<Rightarrow> u32 \<Rightarrow> u8 option" where
  "p9p_read1 b ptr off = rd b (ptr + unat off)"

definition p9p_read2 :: "u8 list \<Rightarrow> nat \<Rightarrow> u32 \<Rightarrow> u16 option" where
  "p9p_read2 b ptr off =
     (let p = ptr + unat off in
      do { c1 \<leftarrow> rd b (p + 1); c0 \<leftarrow> rd b p; Some (push_bit 8 (ucast c1) OR ucast c0) })"

definition p9p_read4 :: "u8 list \<Rightarrow> nat \<Rightarrow> u32 \<Rightarrow> u32 option" where
  "p9p_read4 b ptr off =
     (let p = ptr + unat off in
      do { c3 \<leftarrow> rd b (p + 3); c2 \<leftarrow> rd b (p + 2); c1 \<leftarrow> rd b (p + 1); c0 \<leftarrow> rd b p;
           Some (push_bit 24 (ucast c3) OR push_bit 16 (ucast c2) OR push_bit 8 (ucast c1) OR ucast c0) })"

definition p9p_readstringlength :: "u8 list \<Rightarrow> nat \<Rightarrow> u32 \<Rightarrow> u16 option" where
  "p9p_readstringlength b ptr off = p9p_read2 b ptr off"

text \<open>The two routines that return pointers give the index they point to.\<close>

definition p9p_readbuffer :: "nat \<Rightarrow> u32 \<Rightarrow> nat" where
  "p9p_readbuffer ptr off = ptr + unat off"

definition p9p_readstringdata :: "nat \<Rightarrow> u32 \<Rightarrow> nat" where
  "p9p_readstringdata ptr off = ptr + unat off + 2"

definition p9p_write1 :: "u8 list \<Rightarrow> nat \<Rightarrow> u32 \<Rightarrow> u8 \<Rightarrow> (u32 \<times> u8 list) option" where
  "p9p_write1 b ptr off v =
     (let p = ptr + unat off in do { b \<leftarrow> wr b p v; Some (1, b) })"

definition p9p_write2 :: "u8 list \<Rightarrow> nat \<Rightarrow> u32 \<Rightarrow> u16 \<Rightarrow> (u32 \<times> u8 list) option" where
  "p9p_write2 b ptr off v =
     (let p = ptr + unat off in
      do { b \<leftarrow> wr b p (ucast v); b \<leftarrow> wr b (p + 1) (ucast (drop_bit 8 v)); Some (2, b) })"

definition p9p_write4 :: "u8 list \<Rightarrow> nat \<Rightarrow> u32 \<Rightarrow> u32 \<Rightarrow> (u32 \<times> u8 list) option" where
  "p9p_write4 b ptr off v =
     (let p = ptr + unat off in
      do { b \<leftarrow> wr b p (ucast v); b \<leftarrow> wr b (p + 1) (ucast (drop_bit 8 v));
           b \<leftarrow> wr b (p + 2) (ucast (drop_bit 16 v)); b \<leftarrow> wr b (p + 3) (ucast (drop_bit 24 v));
           Some (4, b) })"

definition p9p_write8 :: "u8 list \<Rightarrow> nat \<Rightarrow> u32 \<Rightarrow> u32 \<Rightarrow> u32 \<Rightarrow> (u32 \<times> u8 list) option" where
  "p9p_write8 b ptr off vl vh =
     (let p = ptr + unat off in
      do { b \<leftarrow> wr b p (ucast vl); b \<leftarrow> wr b (p + 1) (ucast (drop_bit 8 vl));
           b \<leftarrow> wr b (p + 2) (ucast (drop_bit 16 vl)); b \<leftarrow> wr b (p + 3) (ucast (drop_bit 24 vl));
           b \<leftarrow> wr b (p + 4) (ucast vh); b \<leftarrow> wr b (p + 5) (ucast (drop_bit 8 vh));
           b \<leftarrow> wr b (p + 6) (ucast (drop_bit 16 vh)); b \<leftarrow> wr b (p + 7) (ucast (drop_bit 24 vh));
           Some (8, b) })"

definition p9p_writebuffer :: "u8 list \<Rightarrow> nat \<Rightarrow> u32 \<Rightarrow> u32 \<Rightarrow> u8 list \<Rightarrow> (u32 \<times> u8 list) option" where
  "p9p_writebuffer b ptr off count v =
     do { b \<leftarrow> buffer_copy b (ptr + unat off) v count; Some (count, b) }"

definition p9p_writestring :: "u8 list \<Rightarrow> nat \<Rightarrow> u32 \<Rightarrow> u8 list \<Rightarrow> (u32 \<times> u8 list) option" where
  "p9p_writestring b ptr off v =
     do { len \<leftarrow> cstring_length v;
          let count = (ucast len :: u16);
          let p = ptr + unat off;
          (k, b) \<leftarrow> p9p_write2 b p 0 count;
          let n = 0 + k;
          (k, b) \<leftarrow> p9p_writebuffer b p n (ucast count) v;
          Some (n + k, b) }"

definition p9p_mk :: "u8 list \<Rightarrow> nat \<Rightarrow> u32 \<Rightarrow> u8 \<Rightarrow> u16 \<Rightarrow> (u32 \<times> u8 list) option" where
  "p9p_mk b ptr sz type tag =
     do { (k, b) \<leftarrow> p9p_write4 b ptr 0 sz;
          let n = 0 + k;
          (k, b) \<leftarrow> p9p_write1 b ptr n type;
          let n = n + k;
          (k, b) \<leftarrow> p9p_write2 b ptr n tag;
          Some (n + k, b) }"

section \<open>Messages\<close>

text \<open>The message types of \<^verbatim>\<open>p9p.h\<close>.\<close>

abbreviation (input) P9P_RLERROR :: u8 where "P9P_RLERROR \<equiv> 7"
abbreviation (input) P9P_TGETATTR :: u8 where "P9P_TGETATTR \<equiv> 24"
abbreviation (input) P9P_RGETATTR :: u8 where "P9P_RGETATTR \<equiv> 25"
abbreviation (input) P9P_TVERSION :: u8 where "P9P_TVERSION \<equiv> 100"
abbreviation (input) P9P_RVERSION :: u8 where "P9P_RVERSION \<equiv> 101"
abbreviation (input) P9P_TAUTH :: u8 where "P9P_TAUTH \<equiv> 102"
abbreviation (input) P9P_RAUTH :: u8 where "P9P_RAUTH \<equiv> 103"
abbreviation (input) P9P_TATTACH :: u8 where "P9P_TATTACH \<equiv> 104"
abbreviation (input) P9P_RATTACH :: u8 where "P9P_RATTACH \<equiv> 105"
abbreviation (input) P9P_RERROR :: u8 where "P9P_RERROR \<equiv> 107"
abbreviation (input) P9P_TFLUSH :: u8 where "P9P_TFLUSH \<equiv> 108"
abbreviation (input) P9P_RFLUSH :: u8 where "P9P_RFLUSH \<equiv> 109"
abbreviation (input) P9P_TWALK :: u8 where "P9P_TWALK \<equiv> 110"
abbreviation (input) P9P_RWALK :: u8 where "P9P_RWALK \<equiv> 111"
abbreviation (input) P9P_TOPEN :: u8 where "P9P_TOPEN \<equiv> 112"
abbreviation (input) P9P_ROPEN :: u8 where "P9P_ROPEN \<equiv> 113"
abbreviation (input) P9P_TCREATE :: u8 where "P9P_TCREATE \<equiv> 114"
abbreviation (input) P9P_RCREATE :: u8 where "P9P_RCREATE \<equiv> 115"
abbreviation (input) P9P_TREAD :: u8 where "P9P_TREAD \<equiv> 116"
abbreviation (input) P9P_RREAD :: u8 where "P9P_RREAD \<equiv> 117"
abbreviation (input) P9P_TWRITE :: u8 where "P9P_TWRITE \<equiv> 118"
abbreviation (input) P9P_RWRITE :: u8 where "P9P_RWRITE \<equiv> 119"
abbreviation (input) P9P_TCLUNK :: u8 where "P9P_TCLUNK \<equiv> 120"
abbreviation (input) P9P_RCLUNK :: u8 where "P9P_RCLUNK \<equiv> 121"
abbreviation (input) P9P_TREMOVE :: u8 where "P9P_TREMOVE \<equiv> 122"
abbreviation (input) P9P_RREMOVE :: u8 where "P9P_RREMOVE \<equiv> 123"
abbreviation (input) P9P_TSTAT :: u8 where "P9P_TSTAT \<equiv> 124"
abbreviation (input) P9P_RSTAT :: u8 where "P9P_RSTAT \<equiv> 125"
abbreviation (input) P9P_TWSTAT :: u8 where "P9P_TWSTAT \<equiv> 126"
abbreviation (input) P9P_RWSTAT :: u8 where "P9P_RWSTAT \<equiv> 127"

text \<open>
  A field writer is a routine \<^verbatim>\<open>p9p_write...\<close> applied to its value. The common body of the message
  routines: the steps \<^verbatim>\<open>n += ...\<close> from \<^verbatim>\<open>n = sizeof (struct p9p_header)\<close>, the header, and the
  result \<^verbatim>\<open>n\<close>.
\<close>

type_synonym p9p_field = "u8 list \<Rightarrow> nat \<Rightarrow> u32 \<Rightarrow> (u32 \<times> u8 list) option"

primrec p9p_fields :: "p9p_field list \<Rightarrow> u8 list \<Rightarrow> nat \<Rightarrow> u32 \<Rightarrow> (u32 \<times> u8 list) option" where
  "p9p_fields [] b ptr n = Some (n, b)"
| "p9p_fields (f # fs) b ptr n = do { (k, b) \<leftarrow> f b ptr n; p9p_fields fs b ptr (n + k) }"

definition p9p_message :: "p9p_field list \<Rightarrow> u8 \<Rightarrow> u8 list \<Rightarrow> nat \<Rightarrow> u16 \<Rightarrow> (u32 \<times> u8 list) option" where
  "p9p_message fs type b ptr tag =
     do { (n, b) \<leftarrow> p9p_fields fs b ptr 7; (k, b) \<leftarrow> p9p_mk b ptr n type tag; Some (n, b) }"

definition put1 :: "u8 \<Rightarrow> p9p_field" where
  "put1 v b ptr n = p9p_write1 b ptr n v"

definition put2 :: "u16 \<Rightarrow> p9p_field" where
  "put2 v b ptr n = p9p_write2 b ptr n v"

definition put4 :: "u32 \<Rightarrow> p9p_field" where
  "put4 v b ptr n = p9p_write4 b ptr n v"

definition put8 :: "u32 \<Rightarrow> u32 \<Rightarrow> p9p_field" where
  "put8 vl vh b ptr n = p9p_write8 b ptr n vl vh"

definition putb :: "u32 \<Rightarrow> u8 list \<Rightarrow> p9p_field" where
  "putb count v b ptr n = p9p_writebuffer b ptr n count v"

definition puts :: "u8 list \<Rightarrow> p9p_field" where
  "puts v b ptr n = p9p_writestring b ptr n v"

text \<open>The loops of \<^verbatim>\<open>p9p_mktwalk\<close> and \<^verbatim>\<open>p9p_mkrwalk\<close> over an array of pointers.\<close>

function p9p_walk_loop :: "(u8 list \<Rightarrow> p9p_field) \<Rightarrow> u8 list list \<Rightarrow> u32 \<Rightarrow> u32 \<Rightarrow> u8 list \<Rightarrow> nat \<Rightarrow> u32 \<Rightarrow>
    (u32 \<times> u8 list) option" where
  "p9p_walk_loop put names count i b ptr n =
     (if i < count then
        do { v \<leftarrow> rd names (unat i); (k, b) \<leftarrow> put v b ptr n;
             p9p_walk_loop put names count (i + 1) b ptr (n + k) }
      else Some (n, b))"
  by pat_completeness auto
termination
  by (relation "measure (\<lambda>(put, names, count, i, b, ptr, n). unat count - unat i)")
     (auto simp: counter_decreases)

declare p9p_walk_loop.simps [simp del]

definition putwalk :: "(u8 list \<Rightarrow> p9p_field) \<Rightarrow> u8 list list \<Rightarrow> u16 \<Rightarrow> p9p_field" where
  "putwalk put names count b ptr n =
     do { (n', b) \<leftarrow> p9p_walk_loop put names (ucast count) 0 b ptr n; Some (n' - n, b) }"

definition p9p_mkrlerror ::
  "u8 list \<Rightarrow> nat \<Rightarrow> u16 \<Rightarrow> u32 \<Rightarrow> (u32 \<times> u8 list) option" where
  "p9p_mkrlerror b ptr tag ecode =
     p9p_message [put4 ecode] P9P_RLERROR b ptr tag"

definition p9p_mkrerror ::
  "u8 list \<Rightarrow> nat \<Rightarrow> u16 \<Rightarrow> u8 list \<Rightarrow> (u32 \<times> u8 list) option" where
  "p9p_mkrerror b ptr tag ename =
     p9p_message [puts ename] P9P_RERROR b ptr tag"

definition p9p_mktattach ::
  "u8 list \<Rightarrow> nat \<Rightarrow> u16 \<Rightarrow> u32 \<Rightarrow> u32 \<Rightarrow> u8 list \<Rightarrow> u8 list \<Rightarrow>
   (u32 \<times> u8 list) option" where
  "p9p_mktattach b ptr tag fid afid uname aname =
     p9p_message [put4 fid, put4 afid, puts uname, puts aname] P9P_TATTACH b ptr tag"

definition p9p_mktattach_u ::
  "u8 list \<Rightarrow> nat \<Rightarrow> u16 \<Rightarrow> u32 \<Rightarrow> u32 \<Rightarrow> u8 list \<Rightarrow> u8 list \<Rightarrow> u32 \<Rightarrow>
   (u32 \<times> u8 list) option" where
  "p9p_mktattach_u b ptr tag fid afid uname aname nuname =
     p9p_message [put4 fid, put4 afid, puts uname, puts aname, put4 nuname] P9P_TATTACH b ptr tag"

definition p9p_mkrattach ::
  "u8 list \<Rightarrow> nat \<Rightarrow> u16 \<Rightarrow> u8 list \<Rightarrow> (u32 \<times> u8 list) option" where
  "p9p_mkrattach b ptr tag qid =
     p9p_message [putb 13 qid] P9P_RATTACH b ptr tag"

definition p9p_mktauth ::
  "u8 list \<Rightarrow> nat \<Rightarrow> u16 \<Rightarrow> u32 \<Rightarrow> u8 list \<Rightarrow> u8 list \<Rightarrow> (u32 \<times> u8 list) option" where
  "p9p_mktauth b ptr tag afid uname aname =
     p9p_message [put4 afid, puts uname, puts aname] P9P_TAUTH b ptr tag"

definition p9p_mktauth_u ::
  "u8 list \<Rightarrow> nat \<Rightarrow> u16 \<Rightarrow> u32 \<Rightarrow> u8 list \<Rightarrow> u8 list \<Rightarrow> u32 \<Rightarrow>
   (u32 \<times> u8 list) option" where
  "p9p_mktauth_u b ptr tag afid uname aname nuname =
     p9p_message [put4 afid, puts uname, puts aname, put4 nuname] P9P_TAUTH b ptr tag"

definition p9p_mkrauth ::
  "u8 list \<Rightarrow> nat \<Rightarrow> u16 \<Rightarrow> u8 list \<Rightarrow> (u32 \<times> u8 list) option" where
  "p9p_mkrauth b ptr tag aqid =
     p9p_message [putb 13 aqid] P9P_RAUTH b ptr tag"

definition p9p_mktclunk ::
  "u8 list \<Rightarrow> nat \<Rightarrow> u16 \<Rightarrow> u32 \<Rightarrow> (u32 \<times> u8 list) option" where
  "p9p_mktclunk b ptr tag fid =
     p9p_message [put4 fid] P9P_TCLUNK b ptr tag"

definition p9p_mkrclunk ::
  "u8 list \<Rightarrow> nat \<Rightarrow> u16 \<Rightarrow> (u32 \<times> u8 list) option" where
  "p9p_mkrclunk b ptr tag =
     p9p_message [] P9P_RCLUNK b ptr tag"

definition p9p_mktflush ::
  "u8 list \<Rightarrow> nat \<Rightarrow> u16 \<Rightarrow> u16 \<Rightarrow> (u32 \<times> u8 list) option" where
  "p9p_mktflush b ptr tag oldtag =
     p9p_message [put2 oldtag] P9P_TFLUSH b ptr tag"

definition p9p_mkrflush ::
  "u8 list \<Rightarrow> nat \<Rightarrow> u16 \<Rightarrow> (u32 \<times> u8 list) option" where
  "p9p_mkrflush b ptr tag =
     p9p_message [] P9P_RFLUSH b ptr tag"

definition p9p_mktversion ::
  "u8 list \<Rightarrow> nat \<Rightarrow> u16 \<Rightarrow> u32 \<Rightarrow> u8 list \<Rightarrow> (u32 \<times> u8 list) option" where
  "p9p_mktversion b ptr tag msize version =
     p9p_message [put4 msize, puts version] P9P_TVERSION b ptr tag"

definition p9p_mkrversion ::
  "u8 list \<Rightarrow> nat \<Rightarrow> u16 \<Rightarrow> u32 \<Rightarrow> u8 list \<Rightarrow> (u32 \<times> u8 list) option" where
  "p9p_mkrversion b ptr tag msize version =
     p9p_message [put4 msize, puts version] P9P_RVERSION b ptr tag"

definition p9p_mktwalk ::
  "u8 list \<Rightarrow> nat \<Rightarrow> u16 \<Rightarrow> u32 \<Rightarrow> u32 \<Rightarrow> u16 \<Rightarrow> u8 list list \<Rightarrow>
   (u32 \<times> u8 list) option" where
  "p9p_mktwalk b ptr tag fid newfid nwname wname =
     p9p_message [put4 fid, put4 newfid, put2 nwname, putwalk puts wname nwname] P9P_TWALK b ptr tag"

definition p9p_mkrwalk ::
  "u8 list \<Rightarrow> nat \<Rightarrow> u16 \<Rightarrow> u16 \<Rightarrow> u8 list list \<Rightarrow> (u32 \<times> u8 list) option" where
  "p9p_mkrwalk b ptr tag nwqid wqid =
     p9p_message [put2 nwqid, putwalk (putb 13) wqid nwqid] P9P_RWALK b ptr tag"

definition p9p_mktread ::
  "u8 list \<Rightarrow> nat \<Rightarrow> u16 \<Rightarrow> u32 \<Rightarrow> u32 \<Rightarrow> u32 \<Rightarrow> u32 \<Rightarrow> (u32 \<times> u8 list) option" where
  "p9p_mktread b ptr tag fid offsetl offseth count =
     p9p_message [put4 fid, put8 offsetl offseth, put4 count] P9P_TREAD b ptr tag"

definition p9p_mkrread ::
  "u8 list \<Rightarrow> nat \<Rightarrow> u16 \<Rightarrow> u32 \<Rightarrow> u8 list \<Rightarrow> (u32 \<times> u8 list) option" where
  "p9p_mkrread b ptr tag count data =
     p9p_message [put4 count, putb count data] P9P_RREAD b ptr tag"

definition p9p_mktwrite ::
  "u8 list \<Rightarrow> nat \<Rightarrow> u16 \<Rightarrow> u32 \<Rightarrow> u32 \<Rightarrow> u32 \<Rightarrow> u32 \<Rightarrow> u8 list \<Rightarrow>
   (u32 \<times> u8 list) option" where
  "p9p_mktwrite b ptr tag fid offsetl offseth count data =
     p9p_message [put4 fid, put8 offsetl offseth, put4 count, putb count data] P9P_TWRITE b ptr tag"

definition p9p_mkrwrite ::
  "u8 list \<Rightarrow> nat \<Rightarrow> u16 \<Rightarrow> u32 \<Rightarrow> (u32 \<times> u8 list) option" where
  "p9p_mkrwrite b ptr tag count =
     p9p_message [put4 count] P9P_RWRITE b ptr tag"

definition p9p_mktopen ::
  "u8 list \<Rightarrow> nat \<Rightarrow> u16 \<Rightarrow> u32 \<Rightarrow> u8 \<Rightarrow> (u32 \<times> u8 list) option" where
  "p9p_mktopen b ptr tag fid mode =
     p9p_message [put4 fid, put1 mode] P9P_TOPEN b ptr tag"

definition p9p_mkropen ::
  "u8 list \<Rightarrow> nat \<Rightarrow> u16 \<Rightarrow> u8 list \<Rightarrow> u32 \<Rightarrow> (u32 \<times> u8 list) option" where
  "p9p_mkropen b ptr tag qid iounit =
     p9p_message [putb 13 qid, put4 iounit] P9P_ROPEN b ptr tag"

definition p9p_mktcreate ::
  "u8 list \<Rightarrow> nat \<Rightarrow> u16 \<Rightarrow> u32 \<Rightarrow> u8 list \<Rightarrow> u32 \<Rightarrow> u8 \<Rightarrow>
   (u32 \<times> u8 list) option" where
  "p9p_mktcreate b ptr tag fid name perm mode =
     p9p_message [put4 fid, puts name, put4 perm, put1 mode] P9P_TCREATE b ptr tag"

definition p9p_mkrcreate ::
  "u8 list \<Rightarrow> nat \<Rightarrow> u16 \<Rightarrow> u8 list \<Rightarrow> u32 \<Rightarrow> (u32 \<times> u8 list) option" where
  "p9p_mkrcreate b ptr tag qid iounit =
     p9p_message [putb 13 qid, put4 iounit] P9P_RCREATE b ptr tag"

definition p9p_mktremove ::
  "u8 list \<Rightarrow> nat \<Rightarrow> u16 \<Rightarrow> u32 \<Rightarrow> (u32 \<times> u8 list) option" where
  "p9p_mktremove b ptr tag fid =
     p9p_message [put4 fid] P9P_TREMOVE b ptr tag"

definition p9p_mkrremove ::
  "u8 list \<Rightarrow> nat \<Rightarrow> u16 \<Rightarrow> (u32 \<times> u8 list) option" where
  "p9p_mkrremove b ptr tag =
     p9p_message [] P9P_RREMOVE b ptr tag"

definition p9p_mktstat ::
  "u8 list \<Rightarrow> nat \<Rightarrow> u16 \<Rightarrow> u32 \<Rightarrow> (u32 \<times> u8 list) option" where
  "p9p_mktstat b ptr tag fid =
     p9p_message [put4 fid] P9P_TSTAT b ptr tag"

definition p9p_mkrstat ::
  "u8 list \<Rightarrow> nat \<Rightarrow> u16 \<Rightarrow> u8 list \<Rightarrow> (u32 \<times> u8 list) option" where
  "p9p_mkrstat b ptr tag stat =
     p9p_message [] P9P_RSTAT b ptr tag"

definition p9p_mktwstat ::
  "u8 list \<Rightarrow> nat \<Rightarrow> u16 \<Rightarrow> u32 \<Rightarrow> u8 list \<Rightarrow> (u32 \<times> u8 list) option" where
  "p9p_mktwstat b ptr tag fid stat =
     p9p_message [put4 fid] P9P_TWSTAT b ptr tag"

definition p9p_mkrwstat ::
  "u8 list \<Rightarrow> nat \<Rightarrow> u16 \<Rightarrow> (u32 \<times> u8 list) option" where
  "p9p_mkrwstat b ptr tag =
     p9p_message [] P9P_RWSTAT b ptr tag"

definition p9p_mktgetattr ::
  "u8 list \<Rightarrow> nat \<Rightarrow> u16 \<Rightarrow> u32 \<Rightarrow> u8 list \<Rightarrow> (u32 \<times> u8 list) option" where
  "p9p_mktgetattr b ptr tag fid msk =
     p9p_message [put4 fid, putb 8 msk] P9P_TGETATTR b ptr tag"

definition p9p_mkrgetattr ::
  "u8 list \<Rightarrow> nat \<Rightarrow> u16 \<Rightarrow> u8 list \<Rightarrow> u8 list \<Rightarrow> u32 \<Rightarrow> u32 \<Rightarrow> u32 \<Rightarrow> u8 list \<Rightarrow>
   u8 list \<Rightarrow> u8 list \<Rightarrow> u8 list \<Rightarrow> u8 list \<Rightarrow> u8 list \<Rightarrow> u8 list \<Rightarrow> u8 list \<Rightarrow> u8 list \<Rightarrow>
   u8 list \<Rightarrow> u8 list \<Rightarrow> u8 list \<Rightarrow> u8 list \<Rightarrow> u8 list \<Rightarrow> u8 list \<Rightarrow>
   (u32 \<times> u8 list) option" where
  "p9p_mkrgetattr b ptr tag valid qid mode uid gid nlink rdev sz blksize blocks atimesec
     atimensec mtimesec mtimensec ctimesec ctimensec btimesec btimensec gen dataversion =
     p9p_message [putb 8 valid, putb 13 qid, put4 mode, put4 uid, put4 gid, putb 8 nlink,
        putb 8 rdev, putb 8 sz, putb 8 blksize, putb 8 blocks, putb 8 atimesec,
        putb 8 atimensec, putb 8 mtimesec, putb 8 mtimensec, putb 8 ctimesec,
        putb 8 ctimensec, putb 8 btimesec, putb 8 btimensec, putb 8 gen,
        putb 8 dataversion] P9P_RGETATTR b ptr tag"

section \<open>The field codecs\<close>

lemma p9p_read_offset:
  "p9p_read1 b ptr off = p9p_read1 b (ptr + unat off) 0"
  "p9p_read2 b ptr off = p9p_read2 b (ptr + unat off) 0"
  "p9p_read4 b ptr off = p9p_read4 b (ptr + unat off) 0"
  by (simp_all add: p9p_read1_def p9p_read2_def p9p_read4_def)

lemma p9p_write_ok:
  "ptr + unat off + 1 \<le> length b \<Longrightarrow> p9p_write1 b ptr off v1 = Some (1, blit b (ptr + unat off) [v1])"
  "ptr + unat off + 2 \<le> length b \<Longrightarrow>
   p9p_write2 b ptr off v2 = Some (2, blit b (ptr + unat off) (le16 v2))"
  "ptr + unat off + 4 \<le> length b \<Longrightarrow>
   p9p_write4 b ptr off v4 = Some (4, blit b (ptr + unat off) (le32 v4))"
  "ptr + unat off + 8 \<le> length b \<Longrightarrow>
   p9p_write8 b ptr off v4 w4 = Some (8, blit b (ptr + unat off) (le32 v4 @ le32 w4))"
  by (simp_all add: p9p_write1_def p9p_write2_def p9p_write4_def p9p_write8_def blit_single
      le16_def le32_def blit_Cons [symmetric] Let_def eval_nat_numeral)

lemma seg_2: "i + 2 \<le> length b \<Longrightarrow> seg b i 2 = [b ! i, b ! (i + 1)]"
  by (simp add: seg_Suc eval_nat_numeral)

lemma seg_4: "i + 4 \<le> length b \<Longrightarrow> seg b i 4 = [b ! i, b ! (i + 1), b ! (i + 2), b ! (i + 3)]"
  by (simp add: seg_Suc eval_nat_numeral)

interpretation p9p1: field_codec 1 "\<lambda>v. [v]" "\<lambda>b i. p9p_read1 b i 0"
  "\<lambda>b i v. map_option snd (p9p_write1 b i 0 v)"
  by unfold_locales (auto simp: p9p_write_ok p9p_read1_def seg_Suc)

interpretation p9p2: field_codec 2 le16 "\<lambda>b i. p9p_read2 b i 0"
  "\<lambda>b i v. map_option snd (p9p_write2 b i 0 v)"
  by unfold_locales (auto simp: p9p_write_ok p9p_read2_def seg_2 le16_def)

interpretation p9p4: field_codec 4 le32 "\<lambda>b i. p9p_read4 b i 0"
  "\<lambda>b i v. map_option snd (p9p_write4 b i 0 v)"
  by unfold_locales (auto simp: p9p_write_ok p9p_read4_def seg_4 le32_def)

section \<open>The bytes of a message\<close>

text \<open>A field writer that puts the bytes \<open>e\<close> at its place, whenever there is room for them.\<close>

definition encodes :: "p9p_field \<Rightarrow> u8 list \<Rightarrow> bool" where
  "encodes f e \<longleftrightarrow> (\<forall>b ptr n. ptr + unat n + length e \<le> length b \<longrightarrow> unat n + length e < 4294967296 \<longrightarrow>
     f b ptr n = Some (of_nat (length e), blit b (ptr + unat n) e))"

text \<open>A string on the wire, and a terminated string that is short enough for its length field.\<close>

definition p9p_string :: "u8 list \<Rightarrow> u8 list" where
  "p9p_string v = le16 (of_nat (length (c_string v))) @ c_string v"

definition p9p_text :: "u8 list \<Rightarrow> bool" where
  "p9p_text v \<longleftrightarrow> 0 \<in> set v \<and> length (c_string v) < 65536"

lemma unat_of_nat_u16: "n < 65536 \<Longrightarrow> unat (of_nat n :: u16) = n"
  by (simp add: unat_of_nat take_bit_eq_mod)

lemma ucast_u16_u32: "unat (ucast (v :: u16) :: u32) = unat v"
proof -
  have "unat v < 65536" by (rule unat_less_u16)
  then have "unat v < 2 ^ 32" by (rule less_le_trans) simp
  then have "take_bit 32 (unat v) = unat v" by (rule take_bit_nat_eq_self)
  then show ?thesis by (simp add: unsigned_ucast_eq)
qed

lemma encodes_put [simp]:
  "encodes (put1 v1) [v1]" "encodes (put2 v2) (le16 v2)" "encodes (put4 v4) (le32 v4)"
  "encodes (put8 vl vh) (le32 vl @ le32 vh)"
  by (simp_all add: encodes_def put1_def put2_def put4_def put8_def p9p_write_ok)

lemma encodes_putb [simp]: "unat count \<le> length v \<Longrightarrow> encodes (putb count v) (take (unat count) v)"
  by (simp add: encodes_def putb_def p9p_writebuffer_def)

lemma encodes_puts [simp]:
  assumes "p9p_text v"
  shows "encodes (puts v) (p9p_string v)"
  unfolding encodes_def
proof (intro allI impI)
  fix b :: "u8 list" and ptr and n :: u32
  let ?len = "length (c_string v)"
  assume room: "ptr + unat n + length (p9p_string v) \<le> length b"
  have nul: "0 \<in> set v" and short: "?len < 65536" using assms by (auto simp: p9p_text_def)
  have tail: "take ?len v = c_string v" "?len \<le> length v"
    using c_string_split [OF nul] c_string_length [OF nul] by (metis append_eq_conv_conj, simp)
  have uc: "(ucast (of_nat ?len :: u32) :: u16) = of_nat ?len"
    using short by (simp add: unsigned_of_nat take_bit_nat_eq_self)
  have n2: "unat (ucast (of_nat ?len :: u16) :: u32) = ?len"
    using short by (simp add: ucast_u16_u32 unat_of_nat_u16)
  let ?b = "blit b (ptr + unat n) (le16 (of_nat ?len))"
  have l: "ptr + unat n + 2 + ?len \<le> length b" using room by (simp add: p9p_string_def)
  have "p9p_write2 b (ptr + unat n) 0 (of_nat ?len) = Some (2, ?b)"
    using l by (simp add: p9p_write_ok)
  moreover have "p9p_writebuffer ?b (ptr + unat n) 2 (ucast (of_nat ?len :: u16)) v =
      Some (ucast (of_nat ?len :: u16), blit ?b (ptr + unat n + 2) (c_string v))"
    using l n2 tail by (simp add: p9p_writebuffer_def)
  moreover have "blit ?b (ptr + unat n + 2) (c_string v) = blit b (ptr + unat n) (p9p_string v)"
    unfolding p9p_string_def using l by (intro blit_blit_append) simp_all
  moreover have "2 + ucast (of_nat ?len :: u16) = (of_nat (length (p9p_string v)) :: u32)"
    using unat_eq_of_nat [OF n2] by (simp add: p9p_string_def)
  ultimately show "puts v b ptr n = Some (of_nat (length (p9p_string v)),
      blit b (ptr + unat n) (p9p_string v))"
    by (simp add: puts_def p9p_writestring_def cstring_length_eq nul uc)
qed

lemma encodesD:
  "encodes f e \<Longrightarrow> ptr + unat n + length e \<le> length b \<Longrightarrow> unat n + length e < 4294967296 \<Longrightarrow>
   f b ptr n = Some (of_nat (length e), blit b (ptr + unat n) e)"
  by (simp add: encodes_def)

lemma p9p_fields_ok:
  assumes "list_all2 encodes fs es"
    and "ptr + unat n + length (concat es) \<le> length b" "unat n + length (concat es) < 4294967296"
  shows "p9p_fields fs b ptr n =
    Some (n + of_nat (length (concat es)), blit b (ptr + unat n) (concat es))"
  using assms
proof (induction fs es arbitrary: b n rule: list_all2_induct)
  case (Cons f fs e es)
  let ?b = "blit b (ptr + unat n) e"
  have n1: "unat (n + of_nat (length e)) = unat n + length e"
    using Cons.prems by (intro unat_add_of_nat) simp
  have step: "f b ptr n = Some (of_nat (length e), ?b)"
    using Cons.prems by (intro encodesD [OF Cons.hyps(1)]) simp_all
  have "p9p_fields fs ?b ptr (n + of_nat (length e)) =
      Some (n + of_nat (length e) + of_nat (length (concat es)),
            blit ?b (ptr + unat (n + of_nat (length e))) (concat es))"
    using Cons.prems n1 by (intro Cons.IH) simp_all
  moreover have "blit ?b (ptr + unat (n + of_nat (length e))) (concat es) =
      blit b (ptr + unat n) (e @ concat es)"
    using Cons.prems n1 by (intro blit_blit_append) simp_all
  ultimately show ?case by (simp add: step)
qed simp

lemma p9p_walk_loop_ok:
  assumes "\<forall>v \<in> set names. encodes (put v) (e v)" "unat count \<le> length names"
    and "ptr + unat n + length (concat (map e (seg names (unat i) (unat count - unat i)))) \<le> length b"
    and "unat n + length (concat (map e (seg names (unat i) (unat count - unat i)))) < 4294967296"
  shows "p9p_walk_loop put names count i b ptr n =
    (let pay = concat (map e (seg names (unat i) (unat count - unat i))) in
     Some (n + of_nat (length pay), blit b (ptr + unat n) pay))"
  using assms
proof (induction put names count i b ptr n rule: p9p_walk_loop.induct)
  case (1 put names count i b ptr n)
  show ?case
  proof (cases "i < count")
    case True
    have inc: "unat (i + 1) = Suc (unat i)" by (rule unat_inc_u32 [OF True])
    have lt: "unat i < unat count" using True by (simp add: word_less_nat_alt)
    let ?v = "names ! unat i" and ?rest = "seg names (unat (i + 1)) (unat count - unat (i + 1))"
    have sg: "seg names (unat i) (unat count - unat i) = ?v # ?rest"
      using lt "1.prems"(2) seg_Suc [of "unat i" names "unat count - Suc (unat i)"]
      by (simp add: Suc_diff_Suc inc)
    let ?b = "blit b (ptr + unat n) (e ?v)" and ?pay = "concat (map e ?rest)"
    have n1: "unat (n + of_nat (length (e ?v))) = unat n + length (e ?v)"
      using "1.prems"(4) unfolding sg by (intro unat_add_of_nat) simp
    have v: "rd names (unat i) = Some ?v" using lt "1.prems"(2) by simp
    have step: "put ?v b ptr n = Some (of_nat (length (e ?v)), ?b)"
      using "1.prems" lt unfolding sg by (intro encodesD) simp_all
    have "p9p_walk_loop put names count (i + 1) ?b ptr (n + of_nat (length (e ?v))) =
        (let pay = ?pay in Some (n + of_nat (length (e ?v)) + of_nat (length pay),
           blit ?b (ptr + unat (n + of_nat (length (e ?v)))) pay))"
      by (rule "1.IH" [OF True v step]) (use "1.prems" n1 in \<open>simp_all add: sg\<close>)
    moreover have "blit ?b (ptr + unat (n + of_nat (length (e ?v)))) ?pay =
        blit b (ptr + unat n) (e ?v @ ?pay)"
      using "1.prems" n1 unfolding sg by (intro blit_blit_append) simp_all
    ultimately show ?thesis
      using True v step unfolding sg
      by (simp add: p9p_walk_loop.simps [of put names count i b ptr n] Let_def add.assoc)
  next
    case False
    then show ?thesis using "1.prems"
      by (simp add: p9p_walk_loop.simps [of put names count i b ptr n] word_less_nat_alt)
  qed
qed

lemma encodes_putwalk [simp]:
  assumes "\<forall>v \<in> set names. encodes (put v) (e v)" "unat count \<le> length names"
  shows "encodes (putwalk put names count) (concat (map e (take (unat count) names)))"
  unfolding encodes_def putwalk_def
  using p9p_walk_loop_ok [OF assms(1), of "ucast count" _ _ 0] assms(2)
  by (simp add: ucast_u16_u32 seg_def Let_def)

text \<open>A message as it is specified: the size, the type, the tag and the fields.\<close>

definition p9p_wire :: "u8 \<Rightarrow> u16 \<Rightarrow> u8 list \<Rightarrow> u8 list" where
  "p9p_wire type tag pay = le32 (of_nat (7 + length pay)) @ [type] @ le16 tag @ pay"

lemma p9p_mk_ok:
  assumes "ptr + 7 \<le> length b"
  shows "p9p_mk b ptr sz type tag = Some (7, blit b ptr (le32 sz @ [type] @ le16 tag))"
proof -
  let ?b1 = "blit b ptr (le32 sz)"
  let ?b2 = "blit b ptr (le32 sz @ [type])"
  have "blit ?b1 (ptr + 4) [type] = ?b2"
    using assms by (intro blit_blit_append) simp_all
  moreover have "blit ?b2 (ptr + 5) (le16 tag) = blit b ptr ((le32 sz @ [type]) @ le16 tag)"
    using assms by (intro blit_blit_append) simp_all
  ultimately show ?thesis using assms by (simp add: p9p_mk_def p9p_write_ok)
qed

lemma p9p_message_ok:
  assumes "list_all2 encodes fs es"
    and "ptr + 7 + length (concat es) \<le> length b" "7 + length (concat es) < 4294967296"
  shows "p9p_message fs type b ptr tag =
    Some (of_nat (7 + length (concat es)), blit b ptr (p9p_wire type tag (concat es)))"
proof -
  let ?n = "of_nat (7 + length (concat es)) :: u32" and ?pay = "concat es"
  have "p9p_fields fs b ptr 7 = Some (?n, blit b (ptr + 7) ?pay)"
    using p9p_fields_ok [OF assms(1), of ptr 7 b] assms(2,3) by simp
  moreover have "p9p_mk (blit b (ptr + 7) ?pay) ptr ?n type tag =
      Some (7, blit (blit b (ptr + 7) ?pay) ptr (le32 ?n @ [type] @ le16 tag))"
    using assms(2) by (intro p9p_mk_ok) simp
  moreover have "blit (blit b (ptr + 7) ?pay) ptr (le32 ?n @ [type] @ le16 tag) =
      blit b ptr ((le32 ?n @ [type] @ le16 tag) @ ?pay)"
    using assms(2) by (intro blit_blit_prepend) simp_all
  ultimately show ?thesis by (simp add: p9p_message_def p9p_wire_def)
qed

text \<open>The outcome of a message routine: if there is room, the message and its length.\<close>

definition sends :: "(u32 \<times> u8 list) option \<Rightarrow> u8 list \<Rightarrow> nat \<Rightarrow> u8 \<Rightarrow> u16 \<Rightarrow> u8 list \<Rightarrow> bool" where
  "sends r b ptr type tag pay \<longleftrightarrow>
     (ptr + 7 + length pay \<le> length b \<and> 7 + length pay < 4294967296 \<longrightarrow>
      r = Some (of_nat (7 + length pay), blit b ptr (p9p_wire type tag pay)))"

definition payload_of :: "p9p_field list \<Rightarrow> u8 list \<Rightarrow> bool" where
  "payload_of fs pay \<longleftrightarrow> (\<exists>es. list_all2 encodes fs es \<and> pay = concat es)"

lemma payload_none: "payload_of [] []"
  by (simp add: payload_of_def)

lemma payload_last: "encodes f e \<Longrightarrow> payload_of [f] e"
  unfolding payload_of_def by (rule exI [of _ "[e]"]) simp

lemma payload_more: "encodes f e \<Longrightarrow> payload_of fs pay \<Longrightarrow> payload_of (f # fs) (e @ pay)"
  unfolding payload_of_def by (metis concat.simps(2) list_all2_Cons)

lemma payload_put8:
  "payload_of fs pay \<Longrightarrow> payload_of (put8 vl vh # fs) (le32 vl @ le32 vh @ pay)"
  using payload_more [OF encodes_put(4)] by simp

lemmas payload_intros = payload_none payload_last payload_put8 payload_more encodes_put encodes_puts

lemma p9p_message_sends:
  "payload_of fs pay \<Longrightarrow> sends (p9p_message fs type b ptr tag) b ptr type tag pay"
  by (auto simp: payload_of_def sends_def p9p_message_ok)

text \<open>Reading a message back through the routines the receivers use.\<close>

lemma p9p_wire_reads:
  fixes type :: u8 and tag :: u16
  assumes "ptr + 7 + length pay \<le> length b"
  defines "m \<equiv> blit b ptr (p9p_wire type tag pay)"
  shows "p9p_read4 m ptr 0 = Some (of_nat (7 + length pay))"
    and "p9p_read1 m ptr 4 = Some type" and "p9p_read2 m ptr 5 = Some tag"
    and "seg m (p9p_readbuffer ptr 7) (length pay) = pay"
proof -
  let ?w = "p9p_wire type tag pay"
  have len: "length ?w = 7 + length pay" by (simp add: p9p_wire_def)
  have fit: "ptr + length ?w \<le> length b" using assms(1) len by simp
  show "p9p_read4 m ptr 0 = Some (of_nat (7 + length pay))"
    using p9p4.load_in_block [OF fit, of 0 "of_nat (7 + length pay)"] len
    by (simp add: m_def p9p_wire_def seg_def)
  show "p9p_read1 m ptr 4 = Some type"
    using p9p1.load_in_block [OF fit, of 4 type] len
    by (simp add: m_def p9p_read_offset(1) [of _ _ 4] p9p_wire_def seg_def)
  show "p9p_read2 m ptr 5 = Some tag"
    using p9p2.load_in_block [OF fit, of 5 tag] len
    by (simp add: m_def p9p_read_offset(2) [of _ _ 5] p9p_wire_def seg_def)
  show "seg m (p9p_readbuffer ptr 7) (length pay) = pay"
    using seg_blit_inner [OF fit, of 7 "length pay"] len
    by (simp add: m_def p9p_readbuffer_def p9p_wire_def seg_def)
qed

lemmas p9p_requests = p9p_mktversion_def p9p_mktauth_def p9p_mktauth_u_def p9p_mktattach_def
  p9p_mktattach_u_def p9p_mktflush_def p9p_mktwalk_def p9p_mktopen_def p9p_mktcreate_def
  p9p_mktread_def p9p_mktwrite_def p9p_mktclunk_def p9p_mktremove_def p9p_mktstat_def
  p9p_mktwstat_def p9p_mktgetattr_def

lemmas p9p_replies = p9p_mkrlerror_def p9p_mkrerror_def p9p_mkrversion_def p9p_mkrauth_def
  p9p_mkrattach_def p9p_mkrflush_def p9p_mkrwalk_def p9p_mkropen_def p9p_mkrcreate_def
  p9p_mkrread_def p9p_mkrwrite_def p9p_mkrclunk_def p9p_mkrremove_def p9p_mkrstat_def
  p9p_mkrwstat_def p9p_mkrgetattr_def

section \<open>Reading a list of strings\<close>

text \<open>A receiver that reads \<open>k\<close> strings one after the other through the read routines.\<close>

primrec p9p_parse_strings :: "nat \<Rightarrow> u8 list \<Rightarrow> nat \<Rightarrow> u32 \<Rightarrow> u8 list list option" where
  "p9p_parse_strings 0 m ptr off = Some []"
| "p9p_parse_strings (Suc k) m ptr off =
     do { len \<leftarrow> p9p_readstringlength m ptr off;
          let str = seg m (p9p_readstringdata ptr off) (unat len);
          rest \<leftarrow> p9p_parse_strings k m ptr (off + 2 + ucast len);
          Some (str # rest) }"

lemma p9p_parse_strings_ok:
  assumes "\<forall>v \<in> set names. p9p_text v"
    and "drop (ptr + unat off) m = concat (map p9p_string names) @ rest"
    and "unat off + length (concat (map p9p_string names)) < 4294967296" "ptr + unat off \<le> length m"
  shows "p9p_parse_strings (length names) m ptr off = Some (map c_string names)"
  using assms
proof (induction names arbitrary: off)
  case (Cons v names)
  let ?len = "length (c_string v)" and ?pay = "concat (map p9p_string names)"
  have short: "?len < 65536" using Cons.prems(1) by (simp add: p9p_text_def)
  have len: "unat (of_nat ?len :: u16) = ?len" by (rule unat_of_nat_u16 [OF short])
  have m: "drop (ptr + unat off) m = le16 (of_nat ?len) @ c_string v @ ?pay @ rest"
    using Cons.prems(2) by (simp add: p9p_string_def [of v])
  have long: "ptr + unat off + 2 + ?len \<le> length m"
    using arg_cong [OF m, of length] Cons.prems(4) by simp
  have r1: "p9p_readstringlength m ptr off = Some (of_nat ?len)"
    using p9p2.load [of "ptr + unat off" m "of_nat ?len"] long
    by (simp add: p9p_readstringlength_def p9p_read_offset(2) [of m ptr off] seg_def m)
  have "drop (ptr + unat off + 2) m = c_string v @ ?pay @ rest"
    using m by (metis drop_drop add.commute append_eq_conv_conj length_le_be(1))
  then have r2: "seg m (p9p_readstringdata ptr off) ?len = c_string v"
    by (simp add: p9p_readstringdata_def seg_def)
  define nx where "nx = off + 2 + (ucast (of_nat ?len :: u16) :: u32)"
  have "(ucast (of_nat ?len :: u16) :: u32) = of_nat ?len"
    using short by (simp add: unsigned_of_nat take_bit_nat_eq_self)
  then have "nx = off + of_nat (2 + ?len)" by (simp add: nx_def)
  then have un: "unat nx = unat off + 2 + ?len"
    using Cons.prems(3) unat_add_of_nat [of off "2 + ?len"] by (simp add: p9p_string_def)
  have "drop (ptr + unat nx) m = ?pay @ rest"
  proof -
    have "ptr + unat nx = ?len + (ptr + unat off + 2)" by (simp add: un)
    then have "drop (ptr + unat nx) m = drop ?len (drop (ptr + unat off + 2) m)"
      by (simp only: drop_drop)
    also have "\<dots> = drop ?len (c_string v @ ?pay @ rest)"
      by (simp only: \<open>drop (ptr + unat off + 2) m = c_string v @ ?pay @ rest\<close>)
    finally show ?thesis by simp
  qed
  then have "p9p_parse_strings (length names) m ptr nx = Some (map c_string names)"
    using Cons.prems un long by (intro Cons.IH) (simp_all add: p9p_string_def [of v])
  then show ?case using r1 r2 len by (simp add: nx_def)
qed simp

section \<open>Properties\<close>

text \<open>
  C12: what each of the sixteen 9P request routines puts on the wire. With room in the buffer it
  returns the length of the message and stores at the buffer pointer the little-endian size
  (including the header), the type, the tag and the fields in protocol order, and changes no other
  byte. Strings go out with a 16 bit length and without the terminator. Fifteen of them send the
  whole message of the protocol; \<^verbatim>\<open>p9p_mktwstat\<close> sends the fid only and leaves out the stat
  record that it is given.
\<close>

theorem p9p_requests_on_wire:
  assumes "p9p_text s1" "p9p_text s2" "list_all p9p_text names" "unat nwname \<le> length names"
    and "unat count \<le> length payload" "length msk = 8"
  shows "sends (p9p_mktversion b ptr tag msize s1) b ptr P9P_TVERSION tag (le32 msize @ p9p_string s1) \<and>
    sends (p9p_mktauth b ptr tag afid s1 s2) b ptr P9P_TAUTH tag
      (le32 afid @ p9p_string s1 @ p9p_string s2) \<and>
    sends (p9p_mktauth_u b ptr tag afid s1 s2 nuname) b ptr P9P_TAUTH tag
      (le32 afid @ p9p_string s1 @ p9p_string s2 @ le32 nuname) \<and>
    sends (p9p_mktattach b ptr tag fid afid s1 s2) b ptr P9P_TATTACH tag
      (le32 fid @ le32 afid @ p9p_string s1 @ p9p_string s2) \<and>
    sends (p9p_mktattach_u b ptr tag fid afid s1 s2 nuname) b ptr P9P_TATTACH tag
      (le32 fid @ le32 afid @ p9p_string s1 @ p9p_string s2 @ le32 nuname) \<and>
    sends (p9p_mktflush b ptr tag oldtag) b ptr P9P_TFLUSH tag (le16 oldtag) \<and>
    sends (p9p_mktwalk b ptr tag fid newfid nwname names) b ptr P9P_TWALK tag
      (le32 fid @ le32 newfid @ le16 nwname @ concat (map p9p_string (take (unat nwname) names))) \<and>
    sends (p9p_mktopen b ptr tag fid mode) b ptr P9P_TOPEN tag (le32 fid @ [mode]) \<and>
    sends (p9p_mktcreate b ptr tag fid s1 perm mode) b ptr P9P_TCREATE tag
      (le32 fid @ p9p_string s1 @ le32 perm @ [mode]) \<and>
    sends (p9p_mktread b ptr tag fid offl offh count) b ptr P9P_TREAD tag
      (le32 fid @ le32 offl @ le32 offh @ le32 count) \<and>
    sends (p9p_mktwrite b ptr tag fid offl offh count payload) b ptr P9P_TWRITE tag
      (le32 fid @ le32 offl @ le32 offh @ le32 count @ take (unat count) payload) \<and>
    sends (p9p_mktclunk b ptr tag fid) b ptr P9P_TCLUNK tag (le32 fid) \<and>
    sends (p9p_mktremove b ptr tag fid) b ptr P9P_TREMOVE tag (le32 fid) \<and>
    sends (p9p_mktstat b ptr tag fid) b ptr P9P_TSTAT tag (le32 fid) \<and>
    sends (p9p_mktwstat b ptr tag fid stat) b ptr P9P_TWSTAT tag (le32 fid) \<and>
    sends (p9p_mktgetattr b ptr tag fid msk) b ptr P9P_TGETATTR tag (le32 fid @ msk)"
proof -
  have walk: "encodes (putwalk puts names nwname) (concat (map p9p_string (take (unat nwname) names)))"
    using assms(3,4) by (intro encodes_putwalk) (auto simp: list_all_iff)
  have data: "encodes (putb count payload) (take (unat count) payload)"
    using assms(5) by simp
  have m8: "encodes (putb 8 msk) msk" using encodes_putb [of 8 msk] assms(6) by simp
  show ?thesis
    unfolding p9p_requests
    by (intro conjI p9p_message_sends payload_intros assms(1,2) walk data m8)
qed

lemma demo_texts: "p9p_text [104, 105, 0]" "p9p_text [98, 0]" "list_all p9p_text [[104, 105, 0], [98, 0]]"
  by (simp_all add: p9p_text_def c_string_def)

theorem p9p_requests_on_wire_witness:
  "p9p_mktattach (replicate 30 0) 2 9 1 7 [104, 105, 0] [98, 0] =
     Some (22, replicate 2 0 @ [22, 0, 0, 0, 104, 9, 0, 1, 0, 0, 0, 7, 0, 0, 0, 2, 0, 104, 105,
       1, 0, 98] @ replicate 6 0)"
proof -
  have "sends (p9p_mktattach (replicate 30 0) 2 9 1 7 [104, 105, 0] [98, 0]) (replicate 30 0) 2
      P9P_TATTACH 9 (le32 1 @ le32 7 @ p9p_string [104, 105, 0] @ p9p_string [98, 0])"
    using p9p_requests_on_wire [OF demo_texts, of 2 0 "[]" "replicate 8 0" "replicate 30 0" 2 9 _ 7 _ 1]
    by simp
  then show ?thesis
    by (simp add: sends_def p9p_wire_def p9p_string_def c_string_def le16_def le32_def blit_def)
qed

text \<open>
  C37: what each of the sixteen 9P reply routines puts on the wire, in the same way; the 13 byte
  qids and the 8 byte attributes go out as they are. Fifteen of them send the whole message of the
  protocol; \<^verbatim>\<open>p9p_mkrstat\<close> sends a bare header and leaves out the stat record that it is given.
\<close>

theorem p9p_replies_on_wire:
  assumes "p9p_text s1" "unat count \<le> length payload" "length qid = 13"
    and "unat nwqid \<le> length qids" "list_all (\<lambda>q. length q = 13) qids"
    and "list_all (\<lambda>a. length a = 8) [valid, a1, a2, a3, a4, a5, a6, a7, a8, a9, a10, a11, a12, a13, a14, a15]"
  shows "sends (p9p_mkrlerror b ptr tag ecode) b ptr P9P_RLERROR tag (le32 ecode) \<and>
    sends (p9p_mkrerror b ptr tag s1) b ptr P9P_RERROR tag (p9p_string s1) \<and>
    sends (p9p_mkrversion b ptr tag msize s1) b ptr P9P_RVERSION tag (le32 msize @ p9p_string s1) \<and>
    sends (p9p_mkrauth b ptr tag qid) b ptr P9P_RAUTH tag qid \<and>
    sends (p9p_mkrattach b ptr tag qid) b ptr P9P_RATTACH tag qid \<and>
    sends (p9p_mkrflush b ptr tag) b ptr P9P_RFLUSH tag [] \<and>
    sends (p9p_mkrwalk b ptr tag nwqid qids) b ptr P9P_RWALK tag
      (le16 nwqid @ concat (take (unat nwqid) qids)) \<and>
    sends (p9p_mkropen b ptr tag qid iounit) b ptr P9P_ROPEN tag (qid @ le32 iounit) \<and>
    sends (p9p_mkrcreate b ptr tag qid iounit) b ptr P9P_RCREATE tag (qid @ le32 iounit) \<and>
    sends (p9p_mkrread b ptr tag count payload) b ptr P9P_RREAD tag
      (le32 count @ take (unat count) payload) \<and>
    sends (p9p_mkrwrite b ptr tag count) b ptr P9P_RWRITE tag (le32 count) \<and>
    sends (p9p_mkrclunk b ptr tag) b ptr P9P_RCLUNK tag [] \<and>
    sends (p9p_mkrremove b ptr tag) b ptr P9P_RREMOVE tag [] \<and>
    sends (p9p_mkrstat b ptr tag stat) b ptr P9P_RSTAT tag [] \<and>
    sends (p9p_mkrwstat b ptr tag) b ptr P9P_RWSTAT tag [] \<and>
    sends (p9p_mkrgetattr b ptr tag valid qid mode uid gid a1 a2 a3 a4 a5 a6 a7 a8 a9 a10 a11 a12 a13
        a14 a15) b ptr P9P_RGETATTR tag
      (valid @ qid @ le32 mode @ le32 uid @ le32 gid @ a1 @ a2 @ a3 @ a4 @ a5 @ a6 @ a7 @ a8 @ a9 @
       a10 @ a11 @ a12 @ a13 @ a14 @ a15)"
proof -
  have fixed: "encodes (putb k v) v" if "length v = unat k" for k v
    using encodes_putb [of k v] that by simp
  have "encodes (putwalk (putb 13) qids nwqid) (concat (map (\<lambda>v. v) (take (unat nwqid) qids)))"
    using assms(4,5) by (intro encodes_putwalk) (auto simp: list_all_iff intro: fixed)
  then have walk: "encodes (putwalk (putb 13) qids nwqid) (concat (take (unat nwqid) qids))" by simp
  have data: "encodes (putb count payload) (take (unat count) payload)" using assms(2) by simp
  show ?thesis
    unfolding p9p_replies
    by (intro conjI p9p_message_sends payload_intros assms(1) walk data fixed)
       (use assms(3,6) in simp_all)
qed

theorem p9p_replies_on_wire_witness:
  "p9p_mkrread (replicate 14 1) 0 3 2 [8, 9, 7] =
     Some (13, [13, 0, 0, 0, 117, 3, 0, 2, 0, 0, 0, 8, 9, 1])"
proof -
  let ?z = "replicate 8 (0 :: u8)"
  have "sends (p9p_mkrread (replicate 14 1) 0 3 2 [8, 9, 7]) (replicate 14 1) 0 P9P_RREAD 3
      (le32 2 @ take (unat (2 :: u32)) [8, 9, 7])"
    using p9p_replies_on_wire [OF demo_texts(1), of 2 "[8, 9, 7]" "replicate 13 0" 0 "[]" ?z ?z ?z ?z ?z
      ?z ?z ?z ?z ?z ?z ?z ?z ?z ?z ?z "replicate 14 1" 0 3] by simp
  then show ?thesis by (simp add: sends_def p9p_wire_def le16_def le32_def blit_def)
qed

text \<open>
  C23: a walk request reads back through the read routines: the header fields, both fids, the
  number of names, and the names themselves through \<^verbatim>\<open>p9p_readstringlength\<close> and
  \<^verbatim>\<open>p9p_readstringdata\<close> one after the other.
\<close>

theorem p9p_walk_roundtrip:
  assumes "list_all p9p_text names" "length names < 65536"
    and "ptr + 17 + length (concat (map p9p_string names)) \<le> length b" "length b < 4294967296"
  shows "\<exists>n m. p9p_mktwalk b ptr tag fid newfid (of_nat (length names)) names = Some (n, m) \<and>
    p9p_read4 m ptr 0 = Some n \<and> p9p_read1 m ptr 4 = Some P9P_TWALK \<and> p9p_read2 m ptr 5 = Some tag \<and>
    p9p_read4 m ptr 7 = Some fid \<and> p9p_read4 m ptr 11 = Some newfid \<and>
    p9p_read2 m ptr 15 = Some (of_nat (length names)) \<and>
    p9p_parse_strings (length names) m ptr 17 = Some (map c_string names)"
proof -
  let ?nw = "of_nat (length names) :: u16" and ?strs = "concat (map p9p_string names)"
  let ?pay = "le32 fid @ le32 newfid @ le16 ?nw @ ?strs"
  let ?w = "p9p_wire P9P_TWALK tag ?pay" and ?n = "of_nat (7 + length ?pay) :: u32"
  let ?m = "blit b ptr ?w"
  have nw: "unat ?nw = length names" by (rule unat_of_nat_u16 [OF assms(2)])
  have walk: "encodes (putwalk puts names ?nw) ?strs"
    using encodes_putwalk [of names puts p9p_string ?nw] assms(1) nw by (simp add: list_all_iff)
  have "sends (p9p_mktwalk b ptr tag fid newfid ?nw names) b ptr P9P_TWALK tag ?pay"
    unfolding p9p_mktwalk_def by (intro p9p_message_sends payload_intros walk)
  then have mk: "p9p_mktwalk b ptr tag fid newfid ?nw names = Some (?n, ?m)"
    using assms(3,4) by (simp add: sends_def)
  have len: "length ?w = 17 + length ?strs" by (simp add: p9p_wire_def)
  have fit: "ptr + length ?w \<le> length b" using assms(3) len by simp
  have room: "ptr + 7 + length ?pay \<le> length b" using assms(3) by simp
  have r7: "p9p_read4 ?m ptr 7 = Some fid"
    using p9p4.load_in_block [OF fit, of 7 fid] len
    by (simp add: p9p_read_offset(3) [of _ _ 7] p9p_wire_def seg_def)
  have r11: "p9p_read4 ?m ptr 11 = Some newfid"
    using p9p4.load_in_block [OF fit, of 11 newfid] len
    by (simp add: p9p_read_offset(3) [of _ _ 11] p9p_wire_def seg_def)
  have r15: "p9p_read2 ?m ptr 15 = Some ?nw"
    using p9p2.load_in_block [OF fit, of 15 ?nw] len
    by (simp add: p9p_read_offset(2) [of _ _ 15] p9p_wire_def seg_def)
  have "drop (ptr + 17) ?m = drop 17 ?w @ drop (ptr + length ?w) b"
    using fit len by (simp add: blit_def)
  also have "drop 17 ?w = ?strs" by (simp add: p9p_wire_def)
  finally have "p9p_parse_strings (length names) ?m ptr 17 = Some (map c_string names)"
    using assms fit by (intro p9p_parse_strings_ok) (auto simp: list_all_iff)
  with mk p9p_wire_reads(1-3) [OF room] r7 r11 r15 show ?thesis by auto
qed

theorem p9p_walk_roundtrip_witness:
  "\<exists>n m. p9p_mktwalk (replicate 40 0) 3 7 1 2 2 [[104, 105, 0], [98, 0]] = Some (n, m) \<and>
     p9p_read4 m 3 7 = Some 1 \<and> p9p_parse_strings 2 m 3 17 = Some [[104, 105], [98]]"
  using p9p_walk_roundtrip [OF demo_texts(3), of 3 "replicate 40 0" 7 1 2]
  by (auto simp: p9p_string_def c_string_def numeral_2_eq_2 [symmetric]
      simp del: p9p_parse_strings.simps)

end
