(* ===== verification/Libz_Net.thy ===== *)
theory Libz_Net
  imports Byte_Codec Libz_Cstring
begin

text \<open>
  \<^verbatim>\<open>libz/net\<close>: big-endian fields, the headers of Ethernet, ARP, IPv4, ICMP, TCP and UDP, and the
  Internet checksum. A header pointer is an object with the index it points to;
  the members of the header structs are byte arrays, so they lie at fixed offsets.
\<close>

section \<open>Fields in network order\<close>

definition net_load8 :: "u8 list \<Rightarrow> nat \<Rightarrow> u8 option" where
  "net_load8 b i = rd b i"

definition net_load16 :: "u8 list \<Rightarrow> nat \<Rightarrow> u16 option" where
  "net_load16 b i =
     do { c0 \<leftarrow> rd b i; c1 \<leftarrow> rd b (i + 1); Some (push_bit 8 (ucast c0) OR ucast c1) }"

definition net_load32 :: "u8 list \<Rightarrow> nat \<Rightarrow> u32 option" where
  "net_load32 b i =
     do { c0 \<leftarrow> rd b i; c1 \<leftarrow> rd b (i + 1); c2 \<leftarrow> rd b (i + 2); c3 \<leftarrow> rd b (i + 3);
          Some (push_bit 24 (ucast c0) OR push_bit 16 (ucast c1) OR push_bit 8 (ucast c2) OR ucast c3) }"

definition net_save8 :: "u8 list \<Rightarrow> nat \<Rightarrow> u8 \<Rightarrow> u8 list option" where
  "net_save8 b i num = wr b i num"

definition net_save16 :: "u8 list \<Rightarrow> nat \<Rightarrow> u16 \<Rightarrow> u8 list option" where
  "net_save16 b i num =
     do { b \<leftarrow> wr b i (ucast (drop_bit 8 num)); wr b (i + 1) (ucast num) }"

definition net_save32 :: "u8 list \<Rightarrow> nat \<Rightarrow> u32 \<Rightarrow> u8 list option" where
  "net_save32 b i num =
     do { b \<leftarrow> wr b i (ucast (drop_bit 24 num)); b \<leftarrow> wr b (i + 1) (ucast (drop_bit 16 num));
          b \<leftarrow> wr b (i + 2) (ucast (drop_bit 8 num)); wr b (i + 3) (ucast num) }"

section \<open>Ethernet and ARP\<close>

definition ethernet_hlen :: u16 where
  "ethernet_hlen = 14"

definition ethernet_initheader :: "u8 list \<Rightarrow> nat \<Rightarrow> u16 \<Rightarrow> u8 list \<Rightarrow> u8 list \<Rightarrow> u8 list option" where
  "ethernet_initheader b h type sha tha =
     do { b \<leftarrow> net_save16 b (h + 12) type; b \<leftarrow> buffer_copy b (h + 6) sha 6; buffer_copy b h tha 6 }"

text \<open>The \<^verbatim>\<open>putheader\<close> routines initialise the header at the start of the buffer and return it.\<close>

definition ethernet_putheader :: "u8 list \<Rightarrow> nat \<Rightarrow> u16 \<Rightarrow> u8 list \<Rightarrow> u8 list \<Rightarrow> (nat \<times> u8 list) option" where
  "ethernet_putheader b h type sha tha =
     do { b \<leftarrow> ethernet_initheader b h type sha tha; Some (h, b) }"

definition arp_hlen :: u16 where
  "arp_hlen = 8"

definition arp_len :: "u8 list \<Rightarrow> nat \<Rightarrow> u16 option" where
  "arp_len b h =
     do { hl \<leftarrow> net_load8 b (h + 4); pl \<leftarrow> net_load8 b (h + 5);
          Some (8 + ucast hl * 2 + ucast pl * 2) }"

definition arp_initheader ::
  "u8 list \<Rightarrow> nat \<Rightarrow> u16 \<Rightarrow> u8 \<Rightarrow> u16 \<Rightarrow> u8 \<Rightarrow> u16 \<Rightarrow> u8 list option" where
  "arp_initheader b h htype hlength ptype plength operation =
     do { b \<leftarrow> net_save16 b h htype; b \<leftarrow> net_save16 b (h + 2) ptype; b \<leftarrow> net_save8 b (h + 4) hlength;
          b \<leftarrow> net_save8 b (h + 5) plength; net_save16 b (h + 6) operation }"

definition arp_putheader ::
  "u8 list \<Rightarrow> nat \<Rightarrow> u16 \<Rightarrow> u8 \<Rightarrow> u16 \<Rightarrow> u8 \<Rightarrow> u16 \<Rightarrow> (nat \<times> u8 list) option" where
  "arp_putheader b h htype hlength ptype plength operation =
     do { b \<leftarrow> arp_initheader b h htype hlength ptype plength operation; Some (h, b) }"

section \<open>The Internet checksum\<close>

text \<open>\<^verbatim>\<open>*payload\<close>: a little-endian load of an \<^verbatim>\<open>unsigned short\<close>.\<close>

definition load_short :: "u8 list \<Rightarrow> nat \<Rightarrow> u32 option" where
  "load_short b i = do { c0 \<leftarrow> rd b i; c1 \<leftarrow> rd b (i + 1); Some (ucast c0 OR push_bit 8 (ucast c1)) }"

function checksum_loop :: "u8 list \<Rightarrow> nat \<Rightarrow> u32 \<Rightarrow> u32 \<Rightarrow> u32 option" where
  "checksum_loop b p len acc =
     (if len > 1 then
        do { w \<leftarrow> load_short b p;
             let acc = acc + w;
             let acc = (if acc AND 0x80000000 \<noteq> 0 then (acc AND 0xFFFF) + drop_bit 16 acc else acc);
             checksum_loop b (p + 2) (len - 2) acc }
      else Some acc)"
  by pat_completeness auto
termination
  by (relation "measure (\<lambda>(b, p, len, acc). unat len)")
     (auto simp: word_less_nat_alt unat_sub_if')

declare checksum_loop.simps [simp del]

text \<open>The final folding of the carries; it gets smaller with every round.\<close>

lemma unat_fold:
  "unat ((s AND 0xFFFF) + drop_bit 16 s :: u32) = unat s mod 65536 + unat s div 65536"
proof -
  have "unat s mod 65536 + unat s div 65536 \<le> unat s"
    using div_mult_mod_eq [of "unat s" 65536] by linarith
  then have "unat (s AND 0xFFFF) + unat (drop_bit 16 s) < 4294967296"
    using unat_less_u32 [of s] unfolding unat_and_0xFFFF unat_drop_16 by linarith
  then show ?thesis by (simp only: unat_add_u32 unat_and_0xFFFF unat_drop_16)
qed

lemma carry_iff: "drop_bit 16 s = (0 :: u32) \<longleftrightarrow> unat s < 65536"
  using unat_drop_16 [of s] unat_eq_0 [of "drop_bit 16 s"] by auto

function checksum_fold :: "u32 \<Rightarrow> u32" where
  "checksum_fold acc =
     (if drop_bit 16 acc \<noteq> 0 then checksum_fold ((acc AND 0xFFFF) + drop_bit 16 acc) else acc)"
  by pat_completeness auto
termination
proof (relation "measure unat")
  fix acc :: u32 assume "drop_bit 16 acc \<noteq> 0"
  then have "65536 \<le> unat acc" by (simp add: carry_iff)
  then have "0 < unat acc div 65536" by (simp add: div_greater_zero_iff)
  moreover have "unat acc div 65536 * 65536 + unat acc mod 65536 = unat acc"
    by (rule div_mult_mod_eq)
  ultimately have "unat acc mod 65536 + unat acc div 65536 < unat acc" by linarith
  then show "((acc AND 0xFFFF) + drop_bit 16 acc, acc) \<in> measure unat"
    by (simp add: unat_fold)
qed simp

declare checksum_fold.simps [simp del]

definition ipv4_calculatechecksum :: "u8 list \<Rightarrow> nat \<Rightarrow> u32 \<Rightarrow> u16 option" where
  "ipv4_calculatechecksum b h len =
     do { acc \<leftarrow> checksum_loop b h len 0; Some (ucast (NOT (checksum_fold acc))) }"

section \<open>IPv4 and ICMP\<close>

definition ipv4_hlen :: "u8 list \<Rightarrow> nat \<Rightarrow> u16 option" where
  "ipv4_hlen b h = do { v \<leftarrow> net_load8 b h; Some ((ucast v AND 0x0F) * 4) }"

definition ipv4_len :: "u8 list \<Rightarrow> nat \<Rightarrow> u16 option" where
  "ipv4_len b h = net_load16 b (h + 2)"

definition ipv4_initheader ::
  "u8 list \<Rightarrow> nat \<Rightarrow> u8 list \<Rightarrow> u8 list \<Rightarrow> u32 \<Rightarrow> u32 \<Rightarrow> u8 list option" where
  "ipv4_initheader b h sip tip protocol count =
     do { b \<leftarrow> net_save8 b h 0x45; b \<leftarrow> net_save8 b (h + 1) 0;
          b \<leftarrow> net_save16 b (h + 2) (ucast (count + 20)); b \<leftarrow> net_save16 b (h + 4) 0;
          b \<leftarrow> net_save16 b (h + 6) 0; b \<leftarrow> net_save8 b (h + 8) 64;
          b \<leftarrow> net_save8 b (h + 9) (ucast protocol); b \<leftarrow> net_save16 b (h + 10) 0;
          b \<leftarrow> buffer_copy b (h + 12) sip 4; b \<leftarrow> buffer_copy b (h + 16) tip 4;
          checksum \<leftarrow> ipv4_calculatechecksum b h 20;
          b \<leftarrow> wr b (h + 10) (ucast checksum); wr b (h + 11) (ucast (drop_bit 8 checksum)) }"

definition ipv4_putheader ::
  "u8 list \<Rightarrow> nat \<Rightarrow> u8 list \<Rightarrow> u8 list \<Rightarrow> u8 \<Rightarrow> u16 \<Rightarrow> (nat \<times> u8 list) option" where
  "ipv4_putheader b h sip tip protocol len =
     do { b \<leftarrow> ipv4_initheader b h sip tip (ucast protocol) (ucast len); Some (h, b) }"

definition icmp_calculatechecksum :: "u8 list \<Rightarrow> nat \<Rightarrow> u32 \<Rightarrow> u16 option" where
  "icmp_calculatechecksum b h len =
     do { acc \<leftarrow> checksum_loop b h len 0; Some (ucast (NOT (checksum_fold acc))) }"

definition icmp_hlen :: u16 where
  "icmp_hlen = 4"

definition icmp_initheader :: "u8 list \<Rightarrow> nat \<Rightarrow> u8 \<Rightarrow> u8 \<Rightarrow> u8 list option" where
  "icmp_initheader b h type code =
     do { b \<leftarrow> net_save8 b h type; b \<leftarrow> net_save8 b (h + 1) code; net_save16 b (h + 2) 0 }"

definition icmp_putheader :: "u8 list \<Rightarrow> nat \<Rightarrow> u8 \<Rightarrow> u8 \<Rightarrow> (nat \<times> u8 list) option" where
  "icmp_putheader b h type code = do { b \<leftarrow> icmp_initheader b h type code; Some (h, b) }"

section \<open>TCP and UDP\<close>

definition htons :: "u16 \<Rightarrow> u16" where
  "htons v =
     (let c1 = (ucast v :: u8); c2 = (ucast (drop_bit 8 v) :: u8) in push_bit 8 (ucast c1) OR ucast c2)"

text \<open>
  The pseudo header and the payload loop, which the two protocols have in the same words. The
  loop counts the 16 bit \<^verbatim>\<open>len\<close> down; an odd last byte is read as half of a short.
\<close>

definition pseudo_sum :: "u8 list \<Rightarrow> u8 list \<Rightarrow> u16 \<Rightarrow> u16 \<Rightarrow> u32 option" where
  "pseudo_sum sip tip proto len =
     do { s \<leftarrow> load_short sip 0; s' \<leftarrow> load_short sip 2; t \<leftarrow> load_short tip 0; t' \<leftarrow> load_short tip 2;
          Some (s + s' + t + t' + ucast (htons proto) + ucast (htons len)) }"

function payload_loop :: "u8 list \<Rightarrow> nat \<Rightarrow> u16 \<Rightarrow> u32 \<Rightarrow> (u32 \<times> nat \<times> u16) option" where
  "payload_loop b p len acc =
     (if len > 1 then do { w \<leftarrow> load_short b p; payload_loop b (p + 2) (len - 2) (acc + w) }
      else Some (acc, p, len))"
  by pat_completeness auto
termination
  by (relation "measure (\<lambda>(b, p, len, acc). unat len)")
     (auto simp: word_less_nat_alt unat_sub_if')

declare payload_loop.simps [simp del]

definition transport_sum :: "u8 list \<Rightarrow> nat \<Rightarrow> u8 list \<Rightarrow> u8 list \<Rightarrow> u16 \<Rightarrow> u16 \<Rightarrow> u32 option" where
  "transport_sum b h sip tip proto len =
     do { acc \<leftarrow> pseudo_sum sip tip proto len;
          (acc, p, len) \<leftarrow> payload_loop b h len acc;
          acc \<leftarrow> (if len > 0 then do { w \<leftarrow> load_short b p; Some (acc + (w AND ucast (htons 0xFF00))) }
                  else Some acc);
          Some (checksum_fold acc) }"

definition tcp_checksum :: "u8 list \<Rightarrow> nat \<Rightarrow> u8 list \<Rightarrow> u8 list \<Rightarrow> u16 \<Rightarrow> u16 option" where
  "tcp_checksum b h sip tip len =
     do { acc \<leftarrow> transport_sum b h sip tip 6 len; Some (ucast (NOT acc)) }"

definition tcp_hlen :: "u8 list \<Rightarrow> nat \<Rightarrow> u16 option" where
  "tcp_hlen b h = do { f \<leftarrow> rd b (h + 12); Some (ucast (drop_bit 4 f) * 4) }"

definition tcp_initheader :: "u8 list \<Rightarrow> nat \<Rightarrow> u8 list \<Rightarrow> u8 list \<Rightarrow> u8 list option" where
  "tcp_initheader b h sp tp =
     do { b \<leftarrow> buffer_copy b h sp 2; b \<leftarrow> buffer_copy b (h + 2) tp 2; b \<leftarrow> net_save32 b (h + 4) 0;
          b \<leftarrow> net_save32 b (h + 8) 0; b \<leftarrow> net_save16 b (h + 12) 0; b \<leftarrow> net_save16 b (h + 14) 0;
          b \<leftarrow> net_save16 b (h + 16) 0; net_save16 b (h + 18) 0 }"

definition tcp_putheader ::
  "u8 list \<Rightarrow> nat \<Rightarrow> u8 list \<Rightarrow> u8 list \<Rightarrow> u16 \<Rightarrow> u32 \<Rightarrow> u32 \<Rightarrow> u32 \<Rightarrow> (nat \<times> u8 list) option" where
  "tcp_putheader b h sp tp flags seq ack window =
     do { b \<leftarrow> tcp_initheader b h sp tp; b \<leftarrow> wr b (h + 12) 80; b \<leftarrow> wr b (h + 13) (ucast flags);
          b \<leftarrow> net_save32 b (h + 4) seq; b \<leftarrow> net_save32 b (h + 8) ack;
          b \<leftarrow> net_save16 b (h + 14) (ucast window); Some (h, b) }"

definition udp_checksum :: "u8 list \<Rightarrow> nat \<Rightarrow> u8 list \<Rightarrow> u8 list \<Rightarrow> u16 \<Rightarrow> u16 option" where
  "udp_checksum b h sip tip len =
     do { acc \<leftarrow> transport_sum b h sip tip 0x11 len;
          let acc2 = (ucast (NOT acc) :: u16);
          Some (if acc2 \<noteq> 0 then acc2 else 0xFFFF) }"

definition udp_hlen :: u16 where
  "udp_hlen = 8"

definition udp_initheader :: "u8 list \<Rightarrow> nat \<Rightarrow> u8 list \<Rightarrow> u8 list \<Rightarrow> u32 \<Rightarrow> u8 list option" where
  "udp_initheader b h sp tp count =
     do { b \<leftarrow> buffer_copy b h sp 2; b \<leftarrow> buffer_copy b (h + 2) tp 2;
          b \<leftarrow> net_save16 b (h + 4) (ucast (count + 8)); net_save16 b (h + 6) 0 }"

definition udp_putheader ::
  "u8 list \<Rightarrow> nat \<Rightarrow> u8 list \<Rightarrow> u8 list \<Rightarrow> u32 \<Rightarrow> (nat \<times> u8 list) option" where
  "udp_putheader b h sp tp count = do { b \<leftarrow> udp_initheader b h sp tp count; Some (h, b) }"

section \<open>Headers in memory\<close>

lemma net_save_ok:
  "i + 1 \<le> length b \<Longrightarrow> net_save8 b i v1 = Some (blit b i [v1])"
  "i + 2 \<le> length b \<Longrightarrow> net_save16 b i v2 = Some (blit b i (be16 v2))"
  "i + 4 \<le> length b \<Longrightarrow> net_save32 b i v4 = Some (blit b i (be32 v4))"
  by (simp_all add: net_save8_def net_save16_def net_save32_def blit_single
      be16_def be32_def blit_Cons [symmetric] eval_nat_numeral)

lemma seg_two: "i + 2 \<le> length b \<Longrightarrow> seg b i 2 = [b ! i, b ! (i + 1)]"
  by (simp add: seg_Suc eval_nat_numeral)

lemma seg_four: "i + 4 \<le> length b \<Longrightarrow> seg b i 4 = [b ! i, b ! (i + 1), b ! (i + 2), b ! (i + 3)]"
  by (simp add: seg_Suc eval_nat_numeral)

interpretation net8: field_codec 1 "\<lambda>v. [v]" net_load8 net_save8
  by unfold_locales (auto simp: net_save_ok net_load8_def seg_Suc)

interpretation net16: field_codec 2 be16 net_load16 net_save16
  by unfold_locales (auto simp: net_save_ok net_load16_def seg_two be16_def)

interpretation net32: field_codec 4 be32 net_load32 net_save32
  by unfold_locales (auto simp: net_save_ok net_load32_def seg_four be32_def)

section \<open>The checksum as a sum in ones' complement\<close>

text \<open>
  The 16 bit words of a block in little-endian order, and the value a sum of such words folds to:
  the remainder modulo 65535, with 65535 and not 0 for a sum that is not zero.
\<close>

fun le_words :: "u8 list \<Rightarrow> nat list" where
  "le_words (x # y # zs) = (unat x + 256 * unat y) # le_words zs"
| "le_words _ = []"

definition folded :: "nat \<Rightarrow> nat" where
  "folded n = (if n = 0 then 0 else if n mod 65535 = 0 then 65535 else n mod 65535)"

definition same_sum :: "nat \<Rightarrow> nat \<Rightarrow> bool" where
  "same_sum m n \<longleftrightarrow> m mod 65535 = n mod 65535 \<and> (m = 0 \<longleftrightarrow> n = 0)"

lemma folded_same: "same_sum m n \<Longrightarrow> folded m = folded n"
  by (auto simp: same_sum_def folded_def)

lemma same_sum_add: "same_sum m n \<Longrightarrow> same_sum (m + k) (n + k)"
  by (auto simp: same_sum_def intro: mod_add_cong)

lemma same_sum_trans: "same_sum a b \<Longrightarrow> same_sum b c \<Longrightarrow> same_sum a c"
  by (simp add: same_sum_def)

lemma same_sum_fold: "same_sum (n mod 65536 + n div 65536) n"
proof -
  have n: "n = n div 65536 * 65535 + (n mod 65536 + n div 65536)"
    using div_mult_mod_eq [of n 65536] by linarith
  have "n mod 65535 = (n div 65536 * 65535 + (n mod 65536 + n div 65536)) mod 65535"
    using n by (rule arg_cong)
  then have "(n mod 65536 + n div 65536) mod 65535 = n mod 65535"
    by (simp only: mod_mult_self3)
  moreover have "n = 0" if "n mod 65536 + n div 65536 = 0"
    using n that by linarith
  then have "n mod 65536 + n div 65536 = 0 \<longleftrightarrow> n = 0" by auto
  ultimately show ?thesis by (simp add: same_sum_def)
qed

lemma folded_small: "n < 65536 \<Longrightarrow> folded n = n"
proof (cases "n = 65535")
  case False
  assume "n < 65536"
  with False have "n < 65535" by simp
  then show ?thesis by (simp add: folded_def)
qed (simp add: folded_def)

lemma folded_bound: "folded n \<le> 65535"
  by (simp add: folded_def)

lemma checksum_fold_ok: "unat (checksum_fold s) = folded (unat s)"
proof (induction s rule: checksum_fold.induct)
  case (1 s)
  show ?case
  proof (cases "unat s < 65536")
    case True
    then show ?thesis by (simp add: checksum_fold.simps [of s] carry_iff folded_small)
  next
    case False
    with 1 have "unat (checksum_fold s) = folded (unat s mod 65536 + unat s div 65536)"
      by (simp add: checksum_fold.simps [of s] carry_iff unat_fold)
    with folded_same [OF same_sum_fold] show ?thesis by simp
  qed
qed

lemma load_short_ok:
  assumes "i + 2 \<le> length b"
  shows "load_short b i = Some (of_nat (unat (b ! i) + 256 * unat (b ! (i + 1))))"
proof -
  let ?lo = "ucast (b ! i) :: u32" and ?hi = "push_bit 8 (ucast (b ! (i + 1))) :: u32"
  have "?lo OR ?hi = ?lo + ?hi"
    by (rule disjunctive_add [symmetric]) (auto simp: bit_simps dest: bit_imp_le_length)
  also have "\<dots> = of_nat (unat (b ! i) + 256 * unat (b ! (i + 1)))"
    by (simp add: push_bit_eq_mult)
  finally show ?thesis using assms by (simp add: load_short_def)
qed

lemma short_bound: "unat (x :: u8) + 256 * unat (y :: u8) < 65536"
  using unat_less_u8 [of x] unat_less_u8 [of y] by linarith

lemma le_words_step:
  "i + 2 \<le> length b \<Longrightarrow> 2 \<le> n \<Longrightarrow> le_words (seg b i n) =
   (unat (b ! i) + 256 * unat (b ! (i + 1))) # le_words (seg b (i + 2) (n - 2))"
  using seg_Suc [of i b "n - 1"] seg_Suc [of "Suc i" b "n - 2"] by (simp add: Suc_diff_Suc numeral_2_eq_2)

text \<open>One addition with the intermediate folding keeps the sum below \<^verbatim>\<open>0x80000000\<close>.\<close>

definition add_short :: "u32 \<Rightarrow> u32 \<Rightarrow> u32" where
  "add_short acc w = (let acc = acc + w in
     if acc AND 0x80000000 \<noteq> 0 then (acc AND 0xFFFF) + drop_bit 16 acc else acc)"

lemma add_short_ok:
  assumes "unat acc < 2147483648" "unat w < 65536"
  shows "unat (add_short acc w) < 2147483648" "same_sum (unat (add_short acc w)) (unat acc + unat w)"
proof -
  have s: "unat (acc + w) = unat acc + unat w" using assms by (intro unat_add_u32) linarith
  have "unat (acc + w) mod 65536 + unat (acc + w) div 65536 < 2147483648"
    if "\<not> unat (acc + w) < 2147483648"
  proof -
    have "unat (acc + w) div 65536 \<le> 32769" using s assms by linarith
    moreover have "unat (acc + w) mod 65536 < 65536" by simp
    ultimately show ?thesis by linarith
  qed
  then show "unat (add_short acc w) < 2147483648"
    by (auto simp: add_short_def Let_def high_bit unat_fold)
  show "same_sum (unat (add_short acc w)) (unat acc + unat w)"
    using same_sum_fold [of "unat acc + unat w"]
    by (simp add: add_short_def Let_def high_bit unat_fold s same_sum_def)
qed

lemma checksum_loop_ok:
  assumes "unat acc < 2147483648" "p + unat len \<le> length b"
  shows "\<exists>r. checksum_loop b p len acc = Some r \<and>
    same_sum (unat r) (unat acc + sum_list (le_words (seg b p (unat len))))"
  using assms
proof (induction b p len acc rule: checksum_loop.induct)
  case (1 b p len acc)
  show ?case
  proof (cases "len > 1")
    case True
    then have two: "2 \<le> unat len" by (simp add: word_less_nat_alt)
    have len2: "unat (len - 2) = unat len - 2" using two by (simp add: unat_sub_if')
    let ?k = "unat (b ! p) + 256 * unat (b ! (p + 1))"
    let ?w = "of_nat ?k :: u32"
    have w: "load_short b p = Some ?w" using two "1.prems" by (intro load_short_ok) simp
    have k: "unat ?w = ?k" using short_bound [of "b ! p" "b ! (p + 1)"] by (intro unat_of_nat_u32) linarith
    have step: "checksum_loop b p len acc = checksum_loop b (p + 2) (len - 2) (add_short acc ?w)"
      using True w by (simp add: checksum_loop.simps [of b p len acc] add_short_def Let_def)
    note add = add_short_ok [OF "1.prems"(1), of ?w, unfolded k, OF short_bound]
    have "\<exists>r. checksum_loop b (p + 2) (len - 2) (add_short acc ?w) = Some r \<and> same_sum (unat r)
        (unat (add_short acc ?w) + sum_list (le_words (seg b (p + 2) (unat (len - 2)))))"
      by (rule "1.IH" [OF True w refl])
         (use "1.prems" add two len2 in \<open>simp_all add: add_short_def Let_def\<close>)
    then obtain r where r: "checksum_loop b (p + 2) (len - 2) (add_short acc ?w) = Some r"
      "same_sum (unat r) (unat (add_short acc ?w) + sum_list (le_words (seg b (p + 2) (unat len - 2))))"
      unfolding len2 by blast
    have "same_sum (unat r) (unat acc + ?k + sum_list (le_words (seg b (p + 2) (unat len - 2))))"
      by (rule same_sum_trans [OF r(2) same_sum_add [OF add(2)]])
    moreover have "le_words (seg b p (unat len)) = ?k # le_words (seg b (p + 2) (unat len - 2))"
      using two "1.prems" by (intro le_words_step) simp_all
    ultimately show ?thesis using step r(1) by (simp add: add.assoc)
  next
    case False
    then have "unat len = 0 \<or> unat len = 1" by (auto simp: word_less_nat_alt)
    then have "le_words (seg b p (unat len)) = []"
      using "1.prems"(2) by (auto simp: seg_Suc)
    with False show ?thesis
      by (simp add: checksum_loop.simps [of b p len acc] same_sum_def)
  qed
qed

definition block_sum :: "u8 list \<Rightarrow> nat \<Rightarrow> nat \<Rightarrow> nat" where
  "block_sum b i n = sum_list (le_words (seg b i n))"

lemma unat_not_u16:
  assumes "unat (s :: u32) < 65536"
  shows "unat (ucast (NOT s) :: u16) = 65535 - unat s"
proof -
  have "unat (NOT s) = 4294967295 - unat s"
  proof -
    have "unat (- 1 - s) = unat (- 1 :: u32) - unat s" by (rule unat_sub) simp
    moreover have "NOT s = - 1 - s"
      unfolding not_eq_complement by (rule minus_diff_commute)
    ultimately show ?thesis by (simp add: unsigned_minus_1_eq_mask mask_eq_exp_minus_1)
  qed
  moreover have "(4294967295 - unat s) mod 65536 = 65535 - unat s"
  proof -
    have "4294967295 - unat s = 65535 * 65536 + (65535 - unat s)" using assms by linarith
    then show ?thesis using assms by (simp only: mod_mult_self3) simp
  qed
  ultimately show ?thesis by (simp add: unsigned_ucast_eq take_bit_eq_mod)
qed

lemma ipv4_calculatechecksum_ok:
  assumes "h + unat len \<le> length b"
  shows "ipv4_calculatechecksum b h len = Some (of_nat (65535 - folded (block_sum b h (unat len))))"
proof -
  from checksum_loop_ok [of 0 h len b] assms obtain r where
    r: "checksum_loop b h len 0 = Some r" "same_sum (unat r) (block_sum b h (unat len))"
    by (auto simp: block_sum_def)
  have f: "unat (checksum_fold r) = folded (block_sum b h (unat len))"
    using folded_same [OF r(2)] by (simp add: checksum_fold_ok)
  then have "unat (ucast (NOT (checksum_fold r)) :: u16) = 65535 - folded (block_sum b h (unat len))"
    using folded_bound [of "block_sum b h (unat len)"] by (subst unat_not_u16) simp_all
  from unat_eq_of_nat [OF this] r(1) show ?thesis by (simp add: ipv4_calculatechecksum_def)
qed

lemma icmp_calculatechecksum_eq: "icmp_calculatechecksum = ipv4_calculatechecksum"
  by (intro ext) (simp add: icmp_calculatechecksum_def ipv4_calculatechecksum_def)

lemma folded_complement: "folded (n + (65535 - folded n)) = 65535"
proof (cases "n mod 65535 = 0")
  case True
  then show ?thesis by (auto simp: folded_def)
next
  case False
  then have f: "folded n = n mod 65535" by (auto simp: folded_def)
  have lt: "n mod 65535 < 65535" by simp
  define m where "m = n + (65535 - folded n)"
  have "m = n div 65535 * 65535 + 65535"
    using div_mult_mod_eq [of n 65535] lt unfolding m_def f by linarith
  then have "m mod 65535 = 0" "m \<noteq> 0" by simp_all
  then have "folded m = 65535" by (simp add: folded_def)
  then show ?thesis by (simp only: m_def)
qed

lemma le16_value: "unat (ucast c :: u8) + 256 * unat (ucast (drop_bit 8 c) :: u8) = unat (c :: u16)"
proof -
  have "unat (ucast c :: u8) = unat c mod 256"
    by (simp add: unsigned_ucast_eq take_bit_eq_mod)
  moreover have "unat (ucast (drop_bit 8 c) :: u8) = unat c div 256"
  proof -
    have "unat (drop_bit 8 c) = unat c div 256"
      by (simp only: unat_drop_bit_eq) (simp add: drop_bit_eq_div)
    moreover have "unat c div 256 < 256" using unat_less_u16 [of c] by linarith
    ultimately show ?thesis by (simp only: unsigned_ucast_eq) (simp add: take_bit_eq_mod)
  qed
  ultimately show ?thesis using div_mult_mod_eq [of "unat c" 256] by linarith
qed

lemma le_words_append: "even (length xs) \<Longrightarrow> le_words (xs @ ys) = le_words xs @ le_words ys"
  by (induction xs rule: le_words.induct) auto

lemma seg_split: "m \<le> n \<Longrightarrow> seg b i n = seg b i m @ seg b (i + m) (n - m)"
  by (metis add.commute drop_drop le_add_diff_inverse seg_def take_add)

text \<open>Filling an even field that holds zero adds the value of the field to the sum of the block.\<close>

lemma block_sum_fill:
  assumes "i + n \<le> length b" "k + 2 \<le> n" "even k" "b ! (i + k) = 0" "b ! (i + k + 1) = 0"
  shows "block_sum (blit b (i + k) (le16 c)) i n = block_sum b i n + unat c"
proof -
  let ?xs = "seg b i k" and ?ys = "seg b (i + k + 2) (n - k - 2)"
  have old: "seg b i n = ?xs @ [0, 0] @ ?ys"
  proof -
    have "seg b i n = seg b i k @ seg b (i + k) 2 @ seg b (i + k + 2) (n - k - 2)"
      using assms seg_split [of k n b i] seg_split [of 2 "n - k" b "i + k"] by simp
    then show ?thesis using assms seg_two [of "i + k" b] by simp
  qed
  have new: "seg (blit b (i + k) (le16 c)) i n = ?xs @ le16 c @ ?ys"
  proof -
    have "seg (blit b (i + k) (le16 c)) i n = seg (blit b (i + k) (le16 c)) i k @
        seg (blit b (i + k) (le16 c)) (i + k) 2 @ seg (blit b (i + k) (le16 c)) (i + k + 2) (n - k - 2)"
      using assms seg_split [of k n "blit b (i + k) (le16 c)" i]
        seg_split [of 2 "n - k" "blit b (i + k) (le16 c)" "i + k"] by simp
    moreover have "seg (blit b (i + k) (le16 c)) (i + k) 2 = le16 c"
      using assms seg_blit_same [of "i + k" "le16 c" b] by simp
    ultimately show ?thesis using assms by (simp add: seg_blit_other)
  qed
  have ev: "even (length ?xs)" using assms by simp
  have "le_words (le16 c @ ?ys) = unat c # le_words ?ys"
    using le16_value [of c] by (simp add: le16_def)
  then show ?thesis
    unfolding block_sum_def old new le_words_append [OF ev] by simp
qed

lemma folded_complement_u16:
  "unat (of_nat (65535 - folded n) :: u16) = 65535 - folded n"
  by (simp add: unat_of_nat take_bit_eq_mod)

lemma checksum_verifies:
  assumes "h + n \<le> length b" "k + 2 \<le> n" "even k" "b ! (h + k) = 0" "b ! (h + k + 1) = 0"
  shows "folded (block_sum (blit b (h + k) (le16 (of_nat (65535 - folded (block_sum b h n))))) h n) = 65535"
  using block_sum_fill [OF assms] folded_complement by (simp add: folded_complement_u16)

section \<open>The IPv4 header\<close>

definition ipv4_bytes :: "u8 list \<Rightarrow> u8 list \<Rightarrow> u32 \<Rightarrow> u32 \<Rightarrow> u8 list \<Rightarrow> u8 list" where
  "ipv4_bytes sip tip protocol count csum =
     [0x45, 0] @ be16 (ucast (count + 20)) @ [0, 0, 0, 0, 64, ucast protocol] @ csum @ sip @ tip"

lemma be16_0: "be16 0 = [0, 0]"
  by (simp add: be16_def)

lemma wr_blit: "i + 1 \<le> length b \<Longrightarrow> wr b i v = Some (blit b i [v])"
  by (simp add: blit_single)

lemma ipv4_initheader_ok:
  fixes protocol count :: u32
  assumes "h + 20 \<le> length b" "length sip = 4" "length tip = 4"
  defines "b0 \<equiv> blit b h (ipv4_bytes sip tip protocol count [0, 0])"
  shows "ipv4_initheader b h sip tip protocol count =
    Some (blit b0 (h + 10) (le16 (of_nat (65535 - folded (block_sum b0 h 20)))))"
proof -
  have len: "length (ipv4_bytes sip tip protocol count [0, 0]) = 20"
    using assms(2,3) by (simp add: ipv4_bytes_def)
  have l0: "length b0 = length b" using assms(1) len by (simp add: b0_def)
  have csum: "ipv4_calculatechecksum b0 h 20 = Some (of_nat (65535 - folded (block_sum b0 h 20)))"
    using ipv4_calculatechecksum_ok [of h 20 b0] assms(1) l0 by simp
  have "ipv4_initheader b h sip tip protocol count =
     do { checksum \<leftarrow> ipv4_calculatechecksum b0 h 20;
          b \<leftarrow> wr b0 (h + 10) (ucast checksum); wr b (h + 11) (ucast (drop_bit 8 checksum)) }"
    using assms(1-3)
    by (simp add: ipv4_initheader_def net_save_ok blit_blit_append be16_0 ipv4_bytes_def b0_def)
  also have "\<dots> = Some (blit b0 (h + 10) (le16 (of_nat (65535 - folded (block_sum b0 h 20)))))"
    using assms(1) l0 by (simp add: csum wr_blit blit_blit_append le16_def del: wr_inside)
  finally show ?thesis .
qed

lemma blit_inner:
  "i + length xs \<le> length b \<Longrightarrow> k + length ys \<le> length xs \<Longrightarrow>
   blit (blit b i xs) (i + k) ys = blit b i (blit xs k ys)"
  by (rule nth_equalityI) (auto simp: nth_blit)

section \<open>The transport checksum\<close>

lemma le_words_bound: "sum_list (le_words xs) \<le> 65535 * (length xs div 2)"
proof (induction xs rule: le_words.induct)
  case (1 x y zs)
  have "unat x + 256 * unat y \<le> 65535" using short_bound [of x y] by linarith
  with 1 show ?case by simp
qed auto

lemma block_sum_bound: "n < 65536 \<Longrightarrow> block_sum b i n \<le> 2147385345"
proof -
  assume "n < 65536"
  then have "length (seg b i n) div 2 \<le> 32767" by simp
  then have "65535 * (length (seg b i n) div 2) \<le> 65535 * 32767" by (rule mult_le_mono2)
  with le_words_bound [of "seg b i n"] show ?thesis
    unfolding block_sum_def by linarith
qed

lemma block_sum_step:
  "i + 2 \<le> length b \<Longrightarrow> 2 \<le> n \<Longrightarrow>
   block_sum b i n = unat (b ! i) + 256 * unat (b ! (i + 1)) + block_sum b (i + 2) (n - 2)"
  by (simp add: block_sum_def le_words_step)

lemma payload_loop_ok:
  assumes "p + unat len \<le> length b"
  shows "payload_loop b p len acc =
    Some (acc + of_nat (block_sum b p (unat len)), p + 2 * (unat len div 2), of_nat (unat len mod 2))"
  using assms
proof (induction b p len acc rule: payload_loop.induct)
  case (1 b p len acc)
  show ?case
  proof (cases "len > 1")
    case True
    then have two: "2 \<le> unat len" by (simp add: word_less_nat_alt)
    have len2: "unat (len - 2) = unat len - 2" using two by (simp add: unat_sub_if')
    let ?w = "of_nat (unat (b ! p) + 256 * unat (b ! (p + 1))) :: u32"
    have w: "load_short b p = Some ?w" using two "1.prems" by (intro load_short_ok) simp
    have "payload_loop b (p + 2) (len - 2) (acc + ?w) = Some (acc + ?w + of_nat (block_sum b (p + 2)
        (unat (len - 2))), p + 2 + 2 * (unat (len - 2) div 2), of_nat (unat (len - 2) mod 2))"
      by (rule "1.IH" [OF True w]) (use "1.prems" two len2 in simp)
    moreover have "block_sum b p (unat len) =
        unat (b ! p) + 256 * unat (b ! (p + 1)) + block_sum b (p + 2) (unat len - 2)"
      using two "1.prems" by (intro block_sum_step) simp_all
    moreover have "2 + 2 * ((unat len - 2) div 2) = 2 * (unat len div 2)" "(unat len - 2) mod 2 = unat len mod 2"
      using two by (simp_all add: div_if [of "unat len"] mod_if [of "unat len"])
    ultimately show ?thesis
      using True w unfolding len2
      by (simp add: payload_loop.simps [of b p len acc] add.assoc)
  next
    case False
    then have "unat len = 0 \<or> unat len = 1" by (auto simp: word_less_nat_alt)
    moreover then have "block_sum b p (unat len) = 0"
      using "1.prems" by (auto simp: block_sum_def seg_Suc)
    ultimately show ?thesis using False
      by (auto simp: payload_loop.simps [of b p len acc] unat_eq_of_nat dest: unat_eq_of_nat)
  qed
qed

text \<open>
  The sum the transport checksums fold: the pseudo header, the words of the segment and an odd
  last byte.
\<close>

definition odd_byte :: "u8 list \<Rightarrow> nat \<Rightarrow> nat \<Rightarrow> nat" where
  "odd_byte b h n = (if odd n then unat (b ! (h + n - 1)) else 0)"

definition transport_total :: "u8 list \<Rightarrow> nat \<Rightarrow> u8 list \<Rightarrow> u8 list \<Rightarrow> u16 \<Rightarrow> u16 \<Rightarrow> nat" where
  "transport_total b h sip tip proto len =
     block_sum sip 0 4 + block_sum tip 0 4 + unat (htons proto) + unat (htons len) +
     block_sum b h (unat len) + odd_byte b h (unat len)"

lemma htons_ff00: "htons 0xFF00 = 0x00FF"
  by (simp add: htons_def Let_def)

lemma unat_and_0xFF: "unat (w AND 0xFF :: u32) = unat w mod 256"
proof -
  have "w AND 0xFF = take_bit 8 w" by (simp add: take_bit_eq_mask mask_eq_exp_minus_1)
  then show ?thesis by (simp only: unsigned_take_bit_eq) (simp add: take_bit_eq_mod)
qed

lemma pseudo_sum_ok:
  assumes "length sip = 4" "length tip = 4"
  shows "pseudo_sum sip tip proto len =
    Some (of_nat (block_sum sip 0 4 + block_sum tip 0 4 + unat (htons proto) + unat (htons len)))"
proof -
  have "block_sum a 0 4 = unat (a ! 0) + 256 * unat (a ! 1) + (unat (a ! 2) + 256 * unat (a ! 3))"
    if "length a = 4" for a :: "u8 list"
    using that block_sum_step [of 0 a 4] block_sum_step [of 2 a 2]
    by (simp add: block_sum_def numeral_2_eq_2 [symmetric])
  then show ?thesis
    using assms by (simp add: pseudo_sum_def load_short_ok ac_simps numeral_3_eq_3)
qed

lemma transport_sum_ok:
  assumes "length sip = 4" "length tip = 4" "h + unat len + unat len mod 2 \<le> length b"
  shows "\<exists>r. transport_sum b h sip tip proto len = Some r \<and>
    unat r = folded (transport_total b h sip tip proto len)"
proof -
  let ?n = "unat len" and ?P = "block_sum sip 0 4 + block_sum tip 0 4 + unat (htons proto) + unat (htons len)"
  have fit: "h + ?n \<le> length b" using assms(3) by linarith
  have small: "?P + block_sum b h ?n + odd_byte b h ?n < 4294967296"
  proof -
    have "block_sum b h ?n \<le> 2147385345" by (rule block_sum_bound) simp
    have four: "block_sum a 0 4 \<le> 131070" for a
    proof -
      have "length (seg a 0 4) div 2 \<le> 2" using div_le_mono [of "length (seg a 0 4)" 4 2] by simp
      with le_words_bound [of "seg a 0 4"] show ?thesis unfolding block_sum_def by linarith
    qed
    have "odd_byte b h ?n < 256" by (simp add: odd_byte_def)
    then show ?thesis
      using unat_less_u16 [of "htons proto"] unat_less_u16 [of "htons len"] four [of sip] four [of tip]
        \<open>block_sum b h ?n \<le> 2147385345\<close> by linarith
  qed
  have loop: "payload_loop b h len (of_nat ?P) =
      Some (of_nat (?P + block_sum b h ?n), h + 2 * (?n div 2), of_nat (?n mod 2))"
    using payload_loop_ok [OF fit, of "of_nat ?P"] by simp
  have last: "(if (of_nat (?n mod 2) :: u16) > 0
      then do { w \<leftarrow> load_short b (h + 2 * (?n div 2));
                Some (of_nat (?P + block_sum b h ?n) + (w AND ucast (htons 0xFF00))) }
      else Some (of_nat (?P + block_sum b h ?n))) =
      Some (of_nat (?P + block_sum b h ?n + odd_byte b h ?n) :: u32)"
  proof (cases "even ?n")
    case True
    then show ?thesis by (simp add: odd_byte_def)
  next
    case False
    then have ix: "h + 2 * (?n div 2) = h + ?n - 1" "?n mod 2 = 1"
      by (simp_all add: odd_iff_mod_2_eq_one flip: minus_mod_eq_mult_div)
    let ?k = "unat (b ! (h + ?n - 1)) + 256 * unat (b ! (h + ?n))"
    have w: "load_short b (h + ?n - 1) = Some (of_nat ?k)"
      using load_short_ok [of "h + ?n - 1" b] assms(3) ix(2) False by (cases ?n) auto
    have "unat (of_nat ?k AND 0xFF :: u32) = unat (b ! (h + ?n - 1))"
    proof -
      have "unat (of_nat ?k :: u32) = ?k"
        using short_bound [of "b ! (h + ?n - 1)" "b ! (h + ?n)"] by (intro unat_of_nat_u32) linarith
      then have "unat (of_nat ?k AND 0xFF :: u32) = ?k mod 256" by (simp only: unat_and_0xFF)
      also have "\<dots> = unat (b ! (h + ?n - 1))" using unat_less_u8 [of "b ! (h + ?n - 1)"] by simp
      finally show ?thesis .
    qed
    then have "(of_nat ?k AND 0xFF :: u32) = of_nat (odd_byte b h ?n)"
      using False unat_eq_of_nat by (fastforce simp: odd_byte_def)
    with w ix show ?thesis by (simp add: htons_ff00)
  qed
  define r where "r = checksum_fold (of_nat (?P + block_sum b h ?n + odd_byte b h ?n))"
  have "transport_sum b h sip tip proto len = Some r"
    by (simp add: transport_sum_def pseudo_sum_ok [OF assms(1,2)] loop last r_def del: of_nat_add)
  moreover have "unat r = folded (transport_total b h sip tip proto len)"
    using small unat_of_nat_u32 [OF small] by (simp add: r_def checksum_fold_ok transport_total_def del: of_nat_add)
  ultimately show ?thesis by blast
qed

lemma transport_total_fill:
  assumes "h + unat len + unat len mod 2 \<le> length b"
    and "k + 2 \<le> unat len" "even k" "b ! (h + k) = 0" "b ! (h + k + 1) = 0"
  shows "transport_total (blit b (h + k) (le16 c)) h sip tip proto len =
    transport_total b h sip tip proto len + unat c"
proof -
  have fit: "h + unat len \<le> length b" using assms(1) by linarith
  have "k + 2 \<le> unat len - 1" if "odd (unat len)"
    using assms(2,3) that by presburger
  then have "odd_byte (blit b (h + k) (le16 c)) h (unat len) = odd_byte b h (unat len)"
    using fit assms(2) by (auto simp: odd_byte_def nth_blit)
  then show ?thesis
    using block_sum_fill [OF fit assms(2-5), of c] by (simp add: transport_total_def)
qed

lemma folded_full: "folded n = 65535 \<Longrightarrow> folded (n + 65535) = 65535"
  by (auto simp: folded_def split: if_splits)

section \<open>The layout of the headers\<close>

lemma ethernet_initheader_ok:
  assumes "h + 14 \<le> length b" "length sha = 6" "length tha = 6"
  shows "ethernet_initheader b h type sha tha = Some (blit b h (tha @ sha @ be16 type))"
  using assms by (simp add: ethernet_initheader_def net_save_ok blit_blit_prepend)

lemma arp_initheader_ok:
  assumes "h + 8 \<le> length b"
  shows "arp_initheader b h htype hlength ptype plength operation =
    Some (blit b h (be16 htype @ be16 ptype @ [hlength, plength] @ be16 operation))"
  using assms by (simp add: arp_initheader_def net_save_ok blit_blit_append)

lemma udp_initheader_ok:
  assumes "h + 8 \<le> length b" "length sp = 2" "length tp = 2"
  shows "udp_initheader b h sp tp count = Some (blit b h (sp @ tp @ be16 (ucast (count + 8)) @ [0, 0]))"
  using assms by (simp add: udp_initheader_def net_save_ok blit_blit_append be16_0)

lemma icmp_initheader_ok:
  assumes "h + 4 \<le> length b"
  shows "icmp_initheader b h ty code = Some (blit b h [ty, code, 0, 0])"
  using assms by (simp add: icmp_initheader_def net_save_ok blit_blit_append be16_0)

definition tcp_bytes :: "u8 list \<Rightarrow> u8 list \<Rightarrow> u16 \<Rightarrow> u32 \<Rightarrow> u32 \<Rightarrow> u32 \<Rightarrow> u8 list" where
  "tcp_bytes sp tp flags sq ack window =
     sp @ tp @ be32 sq @ be32 ack @ [0x50, ucast flags] @ be16 (ucast window) @ [0, 0, 0, 0]"

lemma tcp_putheader_ok:
  assumes "h + 20 \<le> length b" "length sp = 2" "length tp = 2"
  shows "tcp_putheader b h sp tp flags sq ack window = Some (h, blit b h (tcp_bytes sp tp flags sq ack window))"
    "tcp_hlen (blit b h (tcp_bytes sp tp flags sq ack window)) h = Some 20"
proof -
  obtain s0 s1 t0 t1 where ports: "sp = [s0, s1]" "tp = [t0, t1]"
    using assms(2,3) by (auto simp: numeral_2_eq_2 length_Suc_conv)
  let ?z = "sp @ tp @ [0, 0, 0, 0, 0, 0, 0, 0, 0, 0, 0, 0, 0, 0, 0, 0]" and ?t = "sp @ tp @ be32 sq @ be32 ack @ [0x50, ucast flags] @
    be16 (ucast window) @ [0, 0, 0, 0]"
  have init: "tcp_initheader b h sp tp = Some (blit b h ?z)"
    using assms(1) by (simp add: ports tcp_initheader_def net_save_ok blit_blit_append be16_0 be32_def)
  have fill: "blit (blit (blit (blit (blit ?z 12 [0x50]) 13 [ucast flags]) 4 (be32 sq)) 8 (be32 ack)) 14
      (be16 (ucast window)) = ?t"
    by (simp add: ports blit_def be32_def be16_def)
  show "tcp_putheader b h sp tp flags sq ack window = Some (h, blit b h (tcp_bytes sp tp flags sq ack window))"
    using assms unfolding tcp_bytes_def
    by (simp add: tcp_putheader_def init wr_blit net_save_ok blit_inner fill del: wr_inside append.simps)
  have "rd (blit b h ?t) (h + 12) = Some 0x50"
    using assms(1) by (simp add: nth_blit ports be32_def)
  then show "tcp_hlen (blit b h (tcp_bytes sp tp flags sq ack window)) h = Some 20" by (simp add: tcp_hlen_def tcp_bytes_def)
qed

section \<open>Properties\<close>

text \<open>
  C17: \<^verbatim>\<open>ipv4_initheader\<close> writes a valid header. For every place with room for 20 bytes, every
  pair of addresses, protocol and payload size, it stores the version and header length,
  the total length, an unfragmented packet with a time to live of 64, the protocol and both
  addresses where the readers look for them, changes no byte outside of the
  header, and stores a checksum with which \<^verbatim>\<open>ipv4_calculatechecksum\<close> over the header gives 0.
\<close>

theorem ipv4_header_valid:
  assumes "h + 20 \<le> length b" "length sip = 4" "length tip = 4"
  shows "\<exists>b'. ipv4_initheader b h sip tip protocol count = Some b' \<and>
    ipv4_calculatechecksum b' h 20 = Some 0 \<and> ipv4_hlen b' h = Some 20 \<and>
    ipv4_len b' h = Some (ucast (count + 20)) \<and> net_load8 b' (h + 9) = Some (ucast protocol) \<and>
    seg b' (h + 12) 4 = sip \<and> seg b' (h + 16) 4 = tip \<and>
    seg b' h 2 = [0x45, 0] \<and> seg b' (h + 4) 5 = [0, 0, 0, 0, 64] \<and> length b' = length b \<and>
    (\<forall>j < length b. j < h \<or> h + 20 \<le> j \<longrightarrow> b' ! j = b ! j)"
proof -
  let ?b0 = "blit b h (ipv4_bytes sip tip protocol count [0, 0])"
  define c where "c = (of_nat (65535 - folded (block_sum ?b0 h 20)) :: u16)"
  let ?hd = "ipv4_bytes sip tip protocol count (le16 c)"
  have len: "length (ipv4_bytes sip tip protocol count cs) = 18 + length cs" for cs
    using assms(2,3) by (simp add: ipv4_bytes_def)
  have b': "blit ?b0 (h + 10) (le16 c) = blit b h ?hd"
  proof -
    have "blit ?b0 (h + 10) (le16 c) = blit b h (blit (ipv4_bytes sip tip protocol count [0, 0]) 10 (le16 c))"
      using assms(1) len by (intro blit_inner) simp_all
    also have "blit (ipv4_bytes sip tip protocol count [0, 0]) 10 (le16 c) = ?hd"
      by (simp add: ipv4_bytes_def blit_def be16_def)
    finally show ?thesis .
  qed
  have fit: "h + length ?hd \<le> length b" using assms(1) len by simp
  have z: "?b0 ! (h + 10) = 0" "?b0 ! (h + 10 + 1) = 0"
    using assms(1) len by (simp_all add: nth_blit) (simp_all add: ipv4_bytes_def be16_def)
  have "folded (block_sum (blit b h ?hd) h 20) = 65535"
    using checksum_verifies [of h 20 ?b0 10] assms(1) len z by (simp add: c_def [symmetric] b')
  then have csum: "ipv4_calculatechecksum (blit b h ?hd) h 20 = Some 0"
    using ipv4_calculatechecksum_ok [of h 20 "blit b h ?hd"] assms(1) len by simp
  have hl: "net_load8 (blit b h ?hd) h = Some 0x45"
    using net8.load_in_block [OF fit, of 0 "0x45"] len by (simp add: ipv4_bytes_def seg_def)
  have tl: "net_load16 (blit b h ?hd) (h + 2) = Some (ucast (count + 20))"
    using net16.load_in_block [OF fit, of 2 "ucast (count + 20)"] len
    by (simp add: ipv4_bytes_def seg_def)
  have pr: "net_load8 (blit b h ?hd) (h + 9) = Some (ucast protocol)"
    using net8.load_in_block [OF fit, of 9 "ucast protocol"] len
    by (simp add: ipv4_bytes_def seg_def be16_def)
  have ad: "seg (blit b h ?hd) (h + 12) 4 = sip" "seg (blit b h ?hd) (h + 16) 4 = tip"
    using seg_blit_inner [OF fit, of 12 4] seg_blit_inner [OF fit, of 16 4] len assms(2,3)
    by (simp_all add: ipv4_bytes_def seg_def be16_def le16_def)
  have fi: "seg (blit b h ?hd) h 2 = [0x45, 0]" "seg (blit b h ?hd) (h + 4) 5 = [0, 0, 0, 0, 64]"
    using seg_blit_inner [OF fit, of 0 2] seg_blit_inner [OF fit, of 4 5] len
    by (simp_all add: ipv4_bytes_def seg_def be16_def le16_def)
  have out: "blit b h ?hd ! j = b ! j" if "j < length b" "j < h \<or> h + 20 \<le> j" for j
    using that fit len by (auto simp: nth_blit)
  have "ipv4_initheader b h sip tip protocol count = Some (blit b h ?hd)"
    using ipv4_initheader_ok [OF assms, of protocol count] by (simp add: c_def [symmetric] b')
  with csum hl tl pr ad fi out fit show ?thesis
    by (auto simp: ipv4_hlen_def ipv4_len_def)
qed

theorem ipv4_header_valid_witness:
  "\<exists>b'. ipv4_initheader (replicate 24 0) 4 [10, 0, 5, 1] [10, 0, 5, 2] 17 100 = Some b' \<and>
     ipv4_calculatechecksum b' 4 20 = Some 0 \<and> ipv4_len b' 4 = Some 120"
  using ipv4_header_valid [of 4 "replicate 24 0" "[10, 0, 5, 1]" "[10, 0, 5, 2]" 17 100] by auto

section \<open>The Internet checksum\<close>

text \<open>
  The reference: the 16 bit words of a block in network order, with a zero byte behind an odd one,
  added with the carry brought around, and the complement of the sum. A TCP or UDP packet is summed
  behind its pseudo header: both addresses, the protocol and the length.
\<close>

fun be_words :: "u8 list \<Rightarrow> nat list" where
  "be_words (x # y # zs) = (256 * unat x + unat y) # be_words zs"
| "be_words [x] = [256 * unat x]"
| "be_words [] = []"

definition ones_add :: "nat \<Rightarrow> nat \<Rightarrow> nat" where
  "ones_add m n = (if m + n \<le> 65535 then m + n else m + n - 65535)"

definition internet_checksum :: "u8 list \<Rightarrow> nat" where
  "internet_checksum xs = 65535 - foldl ones_add 0 (be_words xs)"

definition pseudo_packet :: "u8 list \<Rightarrow> u8 list \<Rightarrow> u8 \<Rightarrow> u8 list \<Rightarrow> u8 list" where
  "pseudo_packet sip tip proto packet = sip @ tip @ [0, proto] @ be16 (of_nat (length packet)) @ packet"

lemma same_sum_folded: "same_sum (folded n) n"
  by (auto simp: same_sum_def folded_def)

lemma same_sum_sym: "same_sum m n \<Longrightarrow> same_sum n m"
  by (simp add: same_sum_def)

lemma same_sum_plus: "same_sum a b \<Longrightarrow> same_sum c d \<Longrightarrow> same_sum (a + c) (b + d)"
  by (auto simp: same_sum_def intro: mod_add_cong)

lemma same_sum_mult: "0 < k \<Longrightarrow> same_sum a b \<Longrightarrow> same_sum (k * a) (k * b)"
  by (auto simp: same_sum_def intro: mod_mult_cong)

lemma ones_add_folded:
  assumes "w \<le> 65535"
  shows "ones_add (folded m) w = folded (m + w)"
proof -
  let ?s = "folded m + w"
  have s: "folded (m + w) = folded ?s"
    by (rule folded_same) (rule same_sum_add [OF same_sum_sym [OF same_sum_folded]])
  show ?thesis
  proof (cases "?s \<le> 65535")
    case True
    then show ?thesis using s folded_small [of ?s] by (simp add: ones_add_def)
  next
    case False
    have "same_sum (?s - 65535) ?s" using False le_mod_geq [of 65535 ?s] by (auto simp: same_sum_def)
    moreover have "?s - 65535 < 65536" using folded_bound [of m] assms by linarith
    ultimately have "folded ?s = ?s - 65535" using folded_same folded_small by metis
    then show ?thesis using False s by (simp add: ones_add_def)
  qed
qed

lemma foldl_ones_add: "list_all (\<lambda>w. w \<le> 65535) ws \<Longrightarrow> foldl ones_add (folded m) ws = folded (m + sum_list ws)"
  by (induction ws arbitrary: m) (simp_all add: ones_add_folded add.assoc)

lemma be_words_small: "list_all (\<lambda>w. w \<le> 65535) (be_words xs)"
proof (induction xs rule: be_words.induct)
  case (1 x y zs)
  then show ?case using short_bound [of y x] by simp
next
  case (2 x)
  have "256 * unat x \<le> 65535" using unat_less_u8 [of x] by linarith
  then show ?case by simp
qed simp

lemma internet_checksum_folded: "internet_checksum xs = 65535 - folded (sum_list (be_words xs))"
  using foldl_ones_add [OF be_words_small, of 0 xs] by (simp add: internet_checksum_def folded_def)

text \<open>Adding the words with their bytes swapped gives the sum with its bytes swapped.\<close>

definition odd_last :: "u8 list \<Rightarrow> nat" where
  "odd_last xs = (if odd (length xs) then unat (last xs) else 0)"

lemma words_swapped: "same_sum (sum_list (be_words xs)) (256 * (sum_list (le_words xs) + odd_last xs))"
proof (induction xs rule: be_words.induct)
  case (1 x y zs)
  have "same_sum (256 * unat x + unat y) (256 * (unat x + 256 * unat y))"
    using mod_mult_self2 [of "256 * unat x + unat y" 65535 "unat y"] by (auto simp: same_sum_def algebra_simps)
  moreover have "odd_last (x # y # zs) = odd_last zs" by (auto simp: odd_last_def)
  ultimately show ?case using same_sum_plus [OF _ 1, of "256 * unat x + unat y" "256 * (unat x + 256 * unat y)"]
    by (simp add: add.assoc add_mult_distrib2)
qed (simp_all add: odd_last_def same_sum_def)

lemma swap_folded:
  assumes "same_sum B (256 * L)"
  shows "folded B = 256 * (folded L mod 256) + folded L div 256"
proof -
  define hi lo where "hi = folded L div 256" and "lo = folded L mod 256"
  have r: "folded L = 256 * hi + lo" "lo < 256" "hi < 256"
    using folded_bound [of L] div_mult_mod_eq [of "folded L" 256] by (simp_all add: hi_def lo_def)
  have "same_sum B (256 * (256 * hi + lo))"
    using same_sum_trans [OF assms same_sum_mult [OF _ same_sum_sym [OF same_sum_folded]]] r(1) by simp
  moreover have "same_sum (256 * (256 * hi + lo)) (256 * lo + hi)"
    using mod_mult_self2 [of "256 * lo + hi" 65535 hi] by (auto simp: same_sum_def algebra_simps)
  ultimately have "folded B = folded (256 * lo + hi)" using same_sum_trans folded_same by blast
  also have "\<dots> = 256 * lo + hi" using r by (intro folded_small) simp
  finally show ?thesis by (simp add: hi_def lo_def)
qed

lemma swapped_bytes:
  assumes "unat (c :: u16) = 65535 - r" "r \<le> 65535" "v = 65535 - (256 * (r mod 256) + r div 256)"
  shows "le16 c = be16 (of_nat v)"
proof -
  define hi lo where "hi = r div 256" and "lo = r mod 256"
  have r: "r = 256 * hi + lo" "lo < 256" "hi < 256"
    using assms(2) div_mult_mod_eq [of r 256] by (simp_all add: hi_def lo_def)
  have v: "v = 256 * (255 - lo) + (255 - hi)" using assms(3) r(2,3) by (simp add: hi_def [symmetric] lo_def [symmetric])
  have c: "unat c = 256 * (255 - hi) + (255 - lo)" using assms(1) r by simp
  have digits: "(256 * a + b) div 256 = a" "(256 * a + b) mod 256 = b" if "b < 256" for a b :: nat
    using that by simp_all
  have low: "unat (ucast w :: u8) = unat w mod 256" for w :: u16
    by (simp add: unsigned_ucast_eq take_bit_eq_mod)
  have high: "unat (ucast (drop_bit 8 w) :: u8) = unat w div 256" for w :: u16
  proof -
    have "unat (ucast w :: u8) + 256 * unat (ucast (drop_bit 8 w) :: u8) = unat w" by (rule le16_value)
    then show ?thesis using low [of w] div_mult_mod_eq [of "unat w" 256] by linarith
  qed
  have "v < 65536" using v by simp
  then have u: "unat (of_nat v :: u16) = v" by (simp add: unat_of_nat take_bit_nat_eq_self)
  have "unat (ucast c :: u8) = 255 - lo" using low [of c] digits(2) [of "255 - lo"] c by simp
  moreover have "unat (ucast (drop_bit 8 c) :: u8) = 255 - hi" using high [of c] digits(1) [of "255 - lo"] c by simp
  moreover have "unat (ucast (of_nat v :: u16) :: u8) = 255 - hi"
    unfolding low u unfolding v using digits(2) [of "255 - hi"] by simp
  moreover have "unat (ucast (drop_bit 8 (of_nat v :: u16)) :: u8) = 255 - lo"
    unfolding high u unfolding v using digits(1) [of "255 - hi"] by simp
  ultimately show ?thesis by (simp add: le16_def be16_def word_unat_eq_iff)
qed

lemma htons_value: "unat (htons v) = sum_list (le_words (be16 v))"
proof -
  have "(ucast (htons v) :: u8) = ucast (drop_bit 8 v)" "(ucast (drop_bit 8 (htons v)) :: u8) = ucast v"
    by (rule bit_word_eqI; auto simp: htons_def Let_def bit_simps)+
  then show ?thesis using le16_value [of "htons v"] by (simp add: be16_def)
qed

lemma transport_total_packet:
  assumes "length sip = 4" "length tip = 4" "h + unat len \<le> length b"
  shows "transport_total b h sip tip (ucast proto) len =
    sum_list (le_words (pseudo_packet sip tip proto (seg b h (unat len)))) +
    odd_last (pseudo_packet sip tip proto (seg b h (unat len)))"
proof -
  let ?seg = "seg b h (unat len)"
  let ?P = "pseudo_packet sip tip proto ?seg"
  have l: "length ?seg = unat len" using assms(3) by simp
  have "be16 (ucast proto :: u16) = [0, proto]"
    using bit_imp_le_length [of proto "8 + n" for n] by (auto simp: be16_def bit_simps intro!: bit_word_eqI)
  then have p: "unat (htons (ucast proto)) = sum_list (le_words [0, proto])" by (simp add: htons_value)
  have e: "le_words (xs @ ys) = le_words xs @ le_words ys" if "length xs = 4" for xs ys
    using that by (intro le_words_append) simp
  have "?P = sip @ tip @ [0, proto] @ be16 len @ ?seg" using l by (simp add: pseudo_packet_def del: length_seg)
  then have "le_words ?P = le_words sip @ le_words tip @ le_words [0, proto] @ le_words (be16 len) @ le_words ?seg"
    using assms(1,2) by (simp add: e be16_def)
  moreover have "odd_last ?P = odd_byte b h (unat len)"
  proof (cases "odd (unat len)")
    case True
    then have n: "0 < unat len" by (rule odd_pos)
    then have ne: "?seg \<noteq> []" using l by (metis length_0_conv less_irrefl)
    moreover have "last ?seg = b ! (h + unat len - 1)"
      using n l assms(3) unfolding last_conv_nth [OF ne] by (simp add: nth_seg)
    ultimately show ?thesis using True assms(1,2) l by (simp add: odd_last_def odd_byte_def pseudo_packet_def)
  qed (use assms(1,2) l in \<open>simp add: odd_last_def odd_byte_def pseudo_packet_def\<close>)
  moreover have "seg sip 0 4 = sip" "seg tip 0 4 = tip" using assms(1,2) by (simp_all add: seg_def)
  ultimately show ?thesis
    using htons_value [of len] by (simp add: transport_total_def block_sum_def p del: le_words.simps)
qed

text \<open>The folded sum of the code, complemented and stored low byte first, is the checksum of the reference.\<close>

lemma transport_checksum_bytes:
  assumes "length sip = 4" "length tip = 4" "h + unat len \<le> length b"
    and "unat c = 65535 - folded (transport_total b h sip tip (ucast proto) len)"
  shows "le16 c = be16 (of_nat (internet_checksum (pseudo_packet sip tip proto (seg b h (unat len)))))"
    and "unat c = 0 \<longleftrightarrow> internet_checksum (pseudo_packet sip tip proto (seg b h (unat len))) = 0"
proof -
  let ?P = "pseudo_packet sip tip proto (seg b h (unat len))"
  let ?L = "folded (transport_total b h sip tip (ucast proto) len)"
  have s: "folded (sum_list (be_words ?P)) = 256 * (?L mod 256) + ?L div 256"
    using swap_folded [OF words_swapped [of ?P]] transport_total_packet [OF assms(1-3), of proto] by simp
  then have v: "internet_checksum ?P = 65535 - (256 * (?L mod 256) + ?L div 256)"
    by (simp only: internet_checksum_folded)
  show b: "le16 c = be16 (of_nat (internet_checksum ?P))"
    using swapped_bytes [OF assms(4) folded_bound v] .
  have "le16 c = be16 0 \<longleftrightarrow> c = 0" for c :: u16
    using le16_value [of c] by (auto simp: le16_def be16_def unat_eq_0 [symmetric])
  moreover have "be16 (of_nat m :: u16) = be16 0 \<longleftrightarrow> m = 0" if "m \<le> 65535" for m
    using that le16_value [of "of_nat m"] by (auto simp: be16_def take_bit_nat_eq_self unat_of_nat)
  moreover have "internet_checksum ?P \<le> 65535" by (simp add: internet_checksum_def)
  ultimately show "unat c = 0 \<longleftrightarrow> internet_checksum ?P = 0" using b by (metis unat_eq_0)
qed

lemma tcp_checksum_reference:
  assumes "length sip = 4" "length tip = 4" "h + unat len + unat len mod 2 \<le> length b"
  shows "\<exists>c. tcp_checksum b h sip tip len = Some c \<and>
    le16 c = be16 (of_nat (internet_checksum (pseudo_packet sip tip 6 (seg b h (unat len)))))"
proof -
  let ?S = "transport_total b h sip tip 6 len"
  obtain r where r: "transport_sum b h sip tip 6 len = Some r" "unat r = folded ?S"
    using transport_sum_ok [OF assms] by blast
  then have "unat (ucast (NOT r) :: u16) = 65535 - folded ?S"
    using unat_not_u16 [of r] folded_bound [of ?S] by simp
  then show ?thesis
    using transport_checksum_bytes(1) [of sip tip h len b "ucast (NOT r)" 6] assms r(1)
    by (simp add: tcp_checksum_def)
qed

lemma udp_checksum_reference:
  assumes "length sip = 4" "length tip = 4" "h + unat len + unat len mod 2 \<le> length b"
  shows "\<exists>c. udp_checksum b h sip tip len = Some c \<and>
    le16 c = be16 (of_nat (let k = internet_checksum (pseudo_packet sip tip 17 (seg b h (unat len)))
                           in if k = 0 then 65535 else k))"
proof -
  let ?S = "transport_total b h sip tip 0x11 len"
  obtain r where r: "transport_sum b h sip tip 0x11 len = Some r" "unat r = folded ?S"
    using transport_sum_ok [OF assms] by blast
  define c where "c = (ucast (NOT r) :: u16)"
  let ?k = "internet_checksum (pseudo_packet sip tip 17 (seg b h (unat len)))"
  have "unat c = 65535 - folded ?S"
    using unat_not_u16 [of r] r(2) folded_bound [of ?S] by (simp add: c_def)
  then have k: "le16 c = be16 (of_nat ?k)" "c = 0 \<longleftrightarrow> ?k = 0"
    using transport_checksum_bytes [of sip tip h len b c 17] assms unfolding unat_eq_0 [symmetric] by simp_all
  have "udp_checksum b h sip tip len = Some (if c \<noteq> 0 then c else 0xFFFF)"
    using r(1) by (simp add: udp_checksum_def c_def Let_def)
  moreover have "le16 (0xFFFF :: u16) = be16 (0xFFFF :: u16)" by (simp add: le16_def be16_def)
  ultimately show ?thesis using k by (cases "c = 0") simp_all
qed

lemma tcp_checksum_consistent:
  assumes "length sip = 4" "length tip = 4" "h + unat len + unat len mod 2 \<le> length b"
    and "18 \<le> unat len" "b ! (h + 16) = 0" "b ! (h + 17) = 0"
  shows "\<exists>c. tcp_checksum b h sip tip len = Some c \<and>
    tcp_checksum (blit b (h + 16) (le16 c)) h sip tip len = Some 0"
proof -
  have k: "16 + 2 \<le> unat len" "even (16 :: nat)" "b ! (h + 16) = 0" "b ! (h + 16 + 1) = 0"
    using assms(4-6) by (auto simp: ac_simps)
  obtain r where r: "transport_sum b h sip tip 6 len = Some r"
    "unat r = folded (transport_total b h sip tip 6 len)"
    using transport_sum_ok [OF assms(1-3)] by blast
  define c where "c = (ucast (NOT r) :: u16)"
  have c: "unat c = 65535 - folded (transport_total b h sip tip 6 len)"
    using unat_not_u16 [of r] r(2) folded_bound [of "transport_total b h sip tip 6 len"] by (simp add: c_def)
  let ?b = "blit b (h + 16) (le16 c)"
  have len: "length ?b = length b" using assms(3) k(1) by simp
  obtain r' where r': "transport_sum ?b h sip tip 6 len = Some r'"
    "unat r' = folded (transport_total ?b h sip tip 6 len)"
    using transport_sum_ok [OF assms(1,2), of h len ?b] assms(3) len by auto
  have "folded (transport_total ?b h sip tip 6 len) = 65535"
    using transport_total_fill [OF assms(3) k] folded_complement by (simp add: c)
  then have "unat (ucast (NOT r') :: u16) = 0" using unat_not_u16 [of r'] r'(2) by simp
  then have "tcp_checksum ?b h sip tip len = Some 0" using r'(1) by (simp add: tcp_checksum_def unat_eq_0)
  moreover have "tcp_checksum b h sip tip len = Some c" using r(1) by (simp add: tcp_checksum_def c_def)
  ultimately show ?thesis by blast
qed

lemma udp_checksum_consistent:
  assumes "length sip = 4" "length tip = 4" "h + unat len + unat len mod 2 \<le> length b"
    and "8 \<le> unat len" "b ! (h + 6) = 0" "b ! (h + 7) = 0"
  shows "\<exists>c. c \<noteq> 0 \<and> udp_checksum b h sip tip len = Some c \<and>
    udp_checksum (blit b (h + 6) (le16 c)) h sip tip len = Some 0xFFFF"
proof -
  have k: "6 + 2 \<le> unat len" "even (6 :: nat)" "b ! (h + 6) = 0" "b ! (h + 6 + 1) = 0"
    using assms(4-6) by (auto simp: ac_simps)
  let ?S = "transport_total b h sip tip 0x11 len"
  obtain r where r: "transport_sum b h sip tip 0x11 len = Some r" "unat r = folded ?S"
    using transport_sum_ok [OF assms(1-3)] by blast
  define c where "c = (if (ucast (NOT r) :: u16) \<noteq> 0 then ucast (NOT r) else 0xFFFF :: u16)"
  have n: "unat (ucast (NOT r) :: u16) = 65535 - folded ?S"
    using unat_not_u16 [of r] r(2) folded_bound [of ?S] by simp
  let ?b = "blit b (h + 6) (le16 c)"
  have len: "length ?b = length b" using assms(3) k(1) by simp
  obtain r' where r': "transport_sum ?b h sip tip 0x11 len = Some r'"
    "unat r' = folded (transport_total ?b h sip tip 0x11 len)"
    using transport_sum_ok [OF assms(1,2), of h len ?b] assms(3) len by auto
  have "folded (transport_total ?b h sip tip 0x11 len) = 65535"
  proof (cases "(ucast (NOT r) :: u16) = 0")
    case True
    then have "folded ?S = 65535" using n folded_bound [of ?S] by simp
    then have "folded (?S + 65535) = 65535" by (rule folded_full)
    with True show ?thesis using transport_total_fill [OF assms(3) k] by (simp add: c_def)
  next
    case False
    then show ?thesis
      using transport_total_fill [OF assms(3) k] folded_complement [of ?S] n by (simp add: c_def)
  qed
  then have "unat (ucast (NOT r') :: u16) = 0" using unat_not_u16 [of r'] r'(2) by simp
  then have "udp_checksum ?b h sip tip len = Some 0xFFFF"
    using r'(1) by (simp add: udp_checksum_def unat_eq_0 Let_def)
  moreover have "udp_checksum b h sip tip len = Some c" "c \<noteq> 0"
    using r(1) by (simp_all add: udp_checksum_def c_def Let_def)
  ultimately show ?thesis by blast
qed

text \<open>
  C16: the transport checksums are the Internet checksum. For every TCP segment and UDP datagram, of
  even or odd length, \<^verbatim>\<open>tcp_checksum\<close> and \<^verbatim>\<open>udp_checksum\<close> return the ones' complement of the ones'
  complement sum of the 16 bit words, in network order, of the pseudo header (both addresses, a zero
  byte, protocol 6 or 17 and the length) and the packet, padded with a zero byte to an even length.
  The returned word stored low byte first is that checksum in network order; UDP sends 0xFFFF in
  place of 0. Storing the value into the zero checksum field makes the same computation on
  the finished packet give 0 for TCP and 0xFFFF for UDP, the value of a correct packet. An odd
  packet needs one byte of the buffer behind it.
\<close>

theorem transport_checksum_verifies:
  assumes "length sip = 4" "length tip = 4" "h + unat len + unat len mod 2 \<le> length b"
  shows "(\<exists>c. tcp_checksum b h sip tip len = Some c \<and>
      le16 c = be16 (of_nat (internet_checksum (pseudo_packet sip tip 6 (seg b h (unat len)))))) \<and>
    (\<exists>c. udp_checksum b h sip tip len = Some c \<and>
      le16 c = be16 (of_nat (let k = internet_checksum (pseudo_packet sip tip 17 (seg b h (unat len)))
                             in if k = 0 then 65535 else k))) \<and>
    (18 \<le> unat len \<and> b ! (h + 16) = 0 \<and> b ! (h + 17) = 0 \<longrightarrow>
      (\<exists>c. tcp_checksum b h sip tip len = Some c \<and>
        tcp_checksum (blit b (h + 16) (le16 c)) h sip tip len = Some 0)) \<and>
    (8 \<le> unat len \<and> b ! (h + 6) = 0 \<and> b ! (h + 7) = 0 \<longrightarrow>
      (\<exists>c. c \<noteq> 0 \<and> udp_checksum b h sip tip len = Some c \<and>
        udp_checksum (blit b (h + 6) (le16 c)) h sip tip len = Some 0xFFFF))"
  using tcp_checksum_reference [OF assms] udp_checksum_reference [OF assms]
    tcp_checksum_consistent [OF assms] udp_checksum_consistent [OF assms] by blast

theorem transport_checksum_verifies_witness:
  "\<exists>c. udp_checksum [1, 2, 3, 4, 0, 9, 0, 0, 7, 0] 0 [10, 0, 0, 1] [10, 0, 0, 2] 9 = Some c \<and>
     le16 c = [0xE0, 0xD3] \<and>
     udp_checksum (blit [1, 2, 3, 4, 0, 9, 0, 0, 7, 0] (0 + 6) (le16 c)) 0 [10, 0, 0, 1] [10, 0, 0, 2] 9 =
       Some 0xFFFF"
proof -
  let ?b = "[1, 2, 3, 4, 0, 9, 0, 0, 7, 0] :: u8 list"
  note t = transport_checksum_verifies [of "[10, 0, 0, 1]" "[10, 0, 0, 2]" 0 9 ?b]
  have "internet_checksum (pseudo_packet [10, 0, 0, 1] [10, 0, 0, 2] 17 (seg ?b 0 (unat (9 :: u16)))) = 0xE0D3"
    by (simp add: internet_checksum_def pseudo_packet_def seg_def ones_add_def be16_def)
  moreover have "be16 (0xE0D3 :: u16) = [0xE0, 0xD3]" by (simp add: be16_def)
  ultimately have "\<exists>c. udp_checksum ?b 0 [10, 0, 0, 1] [10, 0, 0, 2] 9 = Some c \<and> le16 c = [0xE0, 0xD3]"
    using t by simp
  moreover have "\<exists>c. c \<noteq> 0 \<and> udp_checksum ?b 0 [10, 0, 0, 1] [10, 0, 0, 2] 9 = Some c \<and>
      udp_checksum (blit ?b (0 + 6) (le16 c)) 0 [10, 0, 0, 1] [10, 0, 0, 2] 9 = Some 0xFFFF"
    using t by simp
  ultimately show ?thesis by auto
qed

text \<open>
  C38: for an odd length the transport checksums load the last byte as part of a 16 bit word, one
  byte beyond the end of the packet. When the packet ends at the end of its buffer that read is out
  of bounds.
\<close>

theorem transport_checksum_odd_overread:
  assumes "length sip = 4" "length tip = 4" "odd (unat len)" "h + unat len = length b"
  shows "tcp_checksum b h sip tip len = None \<and> udp_checksum b h sip tip len = None"
proof -
  have ix: "h + 2 * (unat len div 2) = length b - 1" "unat len mod 2 = 1"
    using assms(3,4) by (simp_all add: odd_iff_mod_2_eq_one flip: minus_mod_eq_mult_div)
  have "1 \<le> length b" using assms(3,4) by (cases "unat len") auto
  then have none: "load_short b (length b - 1) = None" by (simp add: load_short_def)
  have "payload_loop b h len acc = Some (acc + of_nat (block_sum b h (unat len)), length b - 1, 1)" for acc
    using payload_loop_ok [of h len b acc] assms(4) ix by simp
  then have "transport_sum b h sip tip proto len = None" for proto
    by (simp add: transport_sum_def pseudo_sum_ok [OF assms(1,2)] none [simplified])
  then show ?thesis by (simp add: tcp_checksum_def udp_checksum_def)
qed

theorem transport_checksum_odd_overread_witness:
  "tcp_checksum [1, 2, 3] 0 [10, 0, 0, 1] [10, 0, 0, 2] 3 = None"
  using transport_checksum_odd_overread [of "[10, 0, 0, 1]" "[10, 0, 0, 2]" 3 0 "[1, 2, 3]"] by simp

text \<open>
  The other header routines lay the fields out in network order at the places of the
  protocol. With room for the header, \<^verbatim>\<open>ethernet_initheader\<close> stores both addresses and the type,
  \<^verbatim>\<open>arp_initheader\<close> its five fields, \<^verbatim>\<open>udp_initheader\<close> the ports and the length with an empty
  checksum, \<^verbatim>\<open>tcp_putheader\<close> the ports, numbers, flags and window with a header length that
  \<^verbatim>\<open>tcp_hlen\<close> reads as 20, and \<^verbatim>\<open>icmp_initheader\<close> type and code; nothing else changes.
\<close>

theorem net_headers_layout:
  assumes "h + 20 \<le> length b" "length sha = 6" "length tha = 6" "length sp = 2" "length tp = 2"
  shows "ethernet_initheader b h type sha tha = Some (blit b h (tha @ sha @ be16 type)) \<and>
    arp_initheader b h htype hlength ptype plength operation =
      Some (blit b h (be16 htype @ be16 ptype @ [hlength, plength] @ be16 operation)) \<and>
    udp_initheader b h sp tp count = Some (blit b h (sp @ tp @ be16 (ucast (count + 8)) @ [0, 0])) \<and>
    icmp_initheader b h ty code = Some (blit b h [ty, code, 0, 0]) \<and>
    (\<exists>b'. tcp_putheader b h sp tp flags sq ack window = Some (h, b') \<and>
      b' = blit b h (sp @ tp @ be32 sq @ be32 ack @ [0x50, ucast flags] @ be16 (ucast window) @ [0, 0, 0, 0]) \<and>
      tcp_hlen b' h = Some 20)"
  using assms ethernet_initheader_ok [of h b sha tha type] arp_initheader_ok [of h b] udp_initheader_ok [of h b sp tp count]
    icmp_initheader_ok [of h b] tcp_putheader_ok [of h b sp tp flags sq ack window]
  by (simp add: tcp_bytes_def)

theorem net_headers_layout_witness:
  "udp_initheader (replicate 20 1) 0 [0, 53] [4, 0] 10 =
     Some ([0, 53, 4, 0, 0, 18, 0, 0] @ replicate 12 1)"
  using net_headers_layout [of 0 "replicate 20 1" "replicate 6 0" "replicate 6 0" "[0, 53]" "[4, 0]"]
  by (simp add: blit_def be16_def)

end
