(* ===== verification/Libz_Dns.thy ===== *)
theory Libz_Dns
  imports Libz_Net
begin

text \<open>
  \<^verbatim>\<open>libz/net/dns.c\<close>: names in DNS messages. A dotted name is copied into a sequence of labels,
  each with its length in front of it, and a sequence of labels is written back as a dotted name,
  following compression pointers.
\<close>

section \<open>DNS names\<close>

text \<open>
  A name is a pointer into a message; characters are signed, so a length byte from 128 on moves
  the index backwards (the index is an \<^verbatim>\<open>unsigned int\<close> and wraps). These loops need not end.
\<close>

definition char_u32 :: "u8 \<Rightarrow> u32" where
  "char_u32 c = scast c"

partial_function (option) dns_namesize_loop :: "u8 list \<Rightarrow> u32 \<Rightarrow> u32 option" where
  "dns_namesize_loop name i =
     do { c \<leftarrow> rd name (unat i);
          if c \<noteq> 0 then
            (if c AND 0xC0 = 0xC0 then Some (i + 2) else dns_namesize_loop name (i + (char_u32 c + 1)))
          else Some (i + 1) }"

definition dns_namesize :: "u8 list \<Rightarrow> u32 option" where
  "dns_namesize name = dns_namesize_loop name 0"

function dns_copyname_loop ::
  "u8 list \<Rightarrow> u32 \<Rightarrow> u8 list \<Rightarrow> u32 \<Rightarrow> u8 \<Rightarrow> u32 \<Rightarrow> u32 \<Rightarrow> u32 \<Rightarrow> (u32 \<times> u8 list) option" where
  "dns_copyname_loop b count name len namelen valstart c i =
     (if i < len then
        do { q \<leftarrow> rd name (unat i);
             if q = ch CHR ''.'' \<or> q = 0 then
               do { (k, b) \<leftarrow> buffer_write b 0 count [namelen] 1 c;
                    let c = c + k;
                    (k, b) \<leftarrow> buffer_write b 0 count (drop (unat valstart) name) (ucast namelen) c;
                    dns_copyname_loop b count name len 0 (i + 1) (c + k) (i + 1) }
             else dns_copyname_loop b count name len (namelen + 1) valstart c (i + 1) }
      else Some (c, b))"
  by pat_completeness auto
termination
  by (relation "measure (\<lambda>(b, count, name, len, namelen, valstart, c, i). unat len - unat i)")
     (auto simp: counter_decreases)

declare dns_copyname_loop.simps [simp del]

text \<open>The loop bound \<^verbatim>\<open>cstring_length_zero(name)\<close> does not change while the loop runs.\<close>

definition dns_copyname :: "u8 list \<Rightarrow> u32 \<Rightarrow> u8 list \<Rightarrow> (u32 \<times> u8 list) option" where
  "dns_copyname b count name =
     do { len \<leftarrow> cstring_length_zero name;
          (c, b) \<leftarrow> dns_copyname_loop b count name len 0 0 0 0;
          (k, b) \<leftarrow> cstring_write_zero b count c;
          Some (c + k, b) }"

text \<open>
  \<^verbatim>\<open>dns_writename\<close>: the name and the start of the message are pointers into the same message
  \<open>msg\<close>, the name at the (wrapping) index \<open>name\<close> and the message start at index 0. A compression
  pointer moves the name to \<^verbatim>\<open>start + (((name[index] & 0x2F) << 8) | name[index + 1])\<close> in signed
  arithmetic.
\<close>

type_synonym dns_cursor = "u8 list \<times> u32 \<times> u32 \<times> u32"

text \<open>
  One test of the loop condition and, when it holds, one pass through the loop body, on the output
  buffer, \<^verbatim>\<open>name\<close>, \<^verbatim>\<open>index\<close> and \<^verbatim>\<open>offset\<close>. The flag says whether the loop goes on; None is an
  access out of bounds.
\<close>

definition dns_writename_step :: "u32 \<Rightarrow> u8 list \<Rightarrow> dns_cursor \<Rightarrow> (bool \<times> dns_cursor) option" where
  "dns_writename_step count msg = (\<lambda>(b, name, index, offset).
     do { c \<leftarrow> rd msg (unat (name + index));
          if c \<noteq> 0 then
            (if c AND 0xC0 = 0xC0 then
               do { d \<leftarrow> rd msg (unat (name + index + 1));
                    Some (True, (b, push_bit 8 (char_u32 c AND 0x2F) OR char_u32 d, 0, offset)) }
             else
               do { (k, b) \<leftarrow> buffer_write b 0 count (drop (unat (name + index + 1)) msg) (char_u32 c) offset;
                    let offset = offset + k;
                    let index = index + (char_u32 c + 1);
                    e \<leftarrow> rd msg (unat (name + index));
                    (k, b) \<leftarrow> (if e \<noteq> 0 then cstring_write b count [ch CHR ''.'', 0] offset
                               else Some (0, b));
                    Some (True, (b, name, index, offset + k)) })
          else Some (False, (b, name, index, offset)) })"

partial_function (option) dns_writename_loop ::
  "u8 list \<Rightarrow> u32 \<Rightarrow> u8 list \<Rightarrow> u32 \<Rightarrow> u32 \<Rightarrow> u32 \<Rightarrow> (u32 \<times> u8 list) option" where
  "dns_writename_loop b count msg name index offset =
     do { (more, b, name, index, offset) \<leftarrow> dns_writename_step count msg (b, name, index, offset);
          if more then dns_writename_loop b count msg name index offset else Some (offset, b) }"

text \<open>The same loop cut off after \<open>n\<close> passes, which tells a fault (None) from a loop that still runs.\<close>

primrec dns_writename_steps :: "nat \<Rightarrow> u32 \<Rightarrow> u8 list \<Rightarrow> dns_cursor \<Rightarrow> (bool \<times> dns_cursor) option" where
  "dns_writename_steps 0 count msg st = Some (True, st)"
| "dns_writename_steps (Suc n) count msg st =
     do { (more, st) \<leftarrow> dns_writename_step count msg st;
          if more then dns_writename_steps n count msg st else Some (False, st) }"

definition dns_writename :: "u8 list \<Rightarrow> u32 \<Rightarrow> u8 list \<Rightarrow> u32 \<Rightarrow> (u32 \<times> u8 list) option" where
  "dns_writename b count msg name = dns_writename_loop b count msg name 0 0"

section \<open>Names as lists of labels\<close>

fun dns_dotted :: "u8 list list \<Rightarrow> u8 list" where
  "dns_dotted [] = []"
| "dns_dotted [l] = l"
| "dns_dotted (l # ls) = l @ ch CHR ''.'' # dns_dotted ls"

definition dns_labels :: "u8 list list \<Rightarrow> u8 list" where
  "dns_labels ls = concat (map (\<lambda>l. of_nat (length l) # l) ls)"

definition dns_label :: "u8 list \<Rightarrow> bool" where
  "dns_label l \<longleftrightarrow> l \<noteq> [] \<and> length l < 64 \<and> 0 \<notin> set l \<and> ch CHR ''.'' \<notin> set l"

lemma dns_labels_simps [simp]:
  "dns_labels [] = []" "dns_labels (l # ls) = of_nat (length l) # l @ dns_labels ls"
  by (simp_all add: dns_labels_def)

lemma buffer_write_fits:
  assumes "unat c + unat n \<le> unat count" "unat count \<le> length b" "unat n \<le> length inp"
  shows "buffer_write b 0 count inp n c =
    Some (n, if n = 0 then b else blit b (unat c) (take (unat n) inp))"
proof -
  have "clip n count c = n" using assms by (intro word_unat_eq_iff [THEN iffD2]) (simp add: unat_clip)
  with buffer_write_ok [of 0 count b n inp c] assms show ?thesis by (simp add: Let_def)
qed

text \<open>One label of the copy loop: the bytes are counted, then written behind their number.\<close>

lemma copyname_label:
  assumes "drop (unat vs) name = l @ q # rest" "q = ch CHR ''.'' \<or> q = 0"
    and "0 \<notin> set l" "ch CHR ''.'' \<notin> set l" "length l < 256" "j \<le> length l"
    and "unat vs + length l < unat len" "unat c + 1 + length l \<le> unat count" "unat count \<le> length b"
  shows "dns_copyname_loop b count name len (of_nat j) vs c (vs + of_nat j) =
    dns_copyname_loop (blit b (unat c) (of_nat (length l) # l)) count name len 0
      (vs + of_nat (length l + 1)) (c + of_nat (length l + 1)) (vs + of_nat (length l + 1))"
  using assms(6)
proof (induction "length l - j" arbitrary: j)
  case 0
  then have j: "j = length l" by simp
  have vlen: "unat vs + length l < 4294967296" "unat c + 1 + length l < 4294967296"
    using assms(7,8) unat_less_u32 [of len] unat_less_u32 [of count] by linarith+
  let ?i = "vs + of_nat (length l) :: u32"
  have ui: "unat ?i = unat vs + length l"
    using vlen(1) unat_of_nat_u32 [of "length l"] by (subst unat_add_u32) simp_all
  have name: "name ! unat ?i = q" "unat ?i < length name"
    using arg_cong [OF assms(1), of "\<lambda>xs. xs ! length l"] arg_cong [OF assms(1), of length] ui
    by (simp_all add: nth_drop)
  have lt: "?i < len" using assms(7) ui by (simp add: word_less_nat_alt)
  have w1: "buffer_write b 0 count [of_nat (length l)] 1 c = Some (1, blit b (unat c) [of_nat (length l)])"
    using assms(8,9) by (simp add: buffer_write_fits)
  let ?b1 = "blit b (unat c) [of_nat (length l)]"
  have uc: "unat (c + 1) = unat c + 1" using vlen(2) by (subst unat_add_u32) simp_all
  have ul: "unat (ucast (of_nat (length l) :: u8) :: u32) = length l"
    using assms(5) by (simp add: unat_of_nat_u8 unsigned_ucast_eq take_bit_nat_eq_self)
  have w2: "buffer_write ?b1 0 count (drop (unat vs) name) (ucast (of_nat (length l) :: u8)) (c + 1) =
      Some (ucast (of_nat (length l) :: u8), blit b (unat c) (of_nat (length l) # l))"
  proof -
    have "(if (ucast (of_nat (length l) :: u8) :: u32) = 0 then ?b1 else blit ?b1 (unat (c + 1)) l) =
        blit b (unat c) (of_nat (length l) # l)"
      using blit_blit_append [of "unat c" "[of_nat (length l)]" l b "unat (c + 1)"] assms(8,9) uc ul
      by (auto simp: unat_eq_0 [symmetric])
    moreover have "take (unat (ucast (of_nat (length l) :: u8) :: u32)) (drop (unat vs) name) = l"
      using ul assms(1) by simp
    ultimately show ?thesis
      using buffer_write_fits [of "c + 1" "ucast (of_nat (length l) :: u8)" count ?b1 "drop (unat vs) name"]
        assms(1,8,9) uc ul by (simp only:) simp
  qed
  have "(ucast (of_nat (length l) :: u8) :: u32) = of_nat (length l)" using ul by (rule unat_eq_of_nat)
  with lt name assms(2) w1 w2 show ?case
    unfolding j
    by (simp add: dns_copyname_loop.simps [of b count name len "of_nat (length l)" vs c ?i] ac_simps)
next
  case (Suc k)
  then have j: "j < length l" by simp
  have vlen: "unat vs + j < 4294967296"
    using assms(7) j unat_less_u32 [of len] by linarith
  let ?i = "vs + of_nat j :: u32"
  have ui: "unat ?i = unat vs + j"
    using vlen unat_of_nat_u32 [of j] by (subst unat_add_u32) simp_all
  have name: "name ! unat ?i = l ! j" "unat ?i < length name"
    using arg_cong [OF assms(1), of "\<lambda>xs. xs ! j"] arg_cong [OF assms(1), of length] ui j
    by (simp_all add: nth_drop nth_append)
  have "?i < len" using assms(7) ui j by (simp add: word_less_nat_alt)
  moreover have "l ! j \<noteq> 0" "l ! j \<noteq> ch CHR ''.''" using assms(3,4) j by (metis nth_mem)+
  ultimately have step: "dns_copyname_loop b count name len (of_nat j) vs c ?i =
      dns_copyname_loop b count name len (of_nat (Suc j)) vs c (vs + of_nat (Suc j))"
    using name by (simp add: dns_copyname_loop.simps [of b count name len "of_nat j" vs c] ac_simps)
  show ?case
    unfolding step by (rule Suc.hyps(1)) (use Suc.hyps(2) j in simp_all)
qed

lemma copyname_labels:
  assumes "ls \<noteq> []" "list_all dns_label ls" "drop (unat vs) name = dns_dotted ls @ 0 # rest"
    and "unat len = unat vs + length (dns_dotted ls) + 1"
    and "unat c + length (dns_labels ls) \<le> unat count" "unat count \<le> length b"
  shows "dns_copyname_loop b count name len 0 vs c vs =
    Some (c + of_nat (length (dns_labels ls)), blit b (unat c) (dns_labels ls))"
  using assms
proof (induction ls arbitrary: b vs c rule: dns_dotted.induct)
  case (2 l)
  then have l: "0 \<notin> set l" "ch CHR ''.'' \<notin> set l" "length l < 256" by (auto simp: dns_label_def)
  have "dns_copyname_loop b count name len (of_nat 0) vs c (vs + of_nat 0) =
    dns_copyname_loop (blit b (unat c) (of_nat (length l) # l)) count name len 0
      (vs + of_nat (length l + 1)) (c + of_nat (length l + 1)) (vs + of_nat (length l + 1))"
    by (rule copyname_label [of vs name l 0 rest]) (use "2.prems" l in simp_all)
  moreover have "len = vs + of_nat (length l + 1)"
    using unat_eq_of_nat [OF "2.prems"(4)] by (simp add: ac_simps)
  ultimately show ?case by (simp add: dns_copyname_loop.simps)
next
  case (3 l l' ls)
  then have l: "0 \<notin> set l" "ch CHR ''.'' \<notin> set l" "length l < 256" by (auto simp: dns_label_def)
  let ?ls = "l' # ls" and ?b = "blit b (unat c) (of_nat (length l) # l)"
  let ?vs = "vs + of_nat (length l + 1) :: u32" and ?c = "c + of_nat (length l + 1) :: u32"
  have "dns_copyname_loop b count name len (of_nat 0) vs c (vs + of_nat 0) =
    dns_copyname_loop ?b count name len 0 ?vs ?c ?vs"
    by (rule copyname_label [of vs name l "ch CHR ''.''" "dns_dotted ?ls @ 0 # rest"])
       (use "3.prems" l in simp_all)
  moreover have uv: "unat ?vs = unat vs + (length l + 1)"
  proof (rule unat_add_of_nat)
    have "unat vs + (length l + 1) \<le> unat len" using "3.prems"(4) by simp
    then show "unat vs + (length l + 1) < 4294967296" using unat_less_u32 [of len] by linarith
  qed
  moreover have uc: "unat ?c = unat c + (length l + 1)"
  proof (rule unat_add_of_nat)
    have "unat c + (length l + 1) \<le> unat count" using "3.prems"(5) by simp
    then show "unat c + (length l + 1) < 4294967296" using unat_less_u32 [of count] by linarith
  qed
  have "dns_copyname_loop ?b count name len 0 ?vs ?c ?vs =
      Some (?c + of_nat (length (dns_labels ?ls)), blit ?b (unat ?c) (dns_labels ?ls))"
  proof (rule "3.IH")
    have "drop (unat ?vs) name = drop (length l + 1) (drop (unat vs) name)"
      unfolding uv by (simp only: drop_drop add.commute)
    then show "drop (unat ?vs) name = dns_dotted ?ls @ 0 # rest"
      using "3.prems"(3) by simp
  qed (use "3.prems" in \<open>simp_all add: uv [simplified] uc [simplified]\<close>)
  moreover have "blit ?b (unat ?c) (dns_labels ?ls) = blit b (unat c) (dns_labels (l # ?ls))"
    using blit_blit_append [of "unat c" "of_nat (length l) # l" "dns_labels ?ls" b "unat ?c"] uc "3.prems"(5,6)
    by simp
  ultimately show ?case by (simp add: ac_simps)
qed simp

text \<open>A length byte below 64 is no compression pointer and counts as itself.\<close>

lemma label_byte:
  assumes "n < 64"
  shows "(of_nat n :: u8) AND 0xC0 \<noteq> 0xC0" "char_u32 (of_nat n) = of_nat n"
proof -
  have "list_all (\<lambda>n. (of_nat n :: u8) AND 0xC0 \<noteq> 0xC0 \<and> char_u32 (of_nat n) = of_nat n) [0..<64]"
    by (simp add: upt_rec char_u32_def)
  then show "(of_nat n :: u8) AND 0xC0 \<noteq> 0xC0" "char_u32 (of_nat n) = of_nat n"
    using assms by (simp_all add: list_all_iff)
qed

lemma label_byte_nonzero: "0 < n \<Longrightarrow> n < 64 \<Longrightarrow> (of_nat n :: u8) \<noteq> 0"
proof
  assume "0 < n" "n < 64" "(of_nat n :: u8) = 0"
  moreover from this have "unat (of_nat n :: u8) = n" by (intro unat_of_nat_u8) simp
  ultimately show False by simp
qed

lemma rd_drop: "drop i xs = y # ys \<Longrightarrow> rd xs i = Some y"
  by (cases "i < length xs") (auto simp: rd_def nth_via_drop)

lemma namesize_labels:
  assumes "list_all dns_label ls" "drop (unat i) name = dns_labels ls @ 0 # rest"
    and "length name < 4294967296"
  shows "dns_namesize_loop name i = Some (i + of_nat (length (dns_labels ls) + 1))"
  using assms
proof (induction ls arbitrary: i)
  case Nil
  then show ?case by (simp add: dns_namesize_loop.simps [of name i] rd_drop)
next
  case (Cons l ls)
  have l: "0 < length l" "length l < 64" using Cons.prems(1) by (auto simp: dns_label_def)
  have rd: "rd name (unat i) = Some (of_nat (length l))"
    using Cons.prems(2) by (simp add: rd_drop)
  let ?i = "i + of_nat (length l + 1) :: u32"
  have step: "dns_namesize_loop name i = dns_namesize_loop name ?i"
    using rd label_byte [OF l(2)] label_byte_nonzero [OF l] by (simp add: dns_namesize_loop.simps [of name i] ac_simps)
  have ui: "unat ?i = unat i + (length l + 1)"
  proof (rule unat_add_of_nat)
    have "unat i + (length l + 1) \<le> length name"
      using arg_cong [OF Cons.prems(2), of length] by simp
    then show "unat i + (length l + 1) < 4294967296" using Cons.prems(3) by linarith
  qed
  have "drop (unat ?i) name = drop (length l + 1) (drop (unat i) name)"
    unfolding ui by (simp only: drop_drop add.commute)
  then have "drop (unat ?i) name = dns_labels ls @ 0 # rest" using Cons.prems(2) by simp
  with Cons have "dns_namesize_loop name ?i = Some (?i + of_nat (length (dns_labels ls) + 1))" by simp
  then show ?case unfolding step by (simp add: ac_simps)
qed

lemma dot_write:
  assumes "unat off + 1 \<le> unat count" "unat count \<le> length b"
  shows "cstring_write b count [ch CHR ''.'', 0] off = Some (1, blit b (unat off) [ch CHR ''.''])"
proof -
  have "cstring_length [ch CHR ''.'', 0] = Some 1"
    by (simp add: cstring_length_eq c_string_def ch_def)
  with assms show ?thesis by (simp add: cstring_write_def buffer_write_fits)
qed

lemma writename_labels:
  assumes "list_all dns_label ls" "drop (unat (name + index)) msg = dns_labels ls @ 0 # rest"
    and "length msg < 4294967296"
    and "unat off + length (dns_dotted ls) \<le> unat count" "unat count \<le> length b"
  shows "dns_writename_loop b count msg name index off =
    Some (off + of_nat (length (dns_dotted ls)), blit b (unat off) (dns_dotted ls))"
  using assms
proof (induction ls arbitrary: b index off)
  case Nil
  then show ?case by (simp add: dns_writename_loop.simps [of b count msg name index off] dns_writename_step_def rd_drop)
next
  case (Cons l ls)
  let ?p = "name + index" and ?index = "index + of_nat (length l + 1) :: u32"
  have l: "0 < length l" "length l < 64" using Cons.prems(1) by (auto simp: dns_label_def)
  have room: "unat ?p + (length l + 1) < 4294967296"
  proof -
    have "unat ?p + (length l + 1) \<le> length msg"
      using arg_cong [OF Cons.prems(2), of length] by simp
    then show ?thesis using Cons.prems(3) by linarith
  qed
  have p1: "unat (?p + 1) = unat ?p + 1" using room unat_add_of_nat [of ?p 1] by simp
  have pn: "unat (name + ?index) = unat ?p + (length l + 1)"
    using unat_add_of_nat [OF room] by (simp add: add.assoc)
  have rd: "rd msg (unat ?p) = Some (of_nat (length l))" using Cons.prems(2) by (simp add: rd_drop)
  have tail: "drop (unat (?p + 1)) msg = l @ dns_labels ls @ 0 # rest"
  proof -
    have "drop (unat (?p + 1)) msg = drop 1 (drop (unat ?p) msg)"
      unfolding p1 by (simp only: drop_drop add.commute)
    then show ?thesis using Cons.prems(2) by simp
  qed
  have rest: "drop (unat (name + ?index)) msg = dns_labels ls @ 0 # rest"
  proof -
    have "drop (unat (name + ?index)) msg = drop (length l + 1) (drop (unat ?p) msg)"
      unfolding pn by (simp only: drop_drop add.commute)
    then show ?thesis using Cons.prems(2) by simp
  qed
  have ll: "unat (of_nat (length l) :: u32) = length l" using l by (intro unat_of_nat_u32) simp
  let ?b1 = "blit b (unat off) l" and ?off1 = "off + of_nat (length l) :: u32"
  have fits: "unat off + length l \<le> unat count" using Cons.prems(4) by (cases ls) auto
  have w: "buffer_write b 0 count (drop (unat (?p + 1)) msg) (of_nat (length l)) off = Some (of_nat (length l), ?b1)"
    using buffer_write_fits [of off "of_nat (length l)" count b "l @ dns_labels ls @ 0 # rest"]
      fits Cons.prems(5) ll l tail by (auto simp: unat_eq_0 [symmetric])
  have uo: "unat ?off1 = unat off + length l"
    using fits unat_less_u32 [of count] by (intro unat_add_of_nat) linarith
  note prems = Cons.prems and IH = Cons.IH
  show ?case
  proof (cases ls)
    case Nil
    then have e: "rd msg (unat (name + ?index)) = Some 0" using rest by (simp add: rd_drop)
    have "dns_writename_loop b count msg name index off = dns_writename_loop ?b1 count msg name ?index ?off1"
      using rd label_byte [OF l(2)] label_byte_nonzero [OF l] w e
      by (simp add: dns_writename_loop.simps [of b count msg name index off] dns_writename_step_def ac_simps)
    also have "\<dots> = Some (?off1, ?b1)"
      unfolding dns_writename_loop.simps [of ?b1 count msg name ?index ?off1] dns_writename_step_def prod.case e by simp
    finally show ?thesis using Nil by simp
  next
    case (Cons l' ls')
    have l': "0 < length l'" "length l' < 64" using prems(1) Cons by (auto simp: dns_label_def)
    have e: "rd msg (unat (name + ?index)) = Some (of_nat (length l'))"
      using rest Cons by (simp add: rd_drop)
    let ?b2 = "blit ?b1 (unat ?off1) [ch CHR ''.'']" and ?off2 = "?off1 + 1"
    have dotted: "dns_dotted (l # ls) = l @ ch CHR ''.'' # dns_dotted ls" using Cons by simp
    have f2: "unat off + length l + 1 + length (dns_dotted ls) \<le> unat count"
      using prems(4) unfolding dotted by simp
    have dot: "cstring_write ?b1 count [ch CHR ''.'', 0] ?off1 = Some (1, ?b2)"
      using f2 uo prems(5) by (intro dot_write) simp_all
    have uo2: "unat ?off2 = unat off + length l + 1"
    proof -
      have "unat ?off1 + 1 < 4294967296" using f2 uo unat_less_u32 [of count] by linarith
      from unat_add_of_nat [OF this] uo show ?thesis by simp
    qed
    have "dns_writename_loop b count msg name index off = dns_writename_loop ?b2 count msg name ?index ?off2"
      using rd label_byte [OF l(2)] label_byte_nonzero [OF l] label_byte_nonzero [OF l'] w e dot
      by (simp add: dns_writename_loop.simps [of b count msg name index off] dns_writename_step_def ac_simps)
    also have "\<dots> = Some (?off2 + of_nat (length (dns_dotted ls)), blit ?b2 (unat ?off2) (dns_dotted ls))"
      by (rule IH) (use prems rest f2 uo uo2 in simp_all)
    also have "blit ?b2 (unat ?off2) (dns_dotted ls) = blit b (unat off) (dns_dotted (l # ls))"
    proof -
      have "?b2 = blit b (unat off) (l @ [ch CHR ''.''])"
        using f2 uo prems(5) by (intro blit_blit_append) simp_all
      moreover have "blit (blit b (unat off) (l @ [ch CHR ''.''])) (unat ?off2) (dns_dotted ls) =
          blit b (unat off) ((l @ [ch CHR ''.'']) @ dns_dotted ls)"
        using f2 uo2 prems(5) by (intro blit_blit_append) simp_all
      ultimately show ?thesis unfolding dotted by simp
    qed
    finally show ?thesis unfolding dotted by (simp add: ac_simps)
  qed
qed

lemma dns_dotted_length: "ls \<noteq> [] \<Longrightarrow> length (dns_labels ls) = length (dns_dotted ls) + 1"
  by (induction ls rule: dns_dotted.induct) simp_all

lemma dns_dotted_no_zero: "list_all dns_label ls \<Longrightarrow> 0 \<notin> set (dns_dotted ls)"
  by (induction ls rule: dns_dotted.induct) (auto simp: dns_label_def ch_def)

lemma c_string_append_zero: "0 \<notin> set xs \<Longrightarrow> c_string (xs @ 0 # rest) = xs"
  by (simp add: c_string_def takeWhile_tail) (metis takeWhile_eq_all_conv)

section \<open>Compression pointers\<close>

lemma dns_pointer_step:
  assumes "rd msg (unat (name + index)) = Some c" "c AND 0xC0 = 0xC0" "rd msg (unat (name + index + 1)) = Some d"
  shows "dns_writename_step count msg (b, name, index, off) =
    Some (True, (b, push_bit 8 (char_u32 c AND 0x2F) OR char_u32 d, 0, off))"
proof -
  have "c \<noteq> 0" using assms(2) by auto
  with assms show ?thesis by (simp add: dns_writename_step_def)
qed

text \<open>The loop returns only when the cut off loop has left after some number of passes.\<close>

lemma dns_loop_leaves:
  assumes "dns_writename_loop b count msg name index off = Some y"
  shows "\<exists>n st. dns_writename_steps n count msg (b, name, index, off) = Some (False, st)"
proof (rule dns_writename_loop.raw_induct
    [of "\<lambda>b count msg name index off y. \<exists>n st. dns_writename_steps n count msg (b, name, index, off) = Some (False, st)",
      OF _ assms])
  fix loop :: "u8 list \<Rightarrow> u32 \<Rightarrow> u8 list \<Rightarrow> u32 \<Rightarrow> u32 \<Rightarrow> u32 \<Rightarrow> (u32 \<times> u8 list) option"
    and b msg :: "u8 list" and count name index offset :: u32 and y
  assume IH: "\<And>b count msg name index offset y. loop b count msg name index offset = Some y \<Longrightarrow>
      \<exists>n st. dns_writename_steps n count msg (b, name, index, offset) = Some (False, st)"
    and body: "do { (more, b, name, index, offset) \<leftarrow> dns_writename_step count msg (b, name, index, offset);
          if more then loop b count msg name index offset else Some (offset, b) } = Some y"
  from body obtain more b' name' index' offset' where
    s: "dns_writename_step count msg (b, name, index, offset) = Some (more, b', name', index', offset')"
    and l: "more \<Longrightarrow> loop b' count msg name' index' offset' = Some y"
    by (auto simp: bind_eq_Some_conv split: if_splits)
  obtain n st where "more \<Longrightarrow> dns_writename_steps n count msg (b', name', index', offset') = Some (False, st)"
    using IH [OF l] by blast
  with s have "\<exists>st. dns_writename_steps (Suc n) count msg (b, name, index, offset) = Some (False, st)"
    by (cases more; cases st) auto
  then show "\<exists>n st. dns_writename_steps n count msg (b, name, index, offset) = Some (False, st)" by blast
qed

text \<open>A pass that changes nothing is repeated for ever.\<close>

lemma dns_steps_stuck:
  "dns_writename_step count msg st = Some (True, st) \<Longrightarrow> dns_writename_steps n count msg st = Some (True, st)"
  by (induction n) simp_all

lemma dns_loop_stuck:
  assumes "dns_writename_step count msg (b, name, index, off) = Some (True, (b, name, index, off))"
  shows "dns_writename_loop b count msg name index off = None"
proof (rule ccontr)
  assume "dns_writename_loop b count msg name index off \<noteq> None"
  then obtain n st where "dns_writename_steps n count msg (b, name, index, off) = Some (False, st)"
    using dns_loop_leaves by blast
  with dns_steps_stuck [OF assms, of n] show False by simp
qed

text \<open>
  C22: A name survives the encoding. When a dotted name of nonempty labels of at most 63 bytes is
  copied into a buffer it fits in, the buffer holds the length-prefixed labels and the final zero;
  \<^verbatim>\<open>dns_namesize\<close> finds exactly the bytes that were written, and \<^verbatim>\<open>dns_writename\<close> gives the dotted
  name back in any output buffer with room for it.
\<close>

theorem dns_name_roundtrip:
  assumes "ls \<noteq> []" "list_all dns_label ls" "name = dns_dotted ls @ 0 # rest"
    and "length (dns_dotted ls) + 2 \<le> unat count" "unat count \<le> length b" "length b < 4294967296"
    and "length (dns_dotted ls) \<le> unat m" "unat m \<le> length out"
  shows "\<exists>b'. dns_copyname b count name = Some (of_nat (length (dns_dotted ls) + 2), b') \<and>
    b' = blit b 0 (dns_labels ls @ [0]) \<and>
    dns_namesize b' = Some (of_nat (length (dns_dotted ls) + 2)) \<and>
    dns_writename out m b' 0 = Some (of_nat (length (dns_dotted ls)), blit out 0 (dns_dotted ls))"
proof -
  let ?n = "length (dns_labels ls)"
  have n: "?n = length (dns_dotted ls) + 1" using assms(1) by (rule dns_dotted_length)
  have room: "?n + 1 \<le> unat count" "?n + 1 \<le> length b" using n assms(4,5) by simp_all
  have un: "unat (of_nat ?n :: u32) = ?n" using room unat_less_u32 [of count] by (intro unat_of_nat_u32) linarith
  have cs: "c_string name = dns_dotted ls"
    unfolding assms(3) by (rule c_string_append_zero [OF dns_dotted_no_zero [OF assms(2)]])
  have len: "cstring_length_zero name = Some (of_nat ?n)"
    using cs n assms(3) by (simp add: cstring_length_zero_def cstring_length_eq)
  have loop: "dns_copyname_loop b count name (of_nat ?n) 0 0 0 0 = Some (of_nat ?n, blit b 0 (dns_labels ls))"
    using copyname_labels [of ls 0 name rest "of_nat ?n" 0 count b] assms(1-3,5) room n un by simp
  have b': "blit (blit b 0 (dns_labels ls)) ?n [0] = blit b 0 (dns_labels ls @ [0])"
    using room by (intro blit_blit_append) simp_all
  have "cstring_write_zero (blit b 0 (dns_labels ls)) count (of_nat ?n) = Some (1, blit b 0 (dns_labels ls @ [0]))"
    using room un b' by (simp add: cstring_write_zero_def word_less_nat_alt wr_def blit_single)
  then have copy: "dns_copyname b count name = Some (of_nat ?n + 1, blit b 0 (dns_labels ls @ [0]))"
    by (simp add: dns_copyname_def len loop)
  have msg: "blit b 0 (dns_labels ls @ [0]) = dns_labels ls @ 0 # drop (?n + 1) b"
    using room by (simp add: blit_def)
  have "dns_namesize (dns_labels ls @ 0 # drop (?n + 1) b) = Some (of_nat (?n + 1))"
    using namesize_labels [of ls 0 _ "drop (?n + 1) b"] assms(2,6) room by (simp add: dns_namesize_def)
  moreover have "dns_writename out m (dns_labels ls @ 0 # drop (?n + 1) b) 0 =
      Some (of_nat (length (dns_dotted ls)), blit out 0 (dns_dotted ls))"
    using writename_labels [of ls 0 0 _ "drop (?n + 1) b" 0 m out] assms(2,6,7,8) room
    by (simp add: dns_writename_def)
  ultimately show ?thesis using copy n by (simp add: msg)
qed

theorem dns_name_roundtrip_witness:
  "\<exists>b'. dns_copyname (replicate 8 0) 8 [102, 111, 46, 117, 107, 0] = Some (7, b') \<and>
    dns_namesize b' = Some 7 \<and>
    dns_writename (replicate 5 0) 5 b' 0 = Some (5, [102, 111, 46, 117, 107])"
  using dns_name_roundtrip [of "[[102, 111], [117, 107]]" "[102, 111, 46, 117, 107, 0]" "[]" 8 "replicate 8 0" 5 "replicate 5 0"]
  by (simp add: dns_label_def ch_def blit_def)

lemma pointer_low_far: "0x80 \<le> d \<Longrightarrow> 0xFFFFFF80 \<le> char_u32 d"
  by (rule u8_exhaust [of "\<lambda>d. 0x80 \<le> d \<longrightarrow> 0xFFFFFF80 \<le> char_u32 d", THEN mp]) 
     (simp_all add: char_u32_def byte_check unsigned_minus_1_eq_mask mask_eq_exp_minus_1)

lemma pointer_low_near: "d < 0x80 \<Longrightarrow> char_u32 d = ucast d"
  by (rule u8_exhaust [of "\<lambda>d. d < 0x80 \<longrightarrow> char_u32 d = ucast d", THEN mp]) (simp_all add: char_u32_def byte_check)

lemma pointer_high:
  "c AND 0xC0 = 0xC0 \<and> \<not> bit c 4 \<Longrightarrow> char_u32 c AND 0x2F = ucast (c AND 0x3F)"
  by (rule u8_exhaust [of "\<lambda>c. c AND 0xC0 = 0xC0 \<and> \<not> bit c 4 \<longrightarrow> char_u32 c AND 0x2F = ucast (c AND 0x3F)", THEN mp])
     (simp_all add: char_u32_def byte_check)

lemma push_bit_or_low:
  fixes v w :: u32
  assumes "v < 256"
  shows "push_bit 8 w OR v = push_bit 8 w + v"
proof (rule disjunctive_add [symmetric])
  fix n
  have "v = take_bit 8 v"
    using assms by (simp add: word_less_nat_alt word_unat_eq_iff unsigned_take_bit_eq take_bit_nat_eq_self)
  then have "bit v n \<Longrightarrow> n < 8" by (metis bit_take_bit_iff)
  then show "\<not> bit (push_bit 8 w) n \<or> \<not> bit v n" by (auto simp: bit_push_bit_iff)
qed

lemma pointer_target_near:
  assumes "c AND 0xC0 = 0xC0" "\<not> bit c 4" "d < 0x80"
  shows "unat (push_bit 8 (char_u32 c AND 0x2F) OR char_u32 d) = 256 * (unat c mod 64) + unat d"
proof -
  have mask63: "c AND 0x3F = take_bit 6 c" by (simp add: take_bit_eq_mask mask_eq_exp_minus_1)
  have c: "char_u32 c AND 0x2F = of_nat (unat c mod 64)"
  proof -
    have "unat (c AND 0x3F) = unat c mod 64"
      unfolding mask63 by (simp only: unsigned_take_bit_eq) (simp add: take_bit_eq_mod)
    then have "ucast (c AND 0x3F) = (of_nat (unat c mod 64) :: u32)" by (metis of_nat_unat)
    then show ?thesis using pointer_high [of c] assms(1,2) by simp
  qed
  have d: "char_u32 d = of_nat (unat d)" using pointer_low_near [OF assms(3)] by simp
  have "unat d < 128" using assms(3) by (simp add: word_less_nat_alt)
  then have "push_bit 8 (char_u32 c AND 0x2F) OR char_u32 d = push_bit 8 (char_u32 c AND 0x2F) + char_u32 d"
    unfolding d by (intro push_bit_or_low) (simp add: word_less_nat_alt unsigned_ucast_eq take_bit_nat_eq_self)
  also have "\<dots> = of_nat (256 * (unat c mod 64) + unat d)" unfolding c d by (simp add: push_bit_eq_mult)
  finally show ?thesis using \<open>unat d < 128\<close> by (simp only:) (rule unat_of_nat_u32, simp)
qed

text \<open>
  C29: What becomes of a compression pointer. When bit 4 of its first byte is clear and its second byte is
  below 128, the name at the 14 bit offset is written. A second byte from 128 on is sign extended:
  the loop takes the pointer and faults in its next pass, reading outside of every message. A
  pointer to its own position keeps the loop running for ever: after any number of passes it
  has not faulted, is not done and stands where it started, so that no value is returned.
\<close>

theorem dns_pointer_resolution:
  assumes "rd msg (unat p) = Some c" "c AND 0xC0 = 0xC0" "rd msg (unat (p + 1)) = Some d"
    and "length msg \<le> 0xFFFFFF80" "unat m \<le> length out"
  shows "(\<not> bit c 4 \<and> d < 0x80 \<and> list_all dns_label ls \<and>
      drop (256 * (unat c mod 64) + unat d) msg = dns_labels ls @ 0 # rest \<and> length (dns_dotted ls) \<le> unat m \<longrightarrow>
      dns_writename out m msg p = Some (of_nat (length (dns_dotted ls)), blit out 0 (dns_dotted ls))) \<and>
    (0x80 \<le> d \<longrightarrow> dns_writename out m msg p = None \<and>
      (\<exists>st. dns_writename_steps 1 m msg (out, p, 0, 0) = Some (True, st)) \<and>
      dns_writename_steps 2 m msg (out, p, 0, 0) = None) \<and>
    (c = 0xC0 \<and> d < 0x80 \<and> unat p = unat d \<longrightarrow> dns_writename out m msg p = None \<and>
      (\<forall>n. dns_writename_steps n m msg (out, p, 0, 0) = Some (True, (out, p, 0, 0))))"
proof -
  let ?t = "push_bit 8 (char_u32 c AND 0x2F) OR char_u32 d"
  have pass: "dns_writename_step m msg (out, p, 0, 0) = Some (True, (out, ?t, 0, 0))"
    by (rule dns_pointer_step) (use assms in simp_all)
  then have step: "dns_writename out m msg p = dns_writename_loop out m msg ?t 0 0"
    unfolding dns_writename_def by (subst dns_writename_loop.simps) simp
  have "dns_writename out m msg p = Some (of_nat (length (dns_dotted ls)), blit out 0 (dns_dotted ls))"
    if "\<not> bit c 4" "d < 0x80" "list_all dns_label ls"
      "drop (256 * (unat c mod 64) + unat d) msg = dns_labels ls @ 0 # rest" "length (dns_dotted ls) \<le> unat m"
  proof -
    from that(4) have "drop (unat ?t) msg = dns_labels ls @ 0 # rest"
      unfolding pointer_target_near [OF assms(2) that(1,2)] .
    then show ?thesis
      unfolding step using writename_labels [of ls ?t 0 msg rest 0 m out] that assms(4,5) by simp
  qed
  moreover have fault: "dns_writename_step m msg (out, ?t, 0, 0) = None" if "0x80 \<le> d"
  proof -
    have "0xFFFFFF80 \<le> ?t" using pointer_low_far [OF that] le_word_or1 [of "char_u32 d" "push_bit 8 (char_u32 c AND 0x2F)"]
      by (simp add: or.commute)
    then have "rd msg (unat (?t + 0)) = None" using assms(4) by (simp add: rd_def word_le_nat_alt)
    then show ?thesis by (simp add: dns_writename_step_def)
  qed
  moreover have "dns_writename out m msg p = None" if "0x80 \<le> d"
    unfolding step by (subst dns_writename_loop.simps) (simp only: fault [OF that] bind.bind_lzero)
  moreover have stuck: "dns_writename_step m msg (out, p, 0, 0) = Some (True, (out, p, 0, 0))"
    if "c = 0xC0" "d < 0x80" "unat p = unat d"
  proof -
    have "char_u32 d = p" using pointer_low_near [OF that(2)] that(3) by (metis of_nat_unat ucast_id)
    moreover have "char_u32 0xC0 AND 0x2F = 0" by (simp add: char_u32_def)
    ultimately show ?thesis using pass that(1) by simp
  qed
  ultimately show ?thesis
    using pass dns_steps_stuck [OF stuck] dns_loop_stuck [OF stuck]
    by (simp add: dns_writename_def numeral_2_eq_2)
qed

theorem dns_pointer_resolution_witness:
  "dns_writename [0, 0] 2 [1, 97, 0, 0xC0, 0] 3 = Some (1, [97, 0]) \<and>
   dns_writename_steps 2 2 [1, 97, 0, 0xC0, 0x80] ([0, 0], 3, 0, 0) = None \<and>
   (\<forall>n. dns_writename_steps n 2 [1, 97, 0, 0xC0, 3] ([0, 0], 3, 0, 0) = Some (True, ([0, 0], 3, 0, 0))) \<and>
   dns_writename [0, 0] 2 [1, 97, 0, 0xC0, 3] 3 = None"
  using dns_pointer_resolution [of "[1, 97, 0, 0xC0, 0]" 3 192 0 2 "[0, 0]" "[[97]]" "[0xC0, 0]"]
    dns_pointer_resolution [of "[1, 97, 0, 0xC0, 0x80]" 3 192 128 2 "[0, 0]" "[[97]]" "[]"]
    dns_pointer_resolution [of "[1, 97, 0, 0xC0, 3]" 3 192 3 2 "[0, 0]" "[[97]]" "[]"]
  by (simp add: rd_def dns_label_def ch_def blit_def)

end
