(* ===== verification/Gb_State.thy ===== *)
theory Gb_State
  imports C_Base
begin

text \<open>
  The state of the Game Boy emulator (\<^verbatim>\<open>src/src/gameboy/cpu.h\<close>) and the cartridge callbacks of
  \<^verbatim>\<open>src/src/gameboy/gameboy.c\<close>. An access outside of an array and a division by zero are \<open>None\<close>.
\<close>

unbundle bit_operations_syntax

section \<open>State\<close>

text \<open>
  The members of \<^verbatim>\<open>struct gb_s\<close>: each sub-structure is a record that extends the one before it, so
  that a member is a field of the whole state. The unions of register pairs are given by their
  bytes, the one bit members of \<^verbatim>\<open>f_bits\<close> by truth values; the four unused bits of \<^verbatim>\<open>f\<close> are never
  read by the program.
\<close>

datatype lcd_mode_e = LCD_HBLANK | LCD_VBLANK | LCD_SEARCH_OAM | LCD_TRANSFER

record cpu_registers_s =
  reg_a :: u8
  reg_b :: u8
  reg_c :: u8
  reg_d :: u8
  reg_e :: u8
  reg_h :: u8
  reg_l :: u8
  flag_z :: bool
  flag_n :: bool
  flag_h :: bool
  flag_c :: bool
  reg_sp :: u16
  reg_pc :: u16

record gb_registers_s = cpu_registers_s +
  TIMA :: u8
  TMA :: u8
  DIV :: u8
  TAC :: u8
  LCDC :: u8
  STAT :: u8
  SCY :: u8
  SCX :: u8
  LY :: u8
  LYC :: u8
  DMA :: u8
  BGP :: u8
  OBP0 :: u8
  OBP1 :: u8
  WY :: u8
  WX :: u8
  P1 :: u8
  SB :: u8
  SC :: u8
  IF :: u8
  IE :: u8

record count_s = gb_registers_s +
  lcd_count :: u32
  div_count :: u32
  tima_count :: u32
  serial_count :: u32

text \<open>\<^verbatim>\<open>display\<close> and \<^verbatim>\<open>direct\<close>; the frame buffer is the static array \<^verbatim>\<open>fb\<close> of \<^verbatim>\<open>video.c\<close>.\<close>

record display_s = count_s +
  bg_palette :: "u8 list"
  sp_palette :: "u8 list"
  window_clear :: u8
  display_WY :: u8
  frame_skip_count :: bool
  interlace_count :: bool
  interlace :: bool
  frame_skip :: bool
  joypad :: u8
  video_fb :: "u8 list list"

text \<open>
  The remaining members. \<^verbatim>\<open>gb_rom_read\<close>, \<^verbatim>\<open>gb_cart_ram_read\<close>, \<^verbatim>\<open>gb_cart_ram_write\<close> and \<^verbatim>\<open>gb_error\<close>
  point to the functions of \<^verbatim>\<open>gameboy.c\<close> throughout; the arrays \<^verbatim>\<open>rom\<close> and \<^verbatim>\<open>cart_ram\<close> of that file
  are the fields \<open>rom_data\<close> and \<open>cart_ram_data\<close>. The serial callback is null (\<open>None\<close>) or a function
  of the outgoing byte.
\<close>

record gb_s = display_s +
  gb_serial_transfer :: "(u8 \<Rightarrow> u8) option"
  gb_halt :: bool
  gb_ime :: bool
  gb_bios_enable :: bool
  gb_frame :: bool
  lcd_mode :: lcd_mode_e
  mbc :: u8
  cart_ram :: u8
  num_rom_banks :: u16
  num_ram_banks :: u8
  selected_rom_bank :: u8
  cart_ram_bank :: u8
  enable_cart_ram :: u8
  cart_mode_select :: u8
  cart_rtc :: "u8 list"
  wram :: "u8 list"
  vram :: "u8 list"
  hram :: "u8 list"
  oam :: "u8 list"
  rom_data :: "u8 list"
  cart_ram_data :: "u8 list"

text \<open>The unions of \<^verbatim>\<open>cpu_registers_s\<close>: a pair has its first named byte in the high half.\<close>

definition pair16 :: "u8 \<Rightarrow> u8 \<Rightarrow> u16" where
  "pair16 hi lo = push_bit 8 (ucast hi) OR ucast lo"

definition hi8 :: "u16 \<Rightarrow> u8" where
  "hi8 v = ucast (drop_bit 8 v)"

definition lo8 :: "u16 \<Rightarrow> u8" where
  "lo8 v = ucast (v AND 0xFF)"

definition reg_bc :: "gb_s \<Rightarrow> u16" where
  "reg_bc gb = pair16 (reg_b gb) (reg_c gb)"

definition reg_de :: "gb_s \<Rightarrow> u16" where
  "reg_de gb = pair16 (reg_d gb) (reg_e gb)"

definition reg_hl :: "gb_s \<Rightarrow> u16" where
  "reg_hl gb = pair16 (reg_h gb) (reg_l gb)"

definition set_bc :: "u16 \<Rightarrow> gb_s \<Rightarrow> gb_s" where
  "set_bc v gb = gb\<lparr>reg_b := hi8 v, reg_c := lo8 v\<rparr>"

definition set_de :: "u16 \<Rightarrow> gb_s \<Rightarrow> gb_s" where
  "set_de v gb = gb\<lparr>reg_d := hi8 v, reg_e := lo8 v\<rparr>"

definition set_hl :: "u16 \<Rightarrow> gb_s \<Rightarrow> gb_s" where
  "set_hl v gb = gb\<lparr>reg_h := hi8 v, reg_l := lo8 v\<rparr>"

definition tac_rate :: "gb_s \<Rightarrow> nat" where
  "tac_rate gb = unat (TAC gb AND 3)"

definition tac_enable :: "gb_s \<Rightarrow> bool" where
  "tac_enable gb = bit (TAC gb) 2"

section \<open>Cartridge callbacks\<close>

definition gb_rom_read :: "gb_s \<Rightarrow> u32 \<Rightarrow> u8 option" where
  "gb_rom_read gb addr = rd (rom_data gb) (unat addr)"

definition gb_cart_ram_read :: "gb_s \<Rightarrow> u32 \<Rightarrow> u8 option" where
  "gb_cart_ram_read gb addr = rd (cart_ram_data gb) (unat addr)"

definition gb_cart_ram_write :: "gb_s \<Rightarrow> u32 \<Rightarrow> u8 \<Rightarrow> gb_s option" where
  "gb_cart_ram_write gb addr val =
     do { m \<leftarrow> wr (cart_ram_data gb) (unat addr) val; Some (gb\<lparr>cart_ram_data := m\<rparr>) }"

end
