(* ===== verification/Gb_Memory.thy ===== *)
theory Gb_Memory
  imports Gb_State
begin

text \<open>
  The real time clock and the memory map of the Game Boy emulator: \<^verbatim>\<open>gb_tick_rtc\<close>, \<^verbatim>\<open>gb_set_rtc\<close>,
  \<^verbatim>\<open>__gb_read\<close> and \<^verbatim>\<open>__gb_write\<close> of \<^verbatim>\<open>src/src/gameboy/cpu.c\<close>. \<^verbatim>\<open>ENABLE_AUDIO\<close> is 0 in \<^verbatim>\<open>cpu.h\<close>.
\<close>

section \<open>Real time clock\<close>

record tm =
  tm_sec :: u32
  tm_min :: u32
  tm_hour :: u32
  tm_yday :: u32

text \<open>\<^verbatim>\<open>rtc_bits\<close> and \<^verbatim>\<open>cart_rtc\<close> are the same five bytes: sec, min, hour, yday, high.\<close>

fun rtc_tick :: "u8 list \<Rightarrow> u8 list option" where
  "rtc_tick [sec, mins, hour, yday, high] =
     Some (let sec = sec + 1 in
       if sec = 60 then
         (let mins = mins + 1 in
          if mins = 60 then
            (let hour = hour + 1 in
             if hour = 24 then
               (let yday = yday + 1 in
                if yday = 0 then
                  (let high = (if high AND 1 \<noteq> 0 then high OR 0x80 else high) in [0, 0, 0, yday, high XOR 1])
                else [0, 0, 0, yday, high])
             else [0, 0, hour, yday, high])
          else [0, mins, hour, yday, high])
       else [sec, mins, hour, yday, high])"
| "rtc_tick _ = None"

definition gb_tick_rtc :: "gb_s \<Rightarrow> gb_s option" where
  "gb_tick_rtc gb =
     do { high \<leftarrow> rd (cart_rtc gb) 4;
          if high AND 0x40 = 0 then do { rtc \<leftarrow> rtc_tick (cart_rtc gb); Some (gb\<lparr>cart_rtc := rtc\<rparr>) }
          else Some gb }"

definition gb_set_rtc :: "gb_s \<Rightarrow> tm \<Rightarrow> gb_s option" where
  "gb_set_rtc gb time =
     do { r \<leftarrow> wr (cart_rtc gb) 0 (ucast (tm_sec time));
          r \<leftarrow> wr r 1 (ucast (tm_min time));
          r \<leftarrow> wr r 2 (ucast (tm_hour time));
          r \<leftarrow> wr r 3 (ucast (tm_yday time AND 0xFF));
          r \<leftarrow> wr r 4 (ucast (drop_bit 8 (tm_yday time)));
          Some (gb\<lparr>cart_rtc := r\<rparr>) }"

section \<open>Reading\<close>

text \<open>The inner \<^verbatim>\<open>switch (addr & 0xFF)\<close> over the I/O registers.\<close>

primrec lcd_mode_bits :: "lcd_mode_e \<Rightarrow> u8" where
  "lcd_mode_bits LCD_HBLANK = 0"
| "lcd_mode_bits LCD_VBLANK = 1"
| "lcd_mode_bits LCD_SEARCH_OAM = 2"
| "lcd_mode_bits LCD_TRANSFER = 3"

definition gb_io_read :: "gb_s \<Rightarrow> u32 \<Rightarrow> u8" where
  "gb_io_read gb r =
     (if r = 0x00 then 0xC0 OR P1 gb
      else if r = 0x01 then SB gb
      else if r = 0x02 then SC gb
      else if r = 0x04 then DIV gb
      else if r = 0x05 then TIMA gb
      else if r = 0x06 then TMA gb
      else if r = 0x07 then TAC gb
      else if r = 0x0F then IF gb
      else if r = 0x40 then LCDC gb
      else if r = 0x41 then
        (STAT gb AND 0xF8) OR
        (if LCDC gb AND 0x80 \<noteq> 0 then lcd_mode_bits (lcd_mode gb) else lcd_mode_bits LCD_VBLANK)
      else if r = 0x42 then SCY gb
      else if r = 0x43 then SCX gb
      else if r = 0x44 then LY gb
      else if r = 0x45 then LYC gb
      else if r = 0x46 then DMA gb
      else if r = 0x47 then BGP gb
      else if r = 0x48 then OBP0 gb
      else if r = 0x49 then OBP1 gb
      else if r = 0x4A then WY gb
      else if r = 0x4B then WX gb
      else if r = 0xFF then IE gb
      else 0xFF)"

text \<open>Pages 0xA and 0xB: cartridge RAM or the registers of the clock.\<close>

definition gb_cart_read :: "gb_s \<Rightarrow> u32 \<Rightarrow> u8 option" where
  "gb_cart_read gb addr =
     (if cart_ram gb \<noteq> 0 \<and> enable_cart_ram gb \<noteq> 0 then
        (if mbc gb = 3 \<and> cart_ram_bank gb \<ge> 0x08 then
           rd (cart_rtc gb) (unat (cart_ram_bank gb - 0x08))
         else if (cart_mode_select gb \<noteq> 0 \<or> mbc gb \<noteq> 1) \<and> cart_ram_bank gb < num_ram_banks gb then
           gb_cart_ram_read gb (addr - 0xA000 + ucast (cart_ram_bank gb) * 0x2000)
         else gb_cart_ram_read gb (addr - 0xA000))
      else Some 0)"

definition gb_high_read :: "gb_s \<Rightarrow> u32 \<Rightarrow> u8 option" where
  "gb_high_read gb addr =
     (if addr < 0xFE00 then rd (wram gb) (unat (addr - 0xE000))
      else if addr < 0xFEA0 then rd (oam gb) (unat (addr - 0xFE00))
      else if addr < 0xFF00 then Some 0xFF
      else if 0xFF80 \<le> addr \<and> addr < 0xFFFF then rd (hram gb) (unat (addr - 0xFF80))
      else if addr \<ge> 0xFF10 \<and> addr \<le> 0xFF3F then Some 1
      else Some (gb_io_read gb (addr AND 0xFF)))"

text \<open>\<^verbatim>\<open>__gb_read\<close>. The callback \<^verbatim>\<open>gb_error\<close> of \<^verbatim>\<open>gameboy.c\<close> does nothing.\<close>

definition gb_read :: "gb_s \<Rightarrow> u32 \<Rightarrow> u8 option" where
  "gb_read gb addr =
     (let page = drop_bit 12 addr in
      if page \<le> 0x3 then gb_rom_read gb addr
      else if page \<le> 0x7 then
        (if mbc gb = 1 \<and> cart_mode_select gb \<noteq> 0 then
           gb_rom_read gb (addr + (ucast (selected_rom_bank gb AND 0x1F) - 1) * 0x4000)
         else gb_rom_read gb (addr + (ucast (selected_rom_bank gb) - 1) * 0x4000))
      else if page \<le> 0x9 then rd (vram gb) (unat (addr - 0x8000))
      else if page \<le> 0xB then gb_cart_read gb addr
      else if page = 0xC then rd (wram gb) (unat (addr - 0xC000))
      else if page = 0xD then rd (wram gb) (unat (addr - 0xD000 + 0x1000))
      else if page = 0xE then rd (wram gb) (unat (addr - 0xE000))
      else if page = 0xF then gb_high_read gb addr
      else Some 0xFF)"

section \<open>Writing\<close>

text \<open>\<^verbatim>\<open>selected_rom_bank = selected_rom_bank % num_rom_banks\<close>: dividing by 0 is undefined.\<close>

definition mod_rom_banks :: "gb_s \<Rightarrow> u8 \<Rightarrow> gb_s option" where
  "mod_rom_banks gb bank =
     (if num_rom_banks gb = 0 then None
      else Some (gb\<lparr>selected_rom_bank := ucast ((ucast bank :: u16) mod num_rom_banks gb)\<rparr>))"

text \<open>Pages 0x2 and 0x3. Page 0x2 of an MBC5 cartridge returns early, other mappers fall through.\<close>

definition gb_rom_bank_write :: "gb_s \<Rightarrow> u32 \<Rightarrow> u8 \<Rightarrow> gb_s option" where
  "gb_rom_bank_write gb addr val =
     (if mbc gb = 1 then
        (let bank = (val AND 0x1F) OR (selected_rom_bank gb AND 0x60) in
         mod_rom_banks gb (if bank AND 0x1F = 0 then bank + 1 else bank))
      else if mbc gb = 2 \<and> addr AND 0x10 \<noteq> 0 then
        (let bank = val AND 0x0F in mod_rom_banks gb (if bank = 0 then bank + 1 else bank))
      else if mbc gb = 3 then
        (let bank = val AND 0x7F in mod_rom_banks gb (if bank = 0 then bank + 1 else bank))
      else if mbc gb = 5 then
        mod_rom_banks gb
          (ucast (push_bit 8 (ucast (val AND 0x01)) OR (ucast (selected_rom_bank gb AND 0xFF) :: u32)))
      else mod_rom_banks gb (selected_rom_bank gb))"

definition gb_control_write :: "gb_s \<Rightarrow> u32 \<Rightarrow> u8 \<Rightarrow> gb_s option" where
  "gb_control_write gb addr val =
     (let page = drop_bit 12 addr in
      if page \<le> 0x1 then
        Some (if mbc gb = 2 \<and> addr AND 0x10 \<noteq> 0 then gb
              else if mbc gb > 0 \<and> cart_ram gb \<noteq> 0 then
                gb\<lparr>enable_cart_ram := of_bool (val AND 0x0F = 0x0A)\<rparr>
              else gb)
      else if page = 0x2 \<and> mbc gb = 5 then
        mod_rom_banks gb (ucast (((ucast (selected_rom_bank gb) :: u32) AND 0x100) OR ucast val))
      else if page \<le> 0x3 then gb_rom_bank_write gb addr val
      else if page \<le> 0x5 then
        (if mbc gb = 1 then
           mod_rom_banks (gb\<lparr>cart_ram_bank := val AND 3\<rparr>)
             (push_bit 5 (val AND 3) OR (selected_rom_bank gb AND 0x1F))
         else if mbc gb = 3 then Some (gb\<lparr>cart_ram_bank := val\<rparr>)
         else if mbc gb = 5 then Some (gb\<lparr>cart_ram_bank := val AND 0x0F\<rparr>)
         else Some gb)
      else Some (gb\<lparr>cart_mode_select := val AND 1\<rparr>))"

definition gb_cart_write :: "gb_s \<Rightarrow> u32 \<Rightarrow> u8 \<Rightarrow> gb_s option" where
  "gb_cart_write gb addr val =
     (if cart_ram gb \<noteq> 0 \<and> enable_cart_ram gb \<noteq> 0 then
        (if mbc gb = 3 \<and> cart_ram_bank gb \<ge> 0x08 then
           do { r \<leftarrow> wr (cart_rtc gb) (unat (cart_ram_bank gb - 0x08)) val; Some (gb\<lparr>cart_rtc := r\<rparr>) }
         else if cart_mode_select gb \<noteq> 0 \<and> cart_ram_bank gb < num_ram_banks gb then
           gb_cart_ram_write gb (addr - 0xA000 + ucast (cart_ram_bank gb) * 0x2000) val
         else if num_ram_banks gb \<noteq> 0 then gb_cart_ram_write gb (addr - 0xA000) val
         else Some gb)
      else Some gb)"

text \<open>The palette registers are unpacked into four colours of two bits.\<close>

definition palette4 :: "u8 \<Rightarrow> u8 list" where
  "palette4 v = [v AND 0x03, drop_bit 2 v AND 0x03, drop_bit 4 v AND 0x03, drop_bit 6 v AND 0x03]"

text \<open>The transfer loop of the DMA register: \<^verbatim>\<open>i\<close> runs to \<^verbatim>\<open>OAM_SIZE\<close>, \<open>n\<close> steps to go.\<close>

primrec gb_dma :: "nat \<Rightarrow> u8 \<Rightarrow> gb_s \<Rightarrow> gb_s option" where
  "gb_dma 0 i gb = Some gb"
| "gb_dma (Suc n) i gb =
     do { v \<leftarrow> gb_read gb (push_bit 8 (ucast (DMA gb)) + ucast i);
          m \<leftarrow> wr (oam gb) (unat i) v;
          gb_dma n (i + 1) (gb\<lparr>oam := m\<rparr>) }"

definition gb_lcdc_write :: "gb_s \<Rightarrow> u8 \<Rightarrow> gb_s" where
  "gb_lcdc_write gb val =
     (let gb = gb\<lparr>LCDC := val\<rparr> in
      if LCDC gb AND 0x80 = 0 then
        (if lcd_mode gb \<noteq> LCD_VBLANK then gb\<lparr>LCDC := LCDC gb OR 0x80\<rparr>
         else gb\<lparr>STAT := (STAT gb AND NOT 0x03) OR lcd_mode_bits LCD_VBLANK, LY := 0, lcd_count := 0\<rparr>)
      else gb)"

definition gb_io_write :: "gb_s \<Rightarrow> u32 \<Rightarrow> u8 \<Rightarrow> gb_s option" where
  "gb_io_write gb r val =
     (if r = 0x00 then
        (let gb = gb\<lparr>P1 := val\<rparr> in
         Some (if P1 gb AND 0x10 = 0 then gb\<lparr>P1 := P1 gb OR drop_bit 4 (joypad gb)\<rparr>
               else gb\<lparr>P1 := P1 gb OR (joypad gb AND 0x0F)\<rparr>))
      else if r = 0x01 then Some (gb\<lparr>SB := val\<rparr>)
      else if r = 0x02 then Some (gb\<lparr>SC := val\<rparr>)
      else if r = 0x04 then Some (gb\<lparr>DIV := 0\<rparr>)
      else if r = 0x05 then Some (gb\<lparr>TIMA := val\<rparr>)
      else if r = 0x06 then Some (gb\<lparr>TMA := val\<rparr>)
      else if r = 0x07 then Some (gb\<lparr>TAC := val\<rparr>)
      else if r = 0x0F then Some (gb\<lparr>IF := val OR 0xE0\<rparr>)
      else if r = 0x40 then Some (gb_lcdc_write gb val)
      else if r = 0x41 then Some (gb\<lparr>STAT := val AND 0x78\<rparr>)
      else if r = 0x42 then Some (gb\<lparr>SCY := val\<rparr>)
      else if r = 0x43 then Some (gb\<lparr>SCX := val\<rparr>)
      else if r = 0x45 then Some (gb\<lparr>LYC := val\<rparr>)
      else if r = 0x46 then gb_dma 160 0 (gb\<lparr>DMA := val mod 0xF1\<rparr>)
      else if r = 0x47 then Some (gb\<lparr>BGP := val, bg_palette := palette4 val\<rparr>)
      else if r = 0x48 then Some (gb\<lparr>OBP0 := val, sp_palette := palette4 val @ drop 4 (sp_palette gb)\<rparr>)
      else if r = 0x49 then Some (gb\<lparr>OBP1 := val, sp_palette := take 4 (sp_palette gb) @ palette4 val\<rparr>)
      else if r = 0x4A then Some (gb\<lparr>WY := val\<rparr>)
      else if r = 0x4B then Some (gb\<lparr>WX := val\<rparr>)
      else if r = 0x50 then Some (gb\<lparr>gb_bios_enable := False\<rparr>)
      else if r = 0xFF then Some (gb\<lparr>IE := val\<rparr>)
      else Some gb)"

definition gb_high_write :: "gb_s \<Rightarrow> u32 \<Rightarrow> u8 \<Rightarrow> gb_s option" where
  "gb_high_write gb addr val =
     (if addr < 0xFE00 then do { m \<leftarrow> wr (wram gb) (unat (addr - 0xE000)) val; Some (gb\<lparr>wram := m\<rparr>) }
      else if addr < 0xFEA0 then do { m \<leftarrow> wr (oam gb) (unat (addr - 0xFE00)) val; Some (gb\<lparr>oam := m\<rparr>) }
      else if addr < 0xFF00 then Some gb
      else if 0xFF80 \<le> addr \<and> addr < 0xFFFF then
        do { m \<leftarrow> wr (hram gb) (unat (addr - 0xFF80)) val; Some (gb\<lparr>hram := m\<rparr>) }
      else if addr \<ge> 0xFF10 \<and> addr \<le> 0xFF3F then Some gb
      else gb_io_write gb (addr AND 0xFF) val)"

definition gb_write :: "gb_s \<Rightarrow> u32 \<Rightarrow> u8 \<Rightarrow> gb_s option" where
  "gb_write gb addr val =
     (let page = drop_bit 12 addr in
      if page \<le> 0x7 then gb_control_write gb addr val
      else if page \<le> 0x9 then do { m \<leftarrow> wr (vram gb) (unat (addr - 0x8000)) val; Some (gb\<lparr>vram := m\<rparr>) }
      else if page \<le> 0xB then gb_cart_write gb addr val
      else if page = 0xC then do { m \<leftarrow> wr (wram gb) (unat (addr - 0xC000)) val; Some (gb\<lparr>wram := m\<rparr>) }
      else if page = 0xD then
        do { m \<leftarrow> wr (wram gb) (unat (addr - 0xD000 + 0x1000)) val; Some (gb\<lparr>wram := m\<rparr>) }
      else if page = 0xE then do { m \<leftarrow> wr (wram gb) (unat (addr - 0xE000)) val; Some (gb\<lparr>wram := m\<rparr>) }
      else if page = 0xF then gb_high_write gb addr val
      else Some gb)"

end
