(* ===== verification/Gb_Video.thy ===== *)
theory Gb_Video
  imports Gb_Memory
begin

text \<open>
  The picture of the Game Boy emulator: \<^verbatim>\<open>__gb_draw_line\<close> of \<^verbatim>\<open>src/src/gameboy/cpu.c\<close>, the frame buffer
  of \<^verbatim>\<open>src/src/gameboy/video.c\<close>, and \<^verbatim>\<open>onvideomode\<close> of \<^verbatim>\<open>src/src/gameboy/gameboy.c\<close>.
\<close>

section \<open>Background and window\<close>

definition tile_addr :: "gb_s \<Rightarrow> u8 \<Rightarrow> u8 \<Rightarrow> u16" where
  "tile_addr gb idx py =
     (if LCDC gb AND 0x10 \<noteq> 0 then 0x0000 + ucast idx * 0x10
      else 0x0800 + ((ucast idx + 0x80) mod 0x100) * 0x10) + 2 * ucast py"

text \<open>
  The loop over the columns, which the background and the window have in the same words: \<open>xof\<close>
  gives the column in the tile map of a screen column, \<open>base\<close> the row of the tile map, \<open>stop\<close> the
  column before which the loop ends.
\<close>

function tile_loop ::
  "gb_s \<Rightarrow> (u8 \<Rightarrow> u8) \<Rightarrow> u16 \<Rightarrow> u8 \<Rightarrow> u8 \<Rightarrow> u8 \<Rightarrow> u8 \<Rightarrow> u8 \<Rightarrow> u8 \<Rightarrow> u8 list \<Rightarrow> u8 list option" where
  "tile_loop gb xof base py stop disp_x px t1 t2 pixels =
     (if disp_x \<noteq> stop then
        do { (px, t1, t2) \<leftarrow>
               (if px = 8 then
                  do { idx \<leftarrow> rd (vram gb) (unat base + unat (drop_bit 3 (xof disp_x)));
                       let tile = tile_addr gb idx py;
                       t1 \<leftarrow> rd (vram gb) (unat tile);
                       t2 \<leftarrow> rd (vram gb) (unat tile + 1);
                       Some (0, t1, t2) }
                else Some (px, t1, t2));
             let c = (t1 AND 1) OR push_bit 1 (t2 AND 1);
             col \<leftarrow> rd (bg_palette gb) (unat c);
             pixels \<leftarrow> wr pixels (unat disp_x) (col OR 0x20);
             tile_loop gb xof base py stop (disp_x - 1) (px + 1) (drop_bit 1 t1) (drop_bit 1 t2) pixels }
      else Some pixels)"
  by pat_completeness auto
termination
proof (relation "measure (\<lambda>(gb, xof, base, py, stop, disp_x, px, t1, t2, pixels). unat (disp_x - stop))",
    goal_cases)
  case (2 gb xof base py stop disp_x)
  then have "disp_x - stop \<noteq> 0" by simp
  then have "unat (disp_x - stop - 1) < unat (disp_x - stop)"
    by (metis measure_unat)
  then show ?case by (simp add: algebra_simps)
qed simp

declare tile_loop.simps [simp del]

definition draw_background :: "gb_s \<Rightarrow> u8 list \<Rightarrow> u8 list option" where
  "draw_background gb pixels =
     (if LCDC gb AND 0x01 \<noteq> 0 then
        (let bg_y = LY gb + SCY gb;
             bg_map = (if LCDC gb AND 0x08 \<noteq> 0 then 0x1C00 else 0x1800) + ucast (drop_bit 3 bg_y) * 0x20 :: u16;
             disp_x = 159;
             bg_x = disp_x + SCX gb;
             py = bg_y AND 0x07;
             px = 7 - (bg_x AND 0x07)
         in do { idx \<leftarrow> rd (vram gb) (unat bg_map + unat (drop_bit 3 bg_x));
                 let tile = tile_addr gb idx py;
                 t1 \<leftarrow> rd (vram gb) (unat tile);
                 t2 \<leftarrow> rd (vram gb) (unat tile + 1);
                 tile_loop gb (\<lambda>disp_x. disp_x + SCX gb) bg_map py 0xFF disp_x px
                   (drop_bit (unat px) t1) (drop_bit (unat px) t2) pixels })
      else Some pixels)"

definition window_on :: "gb_s \<Rightarrow> bool" where
  "window_on gb \<longleftrightarrow> LCDC gb AND 0x20 \<noteq> 0 \<and> LY gb \<ge> display_WY gb \<and> WX gb \<le> 166"

text \<open>The first tile of the window is looked up before \<^verbatim>\<open>win_line\<close> is moved to the row of the line.\<close>

definition draw_window :: "gb_s \<Rightarrow> u8 list \<Rightarrow> (gb_s \<times> u8 list) option" where
  "draw_window gb pixels =
     (if window_on gb then
        (let win_line = (if LCDC gb AND 0x40 \<noteq> 0 then 0x1C00 else 0x1800) :: u16;
             disp_x = 159;
             win_x = disp_x - WX gb + 7;
             py = window_clear gb AND 0x07;
             px = 7 - (win_x AND 0x07)
         in do { idx \<leftarrow> rd (vram gb) (unat win_line + unat (drop_bit 3 win_x));
                 let win_line = win_line + ucast (drop_bit 3 (window_clear gb)) * 0x20;
                 let tile = tile_addr gb idx py;
                 t1 \<leftarrow> rd (vram gb) (unat tile);
                 t2 \<leftarrow> rd (vram gb) (unat tile + 1);
                 let stop = (if WX gb < 7 then 0 else WX gb - 7) - 1;
                 pixels \<leftarrow> tile_loop gb (\<lambda>disp_x. disp_x - WX gb + 7) win_line py stop disp_x px
                   (drop_bit (unat px) t1) (drop_bit (unat px) t2) pixels;
                 Some (gb\<lparr>window_clear := window_clear gb + 1\<rparr>, pixels) })
      else Some (gb, pixels))"

section \<open>Sprites\<close>

text \<open>The loop over the columns of a sprite: to the right when it is flipped, else to the left.\<close>

function sprite_columns ::
  "gb_s \<Rightarrow> u8 \<Rightarrow> bool \<Rightarrow> u8 \<Rightarrow> u8 \<Rightarrow> u8 \<Rightarrow> u8 \<Rightarrow> u8 list \<Rightarrow> u8 list option" where
  "sprite_columns gb OF flip stop disp_x t1 t2 pixels =
     (if disp_x \<noteq> stop then
        do { let c = (t1 AND 1) OR push_bit 1 (t2 AND 1);
             pixels \<leftarrow>
               (if c \<noteq> 0 then
                  do { old \<leftarrow> rd pixels (unat disp_x);
                       if OF AND 0x80 \<noteq> 0 \<and> old AND 0x3 \<noteq> 0 then Some pixels
                       else do { col \<leftarrow> rd (sp_palette gb) (if OF AND 0x10 \<noteq> 0 then unat c + 4 else unat c);
                                 wr pixels (unat disp_x) ((col OR (OF AND 0x10)) AND NOT 0x20) } }
                else Some pixels);
             sprite_columns gb OF flip stop (disp_x + (if flip then 1 else - 1))
               (drop_bit 1 t1) (drop_bit 1 t2) pixels }
      else Some pixels)"
  by pat_completeness auto
termination
proof (relation "measure (\<lambda>(gb, OF, flip, stop, disp_x, t1, t2, pixels).
    unat (if flip then stop - disp_x else disp_x - stop))", goal_cases)
  case (2 gb OF flip stop disp_x)
  let ?d = "if flip then stop - disp_x else disp_x - stop"
  have "?d \<noteq> 0" using 2(1) by (simp split: if_splits)
  then have "unat (?d - 1) < unat ?d" by (rule measure_unat)
  then show ?case by (cases flip) (simp_all add: algebra_simps)
qed simp

declare sprite_columns.simps [simp del]

definition draw_sprite :: "gb_s \<Rightarrow> nat \<Rightarrow> u8 list \<Rightarrow> u8 list option" where
  "draw_sprite gb s pixels =
     do { OY \<leftarrow> rd (oam gb) (4 * s);
          OX \<leftarrow> rd (oam gb) (4 * s + 1);
          OT \<leftarrow> rd (oam gb) (4 * s + 2);
          let OT = OT AND (if LCDC gb AND 0x04 \<noteq> 0 then 0xFE else 0xFF);
          OF \<leftarrow> rd (oam gb) (4 * s + 3);
          if unat (LY gb) + (if LCDC gb AND 0x04 \<noteq> 0 then 0 else 8) \<ge> unat OY \<or> unat (LY gb) + 16 < unat OY then
            Some pixels
          else if OX = 0 \<or> OX \<ge> 168 then Some pixels
          else do {
            let py = LY gb - OY + 16;
            let py = (if OF AND 0x40 \<noteq> 0 then (if LCDC gb AND 0x04 \<noteq> 0 then 15 else 7) - py else py);
            t1 \<leftarrow> rd (vram gb) (unat OT * 0x10 + 2 * unat py);
            t2 \<leftarrow> rd (vram gb) (unat OT * 0x10 + 2 * unat py + 1);
            let flip = (OF AND 0x20 \<noteq> 0);
            let start = (if flip then (if OX < 8 then 0 else OX - 8) else (if OX < 160 then OX else 160) - 1);
            let stop = (if flip then (if OX < 160 then OX else 160) else (if OX < 8 then 0 else OX - 8) - 1);
            let shift = (if flip then 8 - OX + start else OX - (start + 1));
            sprite_columns gb OF flip stop start (drop_bit (unat shift) t1) (drop_bit (unat shift) t2) pixels } }"

text \<open>The loop \<^verbatim>\<open>for (s = NUM_SPRITES - 1; s != 0xFF; s--)\<close>; the counter \<^verbatim>\<open>count\<close> is never read.\<close>

primrec draw_sprites :: "nat \<Rightarrow> gb_s \<Rightarrow> u8 list \<Rightarrow> u8 list option" where
  "draw_sprites 0 gb pixels = Some pixels"
| "draw_sprites (Suc s) gb pixels = do { pixels \<leftarrow> draw_sprite gb s pixels; draw_sprites s gb pixels }"

section \<open>The frame buffer\<close>

text \<open>\<^verbatim>\<open>video_drawline\<close>: the loop over \<^verbatim>\<open>x\<close>, with \<open>n\<close> steps to go.\<close>

primrec drawline_loop :: "nat \<Rightarrow> nat \<Rightarrow> u8 list \<Rightarrow> u8 list \<Rightarrow> u8 list option" where
  "drawline_loop 0 x pixels row = Some row"
| "drawline_loop (Suc n) x pixels row =
     do { p \<leftarrow> rd pixels x; row \<leftarrow> wr row x p; drawline_loop n (x + 1) pixels row }"

definition video_drawline :: "u8 list list \<Rightarrow> u8 list \<Rightarrow> u8 \<Rightarrow> u8 list list option" where
  "video_drawline fb pixels line =
     do { row \<leftarrow> rd fb (unat line);
          row \<leftarrow> drawline_loop 160 0 pixels row;
          wr fb (unat line) row }"

text \<open>\<^verbatim>\<open>__gb_draw_line\<close>.\<close>

definition gb_draw_line :: "gb_s \<Rightarrow> gb_s option" where
  "gb_draw_line gb =
     (if frame_skip gb \<and> \<not> frame_skip_count gb then Some gb
      else if interlace gb \<and>
          (\<not> interlace_count gb \<and> LY gb AND 1 = 0 \<or> interlace_count gb \<and> LY gb AND 1 = 1) then
        Some (if window_on gb then gb\<lparr>window_clear := window_clear gb + 1\<rparr> else gb)
      else
        do { pixels \<leftarrow> draw_background gb (replicate 160 0);
             (gb, pixels) \<leftarrow> draw_window gb pixels;
             pixels \<leftarrow> (if LCDC gb AND 0x02 \<noteq> 0 then draw_sprites 40 gb pixels else Some pixels);
             fb \<leftarrow> video_drawline (video_fb gb) pixels (LY gb);
             Some (gb\<lparr>video_fb := fb\<rparr>) })"

text \<open>\<^verbatim>\<open>video_render\<close>: the frame buffer is read as one array of bytes.\<close>

definition video_palette :: "u32 list list" where
  "video_palette = replicate 3 [0x00FFFFFF, 0x00A0A0A0, 0x00606060, 0x00000000]"

function render_row ::
  "u8 list list \<Rightarrow> u32 \<Rightarrow> u32 \<Rightarrow> u32 \<Rightarrow> u32 \<Rightarrow> u32 \<Rightarrow> u32 \<Rightarrow> u32 list \<Rightarrow> u32 list option" where
  "render_row fb ytarget ysource scalew totw offx x target =
     (if x < totw then
        (if scalew = 0 then None
         else do { pixel \<leftarrow> rd (concat fb) (unat (ysource + x div scalew));
                   pal \<leftarrow> rd video_palette (unat (drop_bit 4 (pixel AND 0x30)));
                   color \<leftarrow> rd pal (unat (pixel AND 3));
                   target \<leftarrow> wr target (unat (ytarget + (x + offx))) color;
                   render_row fb ytarget ysource scalew totw offx (x + 1) target })
      else Some target)"
  by pat_completeness auto
termination
  by (relation "measure (\<lambda>(fb, ytarget, ysource, scalew, totw, offx, x, target). unat totw - unat x)")
     (auto simp: counter_decreases)

function render_rows ::
  "u8 list list \<Rightarrow> u32 \<Rightarrow> u32 \<Rightarrow> u32 \<Rightarrow> u32 \<Rightarrow> u32 \<Rightarrow> u32 \<Rightarrow> u32 \<Rightarrow> u32 \<Rightarrow> u32 list \<Rightarrow> u32 list option" where
  "render_rows fb w scalew scaleh totw toth offx offy y target =
     (if y < toth then
        (if scaleh = 0 then None
         else do { target \<leftarrow> render_row fb ((y + offy) * w) (y div scaleh * 160) scalew totw offx 0 target;
                   render_rows fb w scalew scaleh totw toth offx offy (y + 1) target })
      else Some target)"
  by pat_completeness auto
termination
  by (relation "measure (\<lambda>(fb, w, scalew, scaleh, totw, toth, offx, offy, y, target). unat toth - unat y)")
     (auto simp: counter_decreases)

declare render_row.simps [simp del] render_rows.simps [simp del]

definition video_render ::
  "u8 list list \<Rightarrow> u32 list \<Rightarrow> u32 \<Rightarrow> u32 \<Rightarrow> u32 \<Rightarrow> u32 \<Rightarrow> u32 \<Rightarrow> u32 \<Rightarrow> u32 \<Rightarrow> u32 list option" where
  "video_render fb framebuffer w scalew scaleh totw toth offx offy =
     render_rows fb w scalew scaleh totw toth offx offy 0 framebuffer"

text \<open>The screen geometry that \<^verbatim>\<open>onvideomode\<close> stores in the static variables of \<^verbatim>\<open>gameboy.c\<close>.\<close>

record screen =
  scr_w :: u32
  scr_h :: u32
  scr_scalew :: u32
  scr_scaleh :: u32
  scr_totw :: u32
  scr_toth :: u32
  scr_offx :: u32
  scr_offy :: u32

definition onvideomode :: "u32 \<Rightarrow> u32 \<Rightarrow> screen" where
  "onvideomode vw vh =
     (let scalew = vw div 160; scaleh = vh div 144; totw = 160 * scalew; toth = 144 * scaleh
      in \<lparr>scr_w = vw, scr_h = vh, scr_scalew = scalew, scr_scaleh = scaleh, scr_totw = totw,
          scr_toth = toth, scr_offx = (vw - totw) div 2, scr_offy = (vh - toth) div 2\<rparr>)"

end
