(* ===== verification/Gb_Cpu.thy ===== *)
theory Gb_Cpu
  imports Gb_Video
begin

text \<open>
  The instructions of the Game Boy processor: the switch of \<^verbatim>\<open>__gb_step_cpu\<close> and
  \<^verbatim>\<open>__gb_execute_cb\<close> of \<^verbatim>\<open>src/src/gameboy/cpu.c\<close>. The rest of a step is in \<open>Gb_Step\<close>.
\<close>

section \<open>Phrases of the instruction switch\<close>

text \<open>
  An instruction maps the state to the next state and the number of cycles it adds to
  \<^verbatim>\<open>inst_cycles\<close>. \<open>gb_fetch\<close> is \<^verbatim>\<open>__gb_read(gb, gb->cpu_reg.pc++)\<close>, \<open>gb_pop\<close> is
  \<^verbatim>\<open>__gb_read(gb, gb->cpu_reg.sp++)\<close>, and \<open>gb_push\<close> is \<^verbatim>\<open>__gb_write(gb, --gb->cpu_reg.sp, v)\<close>.
\<close>

type_synonym gb_op = "gb_s \<Rightarrow> (gb_s \<times> u8) option"

definition gb_done :: "gb_s \<Rightarrow> (gb_s \<times> u8) option" where
  "gb_done gb = Some (gb, 0)"

definition gb_fetch :: "gb_s \<Rightarrow> (u8 \<times> gb_s) option" where
  "gb_fetch gb = do { v \<leftarrow> gb_read gb (ucast (reg_pc gb)); Some (v, gb\<lparr>reg_pc := reg_pc gb + 1\<rparr>) }"

definition gb_pop :: "gb_s \<Rightarrow> (u8 \<times> gb_s) option" where
  "gb_pop gb = do { v \<leftarrow> gb_read gb (ucast (reg_sp gb)); Some (v, gb\<lparr>reg_sp := reg_sp gb + 1\<rparr>) }"

definition gb_push :: "u8 \<Rightarrow> gb_s \<Rightarrow> gb_s option" where
  "gb_push v gb = (let gb = gb\<lparr>reg_sp := reg_sp gb - 1\<rparr> in gb_write gb (ucast (reg_sp gb)) v)"

text \<open>Two bytes at the program counter, two bytes from the stack, and the program counter pushed.\<close>

definition gb_imm16 :: "gb_s \<Rightarrow> (u16 \<times> gb_s) option" where
  "gb_imm16 gb = do { (lo, gb) \<leftarrow> gb_fetch gb; (hi, gb) \<leftarrow> gb_fetch gb; Some (pair16 hi lo, gb) }"

definition gb_pop16 :: "gb_s \<Rightarrow> (u16 \<times> gb_s) option" where
  "gb_pop16 gb = do { (lo, gb) \<leftarrow> gb_pop gb; (hi, gb) \<leftarrow> gb_pop gb; Some (pair16 hi lo, gb) }"

definition gb_push_pc :: "gb_s \<Rightarrow> gb_s option" where
  "gb_push_pc gb = do { gb \<leftarrow> gb_push (hi8 (reg_pc gb)) gb; gb_push (lo8 (reg_pc gb)) gb }"

definition gb_rst :: "u16 \<Rightarrow> gb_op" where
  "gb_rst v gb = do { gb \<leftarrow> gb_push_pc gb; gb_done (gb\<lparr>reg_pc := v\<rparr>) }"

text \<open>The conditional jumps, calls and returns, with their extra cycles.\<close>

definition gb_jr :: "gb_s \<Rightarrow> gb_s option" where
  "gb_jr gb = do { (temp, gb) \<leftarrow> gb_fetch gb; Some (gb\<lparr>reg_pc := reg_pc gb + scast temp\<rparr>) }"

definition gb_jr_if :: "bool \<Rightarrow> gb_op" where
  "gb_jr_if b gb =
     (if b then do { gb \<leftarrow> gb_jr gb; Some (gb, 4) } else gb_done (gb\<lparr>reg_pc := reg_pc gb + 1\<rparr>))"

definition gb_jp_if :: "bool \<Rightarrow> gb_op" where
  "gb_jp_if b gb =
     (if b then do { (temp, gb) \<leftarrow> gb_imm16 gb; Some (gb\<lparr>reg_pc := temp\<rparr>, 4) }
      else gb_done (gb\<lparr>reg_pc := reg_pc gb + 2\<rparr>))"

definition gb_call :: "gb_s \<Rightarrow> gb_s option" where
  "gb_call gb =
     do { (temp, gb) \<leftarrow> gb_imm16 gb; gb \<leftarrow> gb_push_pc gb; Some (gb\<lparr>reg_pc := temp\<rparr>) }"

definition gb_call_if :: "bool \<Rightarrow> gb_op" where
  "gb_call_if b gb =
     (if b then do { gb \<leftarrow> gb_call gb; Some (gb, 12) } else gb_done (gb\<lparr>reg_pc := reg_pc gb + 2\<rparr>))"

definition gb_ret :: "gb_s \<Rightarrow> gb_s option" where
  "gb_ret gb = do { (temp, gb) \<leftarrow> gb_pop16 gb; Some (gb\<lparr>reg_pc := temp\<rparr>) }"

definition gb_ret_if :: "bool \<Rightarrow> gb_op" where
  "gb_ret_if b gb = (if b then do { gb \<leftarrow> gb_ret gb; Some (gb, 12) } else gb_done gb)"

text \<open>
  The arithmetic phrases on the accumulator, in 16 bit arithmetic as in the source. In C the
  operands are promoted to \<^verbatim>\<open>int\<close> and the result is stored in an \<^verbatim>\<open>unsigned short\<close>.
\<close>

definition gb_flags_add :: "u8 \<Rightarrow> u16 \<Rightarrow> gb_s \<Rightarrow> gb_s" where
  "gb_flags_add v temp gb =
     gb\<lparr>flag_z := (temp AND 0xFF = 0), flag_n := False,
        flag_h := ((ucast (reg_a gb) XOR ucast v XOR temp) AND 0x10 \<noteq> 0),
        flag_c := (temp AND 0xFF00 \<noteq> 0)\<rparr>"

definition gb_add :: "u8 \<Rightarrow> gb_s \<Rightarrow> gb_s" where
  "gb_add v gb =
     (let temp = ucast (reg_a gb) + ucast v in (gb_flags_add v temp gb)\<lparr>reg_a := ucast (temp AND 0xFF)\<rparr>)"

definition gb_adc :: "u8 \<Rightarrow> gb_s \<Rightarrow> gb_s" where
  "gb_adc v gb =
     (let temp = ucast (reg_a gb) + ucast v + of_bool (flag_c gb)
      in (gb_flags_add v temp gb)\<lparr>reg_a := ucast (temp AND 0xFF)\<rparr>)"

definition gb_flags_sub :: "u8 \<Rightarrow> u16 \<Rightarrow> gb_s \<Rightarrow> gb_s" where
  "gb_flags_sub v temp gb =
     gb\<lparr>flag_z := (temp AND 0xFF = 0), flag_n := True,
        flag_h := ((ucast (reg_a gb) XOR ucast v XOR temp) AND 0x10 \<noteq> 0),
        flag_c := (temp AND 0xFF00 \<noteq> 0)\<rparr>"

definition gb_sub :: "u8 \<Rightarrow> gb_s \<Rightarrow> gb_s" where
  "gb_sub v gb =
     (let temp = ucast (reg_a gb) - ucast v in (gb_flags_sub v temp gb)\<lparr>reg_a := ucast (temp AND 0xFF)\<rparr>)"

definition gb_sbc :: "u8 \<Rightarrow> gb_s \<Rightarrow> gb_s" where
  "gb_sbc v gb =
     (let temp = ucast (reg_a gb) - ucast v - of_bool (flag_c gb)
      in (gb_flags_sub v temp gb)\<lparr>reg_a := ucast (temp AND 0xFF)\<rparr>)"

definition gb_cp :: "u8 \<Rightarrow> gb_s \<Rightarrow> gb_s" where
  "gb_cp v gb = (let temp = ucast (reg_a gb) - ucast v in gb_flags_sub v temp gb)"

definition gb_logic :: "bool \<Rightarrow> u8 \<Rightarrow> gb_s \<Rightarrow> gb_s" where
  "gb_logic half v gb = gb\<lparr>reg_a := v, flag_z := (v = 0), flag_n := False, flag_h := half, flag_c := False\<rparr>"

definition gb_inc_flags :: "u8 \<Rightarrow> gb_s \<Rightarrow> gb_s" where
  "gb_inc_flags v gb = gb\<lparr>flag_z := (v = 0), flag_n := False, flag_h := (v AND 0x0F = 0)\<rparr>"

definition gb_dec_flags :: "u8 \<Rightarrow> gb_s \<Rightarrow> gb_s" where
  "gb_dec_flags v gb = gb\<lparr>flag_z := (v = 0), flag_n := True, flag_h := (v AND 0x0F = 0x0F)\<rparr>"

definition gb_add_hl :: "u16 \<Rightarrow> gb_s \<Rightarrow> gb_s" where
  "gb_add_hl v gb =
     (let temp = ucast (reg_hl gb) + ucast v :: u32 in
      set_hl (ucast (temp AND 0xFFFF))
        (gb\<lparr>flag_n := False, flag_h := ((temp XOR ucast (reg_hl gb) XOR ucast v) AND 0x1000 \<noteq> 0),
            flag_c := (temp AND 0xFFFF0000 \<noteq> 0)\<rparr>))"

definition gb_daa :: "gb_s \<Rightarrow> gb_s" where
  "gb_daa gb =
     (let a = ucast (reg_a gb) :: u16;
          a = (if flag_n gb then
                 (let a = (if flag_h gb then (a - 0x06) AND 0xFF else a)
                  in if flag_c gb then a - 0x60 else a)
               else
                 (let a = (if flag_h gb \<or> a AND 0x0F > 9 then a + 0x06 else a)
                  in if flag_c gb \<or> a > 0x9F then a + 0x60 else a));
          gb = (if a AND 0x100 = 0x100 then gb\<lparr>flag_c := True\<rparr> else gb)
      in gb\<lparr>reg_a := ucast a, flag_z := (ucast a = (0 :: u8)), flag_h := False\<rparr>)"

definition gb_sp_offset_flags :: "u8 \<Rightarrow> gb_s \<Rightarrow> gb_s" where
  "gb_sp_offset_flags offset gb =
     gb\<lparr>flag_z := False, flag_n := False,
        flag_h := ((ucast (reg_sp gb) AND 0xF) + (scast offset AND 0xF) > (0xF :: u32)),
        flag_c := ((ucast (reg_sp gb) AND 0xFF) + (scast offset AND 0xFF) > (0xFF :: u32))\<rparr>"

section \<open>The CB page\<close>

text \<open>\<^verbatim>\<open>__gb_execute_cb\<close>: the operand register, the shifts and rotations, and the write back.\<close>

definition gb_cb_operand :: "u8 \<Rightarrow> gb_s \<Rightarrow> u8 option" where
  "gb_cb_operand r gb =
     (if r = 0 then Some (reg_b gb)
      else if r = 1 then Some (reg_c gb)
      else if r = 2 then Some (reg_d gb)
      else if r = 3 then Some (reg_e gb)
      else if r = 4 then Some (reg_h gb)
      else if r = 5 then Some (reg_l gb)
      else if r = 6 then gb_read gb (ucast (reg_hl gb))
      else Some (reg_a gb))"

definition gb_cb_shift :: "u8 \<Rightarrow> bool \<Rightarrow> u8 \<Rightarrow> gb_s \<Rightarrow> u8 \<times> gb_s" where
  "gb_cb_shift cbop d val gb =
     (if cbop = 0 \<or> cbop = 1 then
        (if d then
           (let temp = val;
                val = drop_bit 1 val OR
                  (if cbop \<noteq> 0 then push_bit 7 (of_bool (flag_c gb)) else push_bit 7 temp)
            in (val, gb\<lparr>flag_z := (val = 0), flag_n := False, flag_h := False, flag_c := (temp AND 0x01 \<noteq> 0)\<rparr>))
         else
           (let temp = val;
                val = push_bit 1 val OR (if cbop \<noteq> 0 then of_bool (flag_c gb) else drop_bit 7 temp)
            in (val, gb\<lparr>flag_z := (val = 0), flag_n := False, flag_h := False, flag_c := (drop_bit 7 temp \<noteq> 0)\<rparr>)))
      else if cbop = 2 then
        (if d then
           (let gb = gb\<lparr>flag_c := (val AND 0x01 \<noteq> 0)\<rparr>; val = drop_bit 1 val OR (val AND 0x80)
            in (val, gb\<lparr>flag_z := (val = 0), flag_n := False, flag_h := False\<rparr>))
         else
           (let gb = gb\<lparr>flag_c := (drop_bit 7 val \<noteq> 0)\<rparr>; val = push_bit 1 val
            in (val, gb\<lparr>flag_z := (val = 0), flag_n := False, flag_h := False\<rparr>)))
      else
        (if d then
           (let gb = gb\<lparr>flag_c := (val AND 0x01 \<noteq> 0)\<rparr>; val = drop_bit 1 val
            in (val, gb\<lparr>flag_z := (val = 0), flag_n := False, flag_h := False\<rparr>))
         else
           (let val = (drop_bit 4 val AND 0x0F) OR (push_bit 4 val AND 0xF0)
            in (val, gb\<lparr>flag_z := (val = 0), flag_n := False, flag_h := False, flag_c := False\<rparr>))))"

definition gb_cb_writeback :: "u8 \<Rightarrow> u8 \<Rightarrow> gb_s \<Rightarrow> gb_s option" where
  "gb_cb_writeback r val gb =
     (if r = 0 then Some (gb\<lparr>reg_b := val\<rparr>)
      else if r = 1 then Some (gb\<lparr>reg_c := val\<rparr>)
      else if r = 2 then Some (gb\<lparr>reg_d := val\<rparr>)
      else if r = 3 then Some (gb\<lparr>reg_e := val\<rparr>)
      else if r = 4 then Some (gb\<lparr>reg_h := val\<rparr>)
      else if r = 5 then Some (gb\<lparr>reg_l := val\<rparr>)
      else if r = 6 then gb_write gb (ucast (reg_hl gb)) val
      else Some (gb\<lparr>reg_a := val\<rparr>))"

definition gb_execute_cb :: "gb_s \<Rightarrow> gb_s option" where
  "gb_execute_cb gb =
     do { (cbop, gb) \<leftarrow> gb_fetch gb;
          let r = cbop AND 0x7;
          let b = unat (drop_bit 3 cbop AND 0x7);
          let d = (drop_bit 3 cbop AND 0x1 \<noteq> 0);
          let gb = (if cbop AND 0x0F = 0x06 \<or> cbop AND 0x0F = 0x0E
                    then gb\<lparr>div_count := div_count gb + 8\<rparr> else gb);
          val \<leftarrow> gb_cb_operand r gb;
          if drop_bit 6 cbop = 0 then
            (let (val, gb) = gb_cb_shift (drop_bit 4 cbop AND 0x3) d val gb in gb_cb_writeback r val gb)
          else if drop_bit 6 cbop = 1 then
            Some (gb\<lparr>flag_z := (drop_bit b val AND 0x1 = 0), flag_n := False, flag_h := True\<rparr>)
          else if drop_bit 6 cbop = 2 then
            gb_cb_writeback r (ucast ((ucast val :: u32) AND (push_bit b 0xFE OR drop_bit (8 - b) 0xFF))) gb
          else gb_cb_writeback r (val OR push_bit b 0x1) gb }"

section \<open>The instruction switch\<close>

text \<open>One list per eight opcodes of \<^verbatim>\<open>switch (opcode)\<close>, an entry for each \<^verbatim>\<open>case\<close>.\<close>

definition ops_00 :: "(u8 \<times> gb_op) list" where
  "ops_00 = [
    (0x00, \<lambda>gb. gb_done gb),
    (0x01, \<lambda>gb. do { (v, gb) \<leftarrow> gb_fetch gb; let gb = gb\<lparr>reg_c := v\<rparr>;
       (v, gb) \<leftarrow> gb_fetch gb; gb_done (gb\<lparr>reg_b := v\<rparr>) }),
    (0x02, \<lambda>gb. do { gb \<leftarrow> gb_write gb (ucast (reg_bc gb)) (reg_a gb); gb_done gb }),
    (0x03, \<lambda>gb. gb_done (set_bc (reg_bc gb + 1) gb)),
    (0x04, \<lambda>gb. let gb = gb\<lparr>reg_b := reg_b gb + 1\<rparr> in gb_done (gb_inc_flags (reg_b gb) gb)),
    (0x05, \<lambda>gb. let gb = gb\<lparr>reg_b := reg_b gb - 1\<rparr> in gb_done (gb_dec_flags (reg_b gb) gb)),
    (0x06, \<lambda>gb. do { (v, gb) \<leftarrow> gb_fetch gb; gb_done (gb\<lparr>reg_b := v\<rparr>) }),
    (0x07, \<lambda>gb. let gb = gb\<lparr>reg_a := push_bit 1 (reg_a gb) OR drop_bit 7 (reg_a gb),
        flag_z := False, flag_n := False, flag_h := False\<rparr>
     in gb_done (gb\<lparr>flag_c := (reg_a gb AND 0x01 \<noteq> 0)\<rparr>))]"

definition ops_08 :: "(u8 \<times> gb_op) list" where
  "ops_08 = [
    (0x08, \<lambda>gb. do { (temp, gb) \<leftarrow> gb_imm16 gb;
       gb \<leftarrow> gb_write gb (ucast temp) (lo8 (reg_sp gb));
       let temp = temp + 1;
       gb \<leftarrow> gb_write gb (ucast temp) (hi8 (reg_sp gb)); gb_done gb }),
    (0x09, \<lambda>gb. gb_done (gb_add_hl (reg_bc gb) gb)),
    (0x0A, \<lambda>gb. do { v \<leftarrow> gb_read gb (ucast (reg_bc gb)); gb_done (gb\<lparr>reg_a := v\<rparr>) }),
    (0x0B, \<lambda>gb. gb_done (set_bc (reg_bc gb - 1) gb)),
    (0x0C, \<lambda>gb. let gb = gb\<lparr>reg_c := reg_c gb + 1\<rparr> in gb_done (gb_inc_flags (reg_c gb) gb)),
    (0x0D, \<lambda>gb. let gb = gb\<lparr>reg_c := reg_c gb - 1\<rparr> in gb_done (gb_dec_flags (reg_c gb) gb)),
    (0x0E, \<lambda>gb. do { (v, gb) \<leftarrow> gb_fetch gb; gb_done (gb\<lparr>reg_c := v\<rparr>) }),
    (0x0F, \<lambda>gb. let gb = gb\<lparr>flag_c := (reg_a gb AND 0x01 \<noteq> 0)\<rparr>
     in gb_done (gb\<lparr>reg_a := drop_bit 1 (reg_a gb) OR push_bit 7 (reg_a gb),
          flag_z := False, flag_n := False, flag_h := False\<rparr>))]"

definition ops_10 :: "(u8 \<times> gb_op) list" where
  "ops_10 = [
    (0x10, \<lambda>gb. gb_done gb),
    (0x11, \<lambda>gb. do { (v, gb) \<leftarrow> gb_fetch gb; let gb = gb\<lparr>reg_e := v\<rparr>;
       (v, gb) \<leftarrow> gb_fetch gb; gb_done (gb\<lparr>reg_d := v\<rparr>) }),
    (0x12, \<lambda>gb. do { gb \<leftarrow> gb_write gb (ucast (reg_de gb)) (reg_a gb); gb_done gb }),
    (0x13, \<lambda>gb. gb_done (set_de (reg_de gb + 1) gb)),
    (0x14, \<lambda>gb. let gb = gb\<lparr>reg_d := reg_d gb + 1\<rparr> in gb_done (gb_inc_flags (reg_d gb) gb)),
    (0x15, \<lambda>gb. let gb = gb\<lparr>reg_d := reg_d gb - 1\<rparr> in gb_done (gb_dec_flags (reg_d gb) gb)),
    (0x16, \<lambda>gb. do { (v, gb) \<leftarrow> gb_fetch gb; gb_done (gb\<lparr>reg_d := v\<rparr>) }),
    (0x17, \<lambda>gb. let temp = reg_a gb; gb = gb\<lparr>reg_a := push_bit 1 (reg_a gb) OR of_bool (flag_c gb)\<rparr>
     in gb_done (gb\<lparr>flag_z := False, flag_n := False, flag_h := False,
          flag_c := (drop_bit 7 temp AND 0x01 \<noteq> 0)\<rparr>))]"

definition ops_18 :: "(u8 \<times> gb_op) list" where
  "ops_18 = [
    (0x18, \<lambda>gb. do { gb \<leftarrow> gb_jr gb; gb_done gb }),
    (0x19, \<lambda>gb. gb_done (gb_add_hl (reg_de gb) gb)),
    (0x1A, \<lambda>gb. do { v \<leftarrow> gb_read gb (ucast (reg_de gb)); gb_done (gb\<lparr>reg_a := v\<rparr>) }),
    (0x1B, \<lambda>gb. gb_done (set_de (reg_de gb - 1) gb)),
    (0x1C, \<lambda>gb. let gb = gb\<lparr>reg_e := reg_e gb + 1\<rparr> in gb_done (gb_inc_flags (reg_e gb) gb)),
    (0x1D, \<lambda>gb. let gb = gb\<lparr>reg_e := reg_e gb - 1\<rparr> in gb_done (gb_dec_flags (reg_e gb) gb)),
    (0x1E, \<lambda>gb. do { (v, gb) \<leftarrow> gb_fetch gb; gb_done (gb\<lparr>reg_e := v\<rparr>) }),
    (0x1F, \<lambda>gb. let temp = reg_a gb; gb = gb\<lparr>reg_a := drop_bit 1 (reg_a gb) OR push_bit 7 (of_bool (flag_c gb))\<rparr>
     in gb_done (gb\<lparr>flag_z := False, flag_n := False, flag_h := False, flag_c := (temp AND 0x1 \<noteq> 0)\<rparr>))]"

definition ops_20 :: "(u8 \<times> gb_op) list" where
  "ops_20 = [
    (0x20, \<lambda>gb. gb_jr_if (\<not> flag_z gb) gb),
    (0x21, \<lambda>gb. do { (v, gb) \<leftarrow> gb_fetch gb; let gb = gb\<lparr>reg_l := v\<rparr>;
       (v, gb) \<leftarrow> gb_fetch gb; gb_done (gb\<lparr>reg_h := v\<rparr>) }),
    (0x22, \<lambda>gb. do { gb \<leftarrow> gb_write gb (ucast (reg_hl gb)) (reg_a gb); gb_done (set_hl (reg_hl gb + 1) gb) }),
    (0x23, \<lambda>gb. gb_done (set_hl (reg_hl gb + 1) gb)),
    (0x24, \<lambda>gb. let gb = gb\<lparr>reg_h := reg_h gb + 1\<rparr> in gb_done (gb_inc_flags (reg_h gb) gb)),
    (0x25, \<lambda>gb. let gb = gb\<lparr>reg_h := reg_h gb - 1\<rparr> in gb_done (gb_dec_flags (reg_h gb) gb)),
    (0x26, \<lambda>gb. do { (v, gb) \<leftarrow> gb_fetch gb; gb_done (gb\<lparr>reg_h := v\<rparr>) }),
    (0x27, \<lambda>gb. gb_done (gb_daa gb))]"

definition ops_28 :: "(u8 \<times> gb_op) list" where
  "ops_28 = [
    (0x28, \<lambda>gb. gb_jr_if (flag_z gb) gb),
    (0x29, \<lambda>gb. let temp = ucast (reg_hl gb) + ucast (reg_hl gb) :: u32
     in gb_done (set_hl (ucast (temp AND 0xFFFF))
          (gb\<lparr>flag_n := False, flag_h := (temp AND 0x1000 \<noteq> 0), flag_c := (temp AND 0xFFFF0000 \<noteq> 0)\<rparr>))),
    (0x2A, \<lambda>gb. do { v \<leftarrow> gb_read gb (ucast (reg_hl gb)); gb_done ((set_hl (reg_hl gb + 1) gb)\<lparr>reg_a := v\<rparr>) }),
    (0x2B, \<lambda>gb. gb_done (set_hl (reg_hl gb - 1) gb)),
    (0x2C, \<lambda>gb. let gb = gb\<lparr>reg_l := reg_l gb + 1\<rparr> in gb_done (gb_inc_flags (reg_l gb) gb)),
    (0x2D, \<lambda>gb. let gb = gb\<lparr>reg_l := reg_l gb - 1\<rparr> in gb_done (gb_dec_flags (reg_l gb) gb)),
    (0x2E, \<lambda>gb. do { (v, gb) \<leftarrow> gb_fetch gb; gb_done (gb\<lparr>reg_l := v\<rparr>) }),
    (0x2F, \<lambda>gb. gb_done (gb\<lparr>reg_a := NOT (reg_a gb), flag_n := True, flag_h := True\<rparr>))]"

definition ops_30 :: "(u8 \<times> gb_op) list" where
  "ops_30 = [
    (0x30, \<lambda>gb. gb_jr_if (\<not> flag_c gb) gb),
    (0x31, \<lambda>gb. do { (v, gb) \<leftarrow> gb_fetch gb; let gb = gb\<lparr>reg_sp := ucast v\<rparr>;
       (v, gb) \<leftarrow> gb_fetch gb; gb_done (gb\<lparr>reg_sp := reg_sp gb OR push_bit 8 (ucast v)\<rparr>) }),
    (0x32, \<lambda>gb. do { gb \<leftarrow> gb_write gb (ucast (reg_hl gb)) (reg_a gb); gb_done (set_hl (reg_hl gb - 1) gb) }),
    (0x33, \<lambda>gb. gb_done (gb\<lparr>reg_sp := reg_sp gb + 1\<rparr>)),
    (0x34, \<lambda>gb. do { v \<leftarrow> gb_read gb (ucast (reg_hl gb)); let temp = v + 1; let gb = gb_inc_flags temp gb;
       gb \<leftarrow> gb_write gb (ucast (reg_hl gb)) temp; gb_done gb }),
    (0x35, \<lambda>gb. do { v \<leftarrow> gb_read gb (ucast (reg_hl gb)); let temp = v - 1; let gb = gb_dec_flags temp gb;
       gb \<leftarrow> gb_write gb (ucast (reg_hl gb)) temp; gb_done gb }),
    (0x36, \<lambda>gb. do { (v, gb) \<leftarrow> gb_fetch gb; gb \<leftarrow> gb_write gb (ucast (reg_hl gb)) v; gb_done gb }),
    (0x37, \<lambda>gb. gb_done (gb\<lparr>flag_n := False, flag_h := False, flag_c := True\<rparr>))]"

definition ops_38 :: "(u8 \<times> gb_op) list" where
  "ops_38 = [
    (0x38, \<lambda>gb. gb_jr_if (flag_c gb) gb),
    (0x39, \<lambda>gb. let temp = ucast (reg_hl gb) + ucast (reg_sp gb) :: u32
     in gb_done (set_hl (ucast temp)
          (gb\<lparr>flag_n := False,
              flag_h := (((ucast (reg_hl gb) AND 0xFFF) + (ucast (reg_sp gb) AND 0xFFF)) AND 0x1000 \<noteq> (0 :: u32)),
              flag_c := (temp AND 0x10000 \<noteq> 0)\<rparr>))),
    (0x3A, \<lambda>gb. do { v \<leftarrow> gb_read gb (ucast (reg_hl gb)); gb_done ((set_hl (reg_hl gb - 1) gb)\<lparr>reg_a := v\<rparr>) }),
    (0x3B, \<lambda>gb. gb_done (gb\<lparr>reg_sp := reg_sp gb - 1\<rparr>)),
    (0x3C, \<lambda>gb. let gb = gb\<lparr>reg_a := reg_a gb + 1\<rparr> in gb_done (gb_inc_flags (reg_a gb) gb)),
    (0x3D, \<lambda>gb. let gb = gb\<lparr>reg_a := reg_a gb - 1\<rparr> in gb_done (gb_dec_flags (reg_a gb) gb)),
    (0x3E, \<lambda>gb. do { (v, gb) \<leftarrow> gb_fetch gb; gb_done (gb\<lparr>reg_a := v\<rparr>) }),
    (0x3F, \<lambda>gb. gb_done (gb\<lparr>flag_n := False, flag_h := False, flag_c := \<not> flag_c gb\<rparr>))]"

definition ops_40 :: "(u8 \<times> gb_op) list" where
  "ops_40 = [
    (0x40, \<lambda>gb. gb_done gb),
    (0x41, \<lambda>gb. gb_done (gb\<lparr>reg_b := reg_c gb\<rparr>)),
    (0x42, \<lambda>gb. gb_done (gb\<lparr>reg_b := reg_d gb\<rparr>)),
    (0x43, \<lambda>gb. gb_done (gb\<lparr>reg_b := reg_e gb\<rparr>)),
    (0x44, \<lambda>gb. gb_done (gb\<lparr>reg_b := reg_h gb\<rparr>)),
    (0x45, \<lambda>gb. gb_done (gb\<lparr>reg_b := reg_l gb\<rparr>)),
    (0x46, \<lambda>gb. do { v \<leftarrow> gb_read gb (ucast (reg_hl gb)); gb_done (gb\<lparr>reg_b := v\<rparr>) }),
    (0x47, \<lambda>gb. gb_done (gb\<lparr>reg_b := reg_a gb\<rparr>))]"

definition ops_48 :: "(u8 \<times> gb_op) list" where
  "ops_48 = [
    (0x48, \<lambda>gb. gb_done (gb\<lparr>reg_c := reg_b gb\<rparr>)),
    (0x49, \<lambda>gb. gb_done gb),
    (0x4A, \<lambda>gb. gb_done (gb\<lparr>reg_c := reg_d gb\<rparr>)),
    (0x4B, \<lambda>gb. gb_done (gb\<lparr>reg_c := reg_e gb\<rparr>)),
    (0x4C, \<lambda>gb. gb_done (gb\<lparr>reg_c := reg_h gb\<rparr>)),
    (0x4D, \<lambda>gb. gb_done (gb\<lparr>reg_c := reg_l gb\<rparr>)),
    (0x4E, \<lambda>gb. do { v \<leftarrow> gb_read gb (ucast (reg_hl gb)); gb_done (gb\<lparr>reg_c := v\<rparr>) }),
    (0x4F, \<lambda>gb. gb_done (gb\<lparr>reg_c := reg_a gb\<rparr>))]"

definition ops_50 :: "(u8 \<times> gb_op) list" where
  "ops_50 = [
    (0x50, \<lambda>gb. gb_done (gb\<lparr>reg_d := reg_b gb\<rparr>)),
    (0x51, \<lambda>gb. gb_done (gb\<lparr>reg_d := reg_c gb\<rparr>)),
    (0x52, \<lambda>gb. gb_done gb),
    (0x53, \<lambda>gb. gb_done (gb\<lparr>reg_d := reg_e gb\<rparr>)),
    (0x54, \<lambda>gb. gb_done (gb\<lparr>reg_d := reg_h gb\<rparr>)),
    (0x55, \<lambda>gb. gb_done (gb\<lparr>reg_d := reg_l gb\<rparr>)),
    (0x56, \<lambda>gb. do { v \<leftarrow> gb_read gb (ucast (reg_hl gb)); gb_done (gb\<lparr>reg_d := v\<rparr>) }),
    (0x57, \<lambda>gb. gb_done (gb\<lparr>reg_d := reg_a gb\<rparr>))]"

definition ops_58 :: "(u8 \<times> gb_op) list" where
  "ops_58 = [
    (0x58, \<lambda>gb. gb_done (gb\<lparr>reg_e := reg_b gb\<rparr>)),
    (0x59, \<lambda>gb. gb_done (gb\<lparr>reg_e := reg_c gb\<rparr>)),
    (0x5A, \<lambda>gb. gb_done (gb\<lparr>reg_e := reg_d gb\<rparr>)),
    (0x5B, \<lambda>gb. gb_done gb),
    (0x5C, \<lambda>gb. gb_done (gb\<lparr>reg_e := reg_h gb\<rparr>)),
    (0x5D, \<lambda>gb. gb_done (gb\<lparr>reg_e := reg_l gb\<rparr>)),
    (0x5E, \<lambda>gb. do { v \<leftarrow> gb_read gb (ucast (reg_hl gb)); gb_done (gb\<lparr>reg_e := v\<rparr>) }),
    (0x5F, \<lambda>gb. gb_done (gb\<lparr>reg_e := reg_a gb\<rparr>))]"

definition ops_60 :: "(u8 \<times> gb_op) list" where
  "ops_60 = [
    (0x60, \<lambda>gb. gb_done (gb\<lparr>reg_h := reg_b gb\<rparr>)),
    (0x61, \<lambda>gb. gb_done (gb\<lparr>reg_h := reg_c gb\<rparr>)),
    (0x62, \<lambda>gb. gb_done (gb\<lparr>reg_h := reg_d gb\<rparr>)),
    (0x63, \<lambda>gb. gb_done (gb\<lparr>reg_h := reg_e gb\<rparr>)),
    (0x64, \<lambda>gb. gb_done gb),
    (0x65, \<lambda>gb. gb_done (gb\<lparr>reg_h := reg_l gb\<rparr>)),
    (0x66, \<lambda>gb. do { v \<leftarrow> gb_read gb (ucast (reg_hl gb)); gb_done (gb\<lparr>reg_h := v\<rparr>) }),
    (0x67, \<lambda>gb. gb_done (gb\<lparr>reg_h := reg_a gb\<rparr>))]"

definition ops_68 :: "(u8 \<times> gb_op) list" where
  "ops_68 = [
    (0x68, \<lambda>gb. gb_done (gb\<lparr>reg_l := reg_b gb\<rparr>)),
    (0x69, \<lambda>gb. gb_done (gb\<lparr>reg_l := reg_c gb\<rparr>)),
    (0x6A, \<lambda>gb. gb_done (gb\<lparr>reg_l := reg_d gb\<rparr>)),
    (0x6B, \<lambda>gb. gb_done (gb\<lparr>reg_l := reg_e gb\<rparr>)),
    (0x6C, \<lambda>gb. gb_done (gb\<lparr>reg_l := reg_h gb\<rparr>)),
    (0x6D, \<lambda>gb. gb_done gb),
    (0x6E, \<lambda>gb. do { v \<leftarrow> gb_read gb (ucast (reg_hl gb)); gb_done (gb\<lparr>reg_l := v\<rparr>) }),
    (0x6F, \<lambda>gb. gb_done (gb\<lparr>reg_l := reg_a gb\<rparr>))]"

definition ops_70 :: "(u8 \<times> gb_op) list" where
  "ops_70 = [
    (0x70, \<lambda>gb. do { gb \<leftarrow> gb_write gb (ucast (reg_hl gb)) (reg_b gb); gb_done gb }),
    (0x71, \<lambda>gb. do { gb \<leftarrow> gb_write gb (ucast (reg_hl gb)) (reg_c gb); gb_done gb }),
    (0x72, \<lambda>gb. do { gb \<leftarrow> gb_write gb (ucast (reg_hl gb)) (reg_d gb); gb_done gb }),
    (0x73, \<lambda>gb. do { gb \<leftarrow> gb_write gb (ucast (reg_hl gb)) (reg_e gb); gb_done gb }),
    (0x74, \<lambda>gb. do { gb \<leftarrow> gb_write gb (ucast (reg_hl gb)) (reg_h gb); gb_done gb }),
    (0x75, \<lambda>gb. do { gb \<leftarrow> gb_write gb (ucast (reg_hl gb)) (reg_l gb); gb_done gb }),
    (0x76, \<lambda>gb. gb_done (gb\<lparr>gb_halt := True\<rparr>)),
    (0x77, \<lambda>gb. do { gb \<leftarrow> gb_write gb (ucast (reg_hl gb)) (reg_a gb); gb_done gb })]"

definition ops_78 :: "(u8 \<times> gb_op) list" where
  "ops_78 = [
    (0x78, \<lambda>gb. gb_done (gb\<lparr>reg_a := reg_b gb\<rparr>)),
    (0x79, \<lambda>gb. gb_done (gb\<lparr>reg_a := reg_c gb\<rparr>)),
    (0x7A, \<lambda>gb. gb_done (gb\<lparr>reg_a := reg_d gb\<rparr>)),
    (0x7B, \<lambda>gb. gb_done (gb\<lparr>reg_a := reg_e gb\<rparr>)),
    (0x7C, \<lambda>gb. gb_done (gb\<lparr>reg_a := reg_h gb\<rparr>)),
    (0x7D, \<lambda>gb. gb_done (gb\<lparr>reg_a := reg_l gb\<rparr>)),
    (0x7E, \<lambda>gb. do { v \<leftarrow> gb_read gb (ucast (reg_hl gb)); gb_done (gb\<lparr>reg_a := v\<rparr>) }),
    (0x7F, \<lambda>gb. gb_done gb)]"

definition ops_80 :: "(u8 \<times> gb_op) list" where
  "ops_80 = [
    (0x80, \<lambda>gb. gb_done (gb_add (reg_b gb) gb)),
    (0x81, \<lambda>gb. gb_done (gb_add (reg_c gb) gb)),
    (0x82, \<lambda>gb. gb_done (gb_add (reg_d gb) gb)),
    (0x83, \<lambda>gb. gb_done (gb_add (reg_e gb) gb)),
    (0x84, \<lambda>gb. gb_done (gb_add (reg_h gb) gb)),
    (0x85, \<lambda>gb. gb_done (gb_add (reg_l gb) gb)),
    (0x86, \<lambda>gb. do { v \<leftarrow> gb_read gb (ucast (reg_hl gb)); gb_done (gb_add v gb) }),
    (0x87, \<lambda>gb. let temp = ucast (reg_a gb) + ucast (reg_a gb) :: u16
     in gb_done (gb\<lparr>flag_z := (temp AND 0xFF = 0), flag_n := False, flag_h := (temp AND 0x10 \<noteq> 0),
          flag_c := (temp AND 0xFF00 \<noteq> 0), reg_a := ucast (temp AND 0xFF)\<rparr>))]"

definition ops_88 :: "(u8 \<times> gb_op) list" where
  "ops_88 = [
    (0x88, \<lambda>gb. gb_done (gb_adc (reg_b gb) gb)),
    (0x89, \<lambda>gb. gb_done (gb_adc (reg_c gb) gb)),
    (0x8A, \<lambda>gb. gb_done (gb_adc (reg_d gb) gb)),
    (0x8B, \<lambda>gb. gb_done (gb_adc (reg_e gb) gb)),
    (0x8C, \<lambda>gb. gb_done (gb_adc (reg_h gb) gb)),
    (0x8D, \<lambda>gb. gb_done (gb_adc (reg_l gb) gb)),
    (0x8E, \<lambda>gb. do { v \<leftarrow> gb_read gb (ucast (reg_hl gb)); gb_done (gb_adc v gb) }),
    (0x8F, \<lambda>gb. gb_done (gb_adc (reg_a gb) gb))]"

definition ops_90 :: "(u8 \<times> gb_op) list" where
  "ops_90 = [
    (0x90, \<lambda>gb. gb_done (gb_sub (reg_b gb) gb)),
    (0x91, \<lambda>gb. gb_done (gb_sub (reg_c gb) gb)),
    (0x92, \<lambda>gb. gb_done (gb_sub (reg_d gb) gb)),
    (0x93, \<lambda>gb. gb_done (gb_sub (reg_e gb) gb)),
    (0x94, \<lambda>gb. gb_done (gb_sub (reg_h gb) gb)),
    (0x95, \<lambda>gb. gb_done (gb_sub (reg_l gb) gb)),
    (0x96, \<lambda>gb. do { v \<leftarrow> gb_read gb (ucast (reg_hl gb)); gb_done (gb_sub v gb) }),
    (0x97, \<lambda>gb. gb_done (gb\<lparr>reg_a := 0, flag_z := True, flag_n := True, flag_h := False, flag_c := False\<rparr>))]"

definition ops_98 :: "(u8 \<times> gb_op) list" where
  "ops_98 = [
    (0x98, \<lambda>gb. gb_done (gb_sbc (reg_b gb) gb)),
    (0x99, \<lambda>gb. gb_done (gb_sbc (reg_c gb) gb)),
    (0x9A, \<lambda>gb. gb_done (gb_sbc (reg_d gb) gb)),
    (0x9B, \<lambda>gb. gb_done (gb_sbc (reg_e gb) gb)),
    (0x9C, \<lambda>gb. gb_done (gb_sbc (reg_h gb) gb)),
    (0x9D, \<lambda>gb. gb_done (gb_sbc (reg_l gb) gb)),
    (0x9E, \<lambda>gb. do { v \<leftarrow> gb_read gb (ucast (reg_hl gb)); gb_done (gb_sbc v gb) }),
    (0x9F, \<lambda>gb. gb_done (gb\<lparr>reg_a := (if flag_c gb then 0xFF else 0x00), flag_z := \<not> flag_c gb, flag_n := True,
          flag_h := flag_c gb\<rparr>))]"

definition ops_A0 :: "(u8 \<times> gb_op) list" where
  "ops_A0 = [
    (0xA0, \<lambda>gb. gb_done (gb_logic True (reg_a gb AND (reg_b gb)) gb)),
    (0xA1, \<lambda>gb. gb_done (gb_logic True (reg_a gb AND (reg_c gb)) gb)),
    (0xA2, \<lambda>gb. gb_done (gb_logic True (reg_a gb AND (reg_d gb)) gb)),
    (0xA3, \<lambda>gb. gb_done (gb_logic True (reg_a gb AND (reg_e gb)) gb)),
    (0xA4, \<lambda>gb. gb_done (gb_logic True (reg_a gb AND (reg_h gb)) gb)),
    (0xA5, \<lambda>gb. gb_done (gb_logic True (reg_a gb AND (reg_l gb)) gb)),
    (0xA6, \<lambda>gb. do { v \<leftarrow> gb_read gb (ucast (reg_hl gb)); gb_done (gb_logic True (reg_a gb AND v) gb) }),
    (0xA7, \<lambda>gb. gb_done (gb\<lparr>flag_z := (reg_a gb = 0), flag_n := False, flag_h := True, flag_c := False\<rparr>))]"

definition ops_A8 :: "(u8 \<times> gb_op) list" where
  "ops_A8 = [
    (0xA8, \<lambda>gb. gb_done (gb_logic False (reg_a gb XOR (reg_b gb)) gb)),
    (0xA9, \<lambda>gb. gb_done (gb_logic False (reg_a gb XOR (reg_c gb)) gb)),
    (0xAA, \<lambda>gb. gb_done (gb_logic False (reg_a gb XOR (reg_d gb)) gb)),
    (0xAB, \<lambda>gb. gb_done (gb_logic False (reg_a gb XOR (reg_e gb)) gb)),
    (0xAC, \<lambda>gb. gb_done (gb_logic False (reg_a gb XOR (reg_h gb)) gb)),
    (0xAD, \<lambda>gb. gb_done (gb_logic False (reg_a gb XOR (reg_l gb)) gb)),
    (0xAE, \<lambda>gb. do { v \<leftarrow> gb_read gb (ucast (reg_hl gb)); gb_done (gb_logic False (reg_a gb XOR v) gb) }),
    (0xAF, \<lambda>gb. gb_done (gb\<lparr>reg_a := 0, flag_z := True, flag_n := False, flag_h := False, flag_c := False\<rparr>))]"

definition ops_B0 :: "(u8 \<times> gb_op) list" where
  "ops_B0 = [
    (0xB0, \<lambda>gb. gb_done (gb_logic False (reg_a gb OR (reg_b gb)) gb)),
    (0xB1, \<lambda>gb. gb_done (gb_logic False (reg_a gb OR (reg_c gb)) gb)),
    (0xB2, \<lambda>gb. gb_done (gb_logic False (reg_a gb OR (reg_d gb)) gb)),
    (0xB3, \<lambda>gb. gb_done (gb_logic False (reg_a gb OR (reg_e gb)) gb)),
    (0xB4, \<lambda>gb. gb_done (gb_logic False (reg_a gb OR (reg_h gb)) gb)),
    (0xB5, \<lambda>gb. gb_done (gb_logic False (reg_a gb OR (reg_l gb)) gb)),
    (0xB6, \<lambda>gb. do { v \<leftarrow> gb_read gb (ucast (reg_hl gb)); gb_done (gb_logic False (reg_a gb OR v) gb) }),
    (0xB7, \<lambda>gb. gb_done (gb\<lparr>flag_z := (reg_a gb = 0), flag_n := False, flag_h := False, flag_c := False\<rparr>))]"

definition ops_B8 :: "(u8 \<times> gb_op) list" where
  "ops_B8 = [
    (0xB8, \<lambda>gb. gb_done (gb_cp (reg_b gb) gb)),
    (0xB9, \<lambda>gb. gb_done (gb_cp (reg_c gb) gb)),
    (0xBA, \<lambda>gb. gb_done (gb_cp (reg_d gb) gb)),
    (0xBB, \<lambda>gb. gb_done (gb_cp (reg_e gb) gb)),
    (0xBC, \<lambda>gb. gb_done (gb_cp (reg_h gb) gb)),
    (0xBD, \<lambda>gb. gb_done (gb_cp (reg_l gb) gb)),
    (0xBE, \<lambda>gb. do { v \<leftarrow> gb_read gb (ucast (reg_hl gb)); gb_done (gb_cp v gb) }),
    (0xBF, \<lambda>gb. gb_done (gb\<lparr>flag_z := True, flag_n := True, flag_h := False, flag_c := False\<rparr>))]"

definition ops_C0 :: "(u8 \<times> gb_op) list" where
  "ops_C0 = [
    (0xC0, \<lambda>gb. gb_ret_if (\<not> flag_z gb) gb),
    (0xC1, \<lambda>gb. do { (v, gb) \<leftarrow> gb_pop gb; let gb = gb\<lparr>reg_c := v\<rparr>;
       (v, gb) \<leftarrow> gb_pop gb; gb_done (gb\<lparr>reg_b := v\<rparr>) }),
    (0xC2, \<lambda>gb. gb_jp_if (\<not> flag_z gb) gb),
    (0xC3, \<lambda>gb. do { (lo, gb) \<leftarrow> gb_fetch gb; hi \<leftarrow> gb_read gb (ucast (reg_pc gb));
       gb_done (gb\<lparr>reg_pc := pair16 hi lo\<rparr>) }),
    (0xC4, \<lambda>gb. gb_call_if (\<not> flag_z gb) gb),
    (0xC5, \<lambda>gb. do { gb \<leftarrow> gb_push (reg_b gb) gb; gb \<leftarrow> gb_push (reg_c gb) gb; gb_done gb }),
    (0xC6, \<lambda>gb. do { (v, gb) \<leftarrow> gb_fetch gb;
       let calc = (ucast (reg_a gb) + ucast v :: u16);
       gb_done (gb\<lparr>flag_z := (ucast calc = (0 :: u8)),
          flag_h := ((ucast (reg_a gb) AND 0xF) + (ucast v AND 0xF) > (0x0F :: u32)),
          flag_c := (calc > 0xFF), flag_n := False, reg_a := ucast calc\<rparr>) }),
    (0xC7, \<lambda>gb. gb_rst 0x0000 gb)]"

definition ops_C8 :: "(u8 \<times> gb_op) list" where
  "ops_C8 = [
    (0xC8, \<lambda>gb. gb_ret_if (flag_z gb) gb),
    (0xC9, \<lambda>gb. do { gb \<leftarrow> gb_ret gb; gb_done gb }),
    (0xCA, \<lambda>gb. gb_jp_if (flag_z gb) gb),
    (0xCB, \<lambda>gb. do { gb \<leftarrow> gb_execute_cb gb; gb_done gb }),
    (0xCC, \<lambda>gb. gb_call_if (flag_z gb) gb),
    (0xCD, \<lambda>gb. do { gb \<leftarrow> gb_call gb; gb_done gb }),
    (0xCE, \<lambda>gb. do { (v, gb) \<leftarrow> gb_fetch gb;
       let a = reg_a gb; let carry = of_bool (flag_c gb);
       let gb = gb\<lparr>reg_a := a + v + of_bool (flag_c gb)\<rparr>;
       gb_done (gb\<lparr>flag_z := (reg_a gb = 0),
          flag_h := ((ucast a AND 0xF) + (ucast v AND 0xF) + carry > (0x0F :: u32)),
          flag_c := (ucast a + ucast v + carry > (0xFF :: u32)), flag_n := False\<rparr>) }),
    (0xCF, \<lambda>gb. gb_rst 0x0008 gb)]"

definition ops_D0 :: "(u8 \<times> gb_op) list" where
  "ops_D0 = [
    (0xD0, \<lambda>gb. gb_ret_if (\<not> flag_c gb) gb),
    (0xD1, \<lambda>gb. do { (v, gb) \<leftarrow> gb_pop gb; let gb = gb\<lparr>reg_e := v\<rparr>;
       (v, gb) \<leftarrow> gb_pop gb; gb_done (gb\<lparr>reg_d := v\<rparr>) }),
    (0xD2, \<lambda>gb. gb_jp_if (\<not> flag_c gb) gb),
    (0xD4, \<lambda>gb. gb_call_if (\<not> flag_c gb) gb),
    (0xD5, \<lambda>gb. do { gb \<leftarrow> gb_push (reg_d gb) gb; gb \<leftarrow> gb_push (reg_e gb) gb; gb_done gb }),
    (0xD6, \<lambda>gb. do { (v, gb) \<leftarrow> gb_fetch gb; gb_done (gb_sub v gb) }),
    (0xD7, \<lambda>gb. gb_rst 0x0010 gb)]"

definition ops_D8 :: "(u8 \<times> gb_op) list" where
  "ops_D8 = [
    (0xD8, \<lambda>gb. gb_ret_if (flag_c gb) gb),
    (0xD9, \<lambda>gb. do { gb \<leftarrow> gb_ret gb; gb_done (gb\<lparr>gb_ime := True\<rparr>) }),
    (0xDA, \<lambda>gb. gb_jp_if (flag_c gb) gb),
    (0xDC, \<lambda>gb. gb_call_if (flag_c gb) gb),
    (0xDE, \<lambda>gb. do { (v, gb) \<leftarrow> gb_fetch gb; gb_done (gb_sbc v gb) }),
    (0xDF, \<lambda>gb. gb_rst 0x0018 gb)]"

definition ops_E0 :: "(u8 \<times> gb_op) list" where
  "ops_E0 = [
    (0xE0, \<lambda>gb. do { (v, gb) \<leftarrow> gb_fetch gb; gb \<leftarrow> gb_write gb (0xFF00 OR ucast v) (reg_a gb); gb_done gb }),
    (0xE1, \<lambda>gb. do { (v, gb) \<leftarrow> gb_pop gb; let gb = gb\<lparr>reg_l := v\<rparr>;
       (v, gb) \<leftarrow> gb_pop gb; gb_done (gb\<lparr>reg_h := v\<rparr>) }),
    (0xE2, \<lambda>gb. do { gb \<leftarrow> gb_write gb (0xFF00 OR ucast (reg_c gb)) (reg_a gb); gb_done gb }),
    (0xE5, \<lambda>gb. do { gb \<leftarrow> gb_push (reg_h gb) gb; gb \<leftarrow> gb_push (reg_l gb) gb; gb_done gb }),
    (0xE6, \<lambda>gb. do { (v, gb) \<leftarrow> gb_fetch gb; gb_done (gb_logic True (reg_a gb AND v) gb) }),
    (0xE7, \<lambda>gb. gb_rst 0x0020 gb)]"

definition ops_E8 :: "(u8 \<times> gb_op) list" where
  "ops_E8 = [
    (0xE8, \<lambda>gb. do { (offset, gb) \<leftarrow> gb_fetch gb; let gb = gb_sp_offset_flags offset gb;
       gb_done (gb\<lparr>reg_sp := reg_sp gb + scast offset\<rparr>) }),
    (0xE9, \<lambda>gb. gb_done (gb\<lparr>reg_pc := reg_hl gb\<rparr>)),
    (0xEA, \<lambda>gb. do { (addr, gb) \<leftarrow> gb_imm16 gb; gb \<leftarrow> gb_write gb (ucast addr) (reg_a gb); gb_done gb }),
    (0xEE, \<lambda>gb. do { (v, gb) \<leftarrow> gb_fetch gb; gb_done (gb_logic False (reg_a gb XOR v) gb) }),
    (0xEF, \<lambda>gb. gb_rst 0x0028 gb)]"

definition ops_F0 :: "(u8 \<times> gb_op) list" where
  "ops_F0 = [
    (0xF0, \<lambda>gb. do { (v, gb) \<leftarrow> gb_fetch gb; v \<leftarrow> gb_read gb (0xFF00 OR ucast v); gb_done (gb\<lparr>reg_a := v\<rparr>) }),
    (0xF1, \<lambda>gb. do { (v, gb) \<leftarrow> gb_pop gb;
       let gb = gb\<lparr>flag_z := (drop_bit 7 v AND 1 \<noteq> 0), flag_n := (drop_bit 6 v AND 1 \<noteq> 0),
          flag_h := (drop_bit 5 v AND 1 \<noteq> 0), flag_c := (drop_bit 4 v AND 1 \<noteq> 0)\<rparr>;
       (v, gb) \<leftarrow> gb_pop gb; gb_done (gb\<lparr>reg_a := v\<rparr>) }),
    (0xF2, \<lambda>gb. do { v \<leftarrow> gb_read gb (0xFF00 OR ucast (reg_c gb)); gb_done (gb\<lparr>reg_a := v\<rparr>) }),
    (0xF3, \<lambda>gb. gb_done (gb\<lparr>gb_ime := False\<rparr>)),
    (0xF5, \<lambda>gb. do { gb \<leftarrow> gb_push (reg_a gb) gb;
       gb \<leftarrow> gb_push (push_bit 7 (of_bool (flag_z gb)) OR push_bit 6 (of_bool (flag_n gb)) OR
          push_bit 5 (of_bool (flag_h gb)) OR push_bit 4 (of_bool (flag_c gb))) gb; gb_done gb }),
    (0xF6, \<lambda>gb. do { (v, gb) \<leftarrow> gb_fetch gb; gb_done (gb_logic False (reg_a gb OR v) gb) }),
    (0xF7, \<lambda>gb. gb_rst 0x0030 gb)]"

definition ops_F8 :: "(u8 \<times> gb_op) list" where
  "ops_F8 = [
    (0xF8, \<lambda>gb. do { (offset, gb) \<leftarrow> gb_fetch gb; let gb = set_hl (reg_sp gb + scast offset) gb;
       gb_done (gb_sp_offset_flags offset gb) }),
    (0xF9, \<lambda>gb. gb_done (gb\<lparr>reg_sp := reg_hl gb\<rparr>)),
    (0xFA, \<lambda>gb. do { (addr, gb) \<leftarrow> gb_imm16 gb; v \<leftarrow> gb_read gb (ucast addr); gb_done (gb\<lparr>reg_a := v\<rparr>) }),
    (0xFB, \<lambda>gb. gb_done (gb\<lparr>gb_ime := True\<rparr>)),
    (0xFE, \<lambda>gb. do { (v, gb) \<leftarrow> gb_fetch gb; gb_done (gb_cp v gb) }),
    (0xFF, \<lambda>gb. gb_rst 0x0038 gb)]"

lemmas ops_defs = ops_00_def ops_08_def ops_10_def ops_18_def ops_20_def ops_28_def ops_30_def ops_38_def ops_40_def ops_48_def ops_50_def ops_58_def ops_60_def ops_68_def ops_70_def ops_78_def ops_80_def ops_88_def ops_90_def ops_98_def ops_A0_def ops_A8_def ops_B0_def ops_B8_def ops_C0_def ops_C8_def ops_D0_def ops_D8_def ops_E0_def ops_E8_def ops_F0_def ops_F8_def

text \<open>The switch; \<^verbatim>\<open>default\<close> calls \<^verbatim>\<open>gb_error\<close>, which does nothing.\<close>

definition gb_ops :: "(u8 \<times> gb_op) list" where
  "gb_ops = ops_00 @ ops_08 @ ops_10 @ ops_18 @ ops_20 @ ops_28 @ ops_30 @ ops_38 @
    ops_40 @ ops_48 @ ops_50 @ ops_58 @ ops_60 @ ops_68 @ ops_70 @ ops_78 @
    ops_80 @ ops_88 @ ops_90 @ ops_98 @ ops_A0 @ ops_A8 @ ops_B0 @ ops_B8 @
    ops_C0 @ ops_C8 @ ops_D0 @ ops_D8 @ ops_E0 @ ops_E8 @ ops_F0 @ ops_F8"

definition gb_switch :: "u8 \<Rightarrow> gb_op" where
  "gb_switch opcode gb = (case map_of gb_ops opcode of Some f \<Rightarrow> f gb | None \<Rightarrow> gb_done gb)"

end
