(* ===== verification/Gb_Step.thy ===== *)
theory Gb_Step
  imports Gb_Cpu
begin

text \<open>
  A step of the Game Boy emulator around the instruction switch (\<^verbatim>\<open>__gb_step_cpu\<close>): interrupts,
  cycle counts, divider, serial port, timer and display; \<^verbatim>\<open>gb_run_frame\<close>, \<^verbatim>\<open>gb_init_serial\<close>,
  \<^verbatim>\<open>gb_reset\<close>, \<^verbatim>\<open>gb_init\<close> of \<^verbatim>\<open>src/src/gameboy/cpu.c\<close>; and the save size, the title and the keys of
  \<^verbatim>\<open>src/src/gameboy/gameboy.c\<close>.
\<close>

section \<open>A step\<close>

definition op_cycles :: "u8 list" where
  "op_cycles = [
     4, 12, 8, 8, 4, 4, 8, 4, 20, 8, 8, 8, 4, 4, 8, 4,
     4, 12, 8, 8, 4, 4, 8, 4, 12, 8, 8, 8, 4, 4, 8, 4,
     8, 12, 8, 8, 4, 4, 8, 4, 8, 8, 8, 8, 4, 4, 8, 4,
     8, 12, 8, 8, 12, 12, 12, 4, 8, 8, 8, 8, 4, 4, 8, 4,
     4, 4, 4, 4, 4, 4, 8, 4, 4, 4, 4, 4, 4, 4, 8, 4,
     4, 4, 4, 4, 4, 4, 8, 4, 4, 4, 4, 4, 4, 4, 8, 4,
     4, 4, 4, 4, 4, 4, 8, 4, 4, 4, 4, 4, 4, 4, 8, 4,
     8, 8, 8, 8, 8, 8, 4, 8, 4, 4, 4, 4, 4, 4, 8, 4,
     4, 4, 4, 4, 4, 4, 8, 4, 4, 4, 4, 4, 4, 4, 8, 4,
     4, 4, 4, 4, 4, 4, 8, 4, 4, 4, 4, 4, 4, 4, 8, 4,
     4, 4, 4, 4, 4, 4, 8, 4, 4, 4, 4, 4, 4, 4, 8, 4,
     4, 4, 4, 4, 4, 4, 8, 4, 4, 4, 4, 4, 4, 4, 8, 4,
     8, 12, 12, 16, 12, 16, 8, 16, 8, 16, 12, 8, 12, 24, 8, 16,
     8, 12, 12, 0, 12, 16, 8, 16, 8, 16, 12, 0, 12, 0, 8, 16,
     12, 12, 8, 0, 0, 16, 8, 16, 16, 4, 16, 0, 0, 0, 8, 16,
     12, 12, 8, 4, 0, 16, 8, 16, 12, 8, 16, 4, 0, 0, 8, 16]"

text \<open>The vector of the pending interrupt of the highest priority.\<close>

definition gb_vector :: "gb_s \<Rightarrow> gb_s" where
  "gb_vector gb =
     (let p = IF gb AND IE gb in
      if p AND 0x01 \<noteq> 0 then gb\<lparr>reg_pc := 0x0040, IF := IF gb XOR 0x01\<rparr>
      else if p AND 0x02 \<noteq> 0 then gb\<lparr>reg_pc := 0x0048, IF := IF gb XOR 0x02\<rparr>
      else if p AND 0x04 \<noteq> 0 then gb\<lparr>reg_pc := 0x0050, IF := IF gb XOR 0x04\<rparr>
      else if p AND 0x08 \<noteq> 0 then gb\<lparr>reg_pc := 0x0058, IF := IF gb XOR 0x08\<rparr>
      else if p AND 0x10 \<noteq> 0 then gb\<lparr>reg_pc := 0x0060, IF := IF gb XOR 0x10\<rparr>
      else gb)"

definition gb_interrupts :: "gb_s \<Rightarrow> gb_s option" where
  "gb_interrupts gb =
     (if (gb_ime gb \<or> gb_halt gb) \<and> IF gb AND IE gb AND 0x1F \<noteq> 0 then
        (let gb = gb\<lparr>gb_halt := False\<rparr> in
         if gb_ime gb then do { gb \<leftarrow> gb_push_pc (gb\<lparr>gb_ime := False\<rparr>); Some (gb_vector gb) }
         else Some gb)
      else Some gb)"

definition gb_div :: "u8 \<Rightarrow> gb_s \<Rightarrow> gb_s" where
  "gb_div inst_cycles gb =
     (let gb = gb\<lparr>div_count := div_count gb + ucast inst_cycles\<rparr> in
      if div_count gb \<ge> 256 then gb\<lparr>DIV := DIV gb + 1, div_count := div_count gb - 256\<rparr> else gb)"

definition gb_serial :: "u8 \<Rightarrow> gb_s \<Rightarrow> gb_s" where
  "gb_serial inst_cycles gb =
     (if SC gb AND 0x81 = 0x81 then
        (let gb = gb\<lparr>serial_count := serial_count gb + ucast inst_cycles\<rparr> in
         if serial_count gb \<ge> 4096 then
           (let gb = gb\<lparr>SB := (case gb_serial_transfer gb of None \<Rightarrow> 0xFF | Some f \<Rightarrow> f (SB gb))\<rparr>
            in gb\<lparr>SC := SC gb AND 0x01, IF := IF gb OR 0x08, serial_count := serial_count gb - 4096\<rparr>)
         else gb)
      else gb)"

definition TAC_CYCLES :: "u32 list" where
  "TAC_CYCLES = [1024, 16, 64, 256]"

definition gb_timer :: "u8 \<Rightarrow> gb_s \<Rightarrow> gb_s option" where
  "gb_timer inst_cycles gb =
     (if tac_enable gb then
        do { let gb = gb\<lparr>tima_count := tima_count gb + ucast inst_cycles\<rparr>;
             period \<leftarrow> rd TAC_CYCLES (tac_rate gb);
             if tima_count gb \<ge> period then
               do { let gb = gb\<lparr>tima_count := tima_count gb - period, TIMA := TIMA gb + 1\<rparr>;
                    Some (if TIMA gb = 0 then gb\<lparr>IF := IF gb OR 0x04, TIMA := TMA gb\<rparr> else gb) }
             else Some gb }
      else Some gb)"

text \<open>A new line of the display (\<^verbatim>\<open>lcd_count > LCD_LINE_CYCLES\<close>), and its mode changes.\<close>

definition gb_lyc :: "gb_s \<Rightarrow> gb_s" where
  "gb_lyc gb =
     (if LY gb = LYC gb then
        (let gb = gb\<lparr>STAT := STAT gb OR 0x04\<rparr> in
         if STAT gb AND 0x40 \<noteq> 0 then gb\<lparr>IF := IF gb OR 0x02\<rparr> else gb)
      else gb\<lparr>STAT := STAT gb AND 0xFB\<rparr>)"

definition gb_vblank :: "gb_s \<Rightarrow> gb_s" where
  "gb_vblank gb =
     (let gb = gb\<lparr>lcd_mode := LCD_VBLANK, gb_frame := True, IF := IF gb OR 0x01\<rparr>;
          gb = (if STAT gb AND 0x10 \<noteq> 0 then gb\<lparr>IF := IF gb OR 0x02\<rparr> else gb);
          gb = (if frame_skip gb then gb\<lparr>frame_skip_count := \<not> frame_skip_count gb\<rparr> else gb)
      in if interlace gb \<and> (\<not> frame_skip gb \<or> frame_skip_count gb)
         then gb\<lparr>interlace_count := \<not> interlace_count gb\<rparr> else gb)"

definition gb_hblank :: "gb_s \<Rightarrow> gb_s" where
  "gb_hblank gb =
     (let gb = (if LY gb = 0 then gb\<lparr>display_WY := WY gb, window_clear := 0\<rparr> else gb);
          gb = gb\<lparr>lcd_mode := LCD_HBLANK\<rparr>
      in if STAT gb AND 0x08 \<noteq> 0 then gb\<lparr>IF := IF gb OR 0x02\<rparr> else gb)"

definition gb_next_line :: "gb_s \<Rightarrow> gb_s" where
  "gb_next_line gb =
     (let gb = gb\<lparr>lcd_count := lcd_count gb - 456\<rparr>;
          gb = gb_lyc gb;
          gb = gb\<lparr>LY := ucast ((ucast (LY gb) + 1 :: u16) mod 154)\<rparr>
      in if LY gb = 144 then gb_vblank gb
         else if LY gb < 144 then gb_hblank gb
         else gb)"

definition gb_lcd :: "u8 \<Rightarrow> gb_s \<Rightarrow> gb_s option" where
  "gb_lcd inst_cycles gb =
     (if LCDC gb AND 0x80 = 0 then Some gb
      else
        (let gb = gb\<lparr>lcd_count := lcd_count gb + ucast inst_cycles\<rparr> in
         if lcd_count gb > 456 then Some (gb_next_line gb)
         else if lcd_mode gb = LCD_HBLANK \<and> lcd_count gb \<ge> 204 then
           (let gb = gb\<lparr>lcd_mode := LCD_SEARCH_OAM\<rparr>
            in Some (if STAT gb AND 0x20 \<noteq> 0 then gb\<lparr>IF := IF gb OR 0x02\<rparr> else gb))
         else if lcd_mode gb = LCD_SEARCH_OAM \<and> lcd_count gb \<ge> 284 then
           gb_draw_line (gb\<lparr>lcd_mode := LCD_TRANSFER\<rparr>)
         else Some gb))"

definition gb_step_cpu :: "gb_s \<Rightarrow> gb_s option" where
  "gb_step_cpu gb =
     do { gb \<leftarrow> gb_interrupts gb;
          (opcode, gb) \<leftarrow> (if gb_halt gb then Some (0x00, gb) else gb_fetch gb);
          inst_cycles \<leftarrow> rd op_cycles (unat opcode);
          (gb, extra) \<leftarrow> gb_switch opcode gb;
          let inst_cycles = inst_cycles + extra;
          let gb = gb_div inst_cycles gb;
          let gb = gb_serial inst_cycles gb;
          gb \<leftarrow> gb_timer inst_cycles gb;
          gb_lcd inst_cycles gb }"

text \<open>\<^verbatim>\<open>while (!gb->gb_frame) __gb_step_cpu(gb)\<close>: the loop need not end.\<close>

partial_function (option) gb_frame_loop :: "gb_s \<Rightarrow> gb_s option" where
  "gb_frame_loop gb =
     (if \<not> gb_frame gb then do { gb \<leftarrow> gb_step_cpu gb; gb_frame_loop gb } else Some gb)"

definition gb_run_frame :: "gb_s \<Rightarrow> gb_s option" where
  "gb_run_frame gb = gb_frame_loop (gb\<lparr>gb_frame := False\<rparr>)"

section \<open>Initialisation\<close>

definition gb_init_serial :: "(u8 \<Rightarrow> u8) option \<Rightarrow> gb_s \<Rightarrow> gb_s" where
  "gb_init_serial transfer gb = gb\<lparr>gb_serial_transfer := transfer\<rparr>"

definition gb_reset :: "gb_s \<Rightarrow> gb_s option" where
  "gb_reset gb =
     do { let gb = gb\<lparr>gb_halt := False, gb_ime := True, gb_bios_enable := False, lcd_mode := LCD_HBLANK,
            selected_rom_bank := 1, cart_ram_bank := 0, enable_cart_ram := 0, cart_mode_select := 0\<rparr>;
          let gb = gb\<lparr>reg_a := 0x01, flag_z := True, flag_n := False, flag_h := True, flag_c := True\<rparr>;
          let gb = set_hl 0x014D (set_de 0x00D8 (set_bc 0x0013 gb));
          let gb = gb\<lparr>reg_sp := 0xFFFE, reg_pc := 0x0100\<rparr>;
          let gb = gb\<lparr>lcd_count := 0, div_count := 0, tima_count := 0, serial_count := 0\<rparr>;
          let gb = gb\<lparr>TIMA := 0x00, TMA := 0x00, TAC := 0xF8, DIV := 0xAC, IF := 0xE1, LCDC := 0x91,
            SCY := 0x00, SCX := 0x00, LYC := 0x00, SC := 0x7E, STAT := 0, LY := 0\<rparr>;
          gb \<leftarrow> gb_write gb 0xFF47 0xFC;
          gb \<leftarrow> gb_write gb 0xFF48 0xFF;
          gb \<leftarrow> gb_write gb 0xFF49 0x0F;
          Some (gb\<lparr>WY := 0x00, WX := 0x00, IE := 0x00, joypad := 0xFF, P1 := 0xCF\<rparr>) }"

datatype gb_init_error_e = GB_INIT_NO_ERROR | GB_INIT_CARTRIDGE_UNSUPPORTED | GB_INIT_INVALID_CHECKSUM

definition cart_mbc :: "u8 list" where
  "cart_mbc = [
     0, 1, 1, 1, 255, 2, 2, 255, 0, 0, 255, 0, 0, 0, 255, 3,
     3, 3, 3, 3, 255, 255, 255, 255, 255, 5, 5, 5, 5, 5, 5, 255]"

definition cart_ram_table :: "u8 list" where
  "cart_ram_table = [
     0, 0, 1, 1, 0, 0, 0, 0, 1, 1, 0, 0, 0, 0, 0, 0,
     1, 0, 1, 1, 0, 0, 0, 0, 0, 0, 1, 1, 0, 0, 0, 0]"

definition num_rom_banks_table :: "u16 list" where
  "num_rom_banks_table =
     [2, 4, 8, 16, 32, 64, 128, 256, 512] @ replicate 73 0 @ [72, 80, 96] @ replicate 11 0"

definition num_ram_banks_table :: "u8 list" where
  "num_ram_banks_table = [0, 1, 1, 4, 16, 8]"

text \<open>The header checksum: \<^verbatim>\<open>for (i = 0x0134; i <= 0x014C; i++)\<close>, \<open>n\<close> steps to go.\<close>

primrec header_checksum :: "nat \<Rightarrow> u32 \<Rightarrow> u8 \<Rightarrow> gb_s \<Rightarrow> u8 option" where
  "header_checksum 0 i x gb = Some x"
| "header_checksum (Suc n) i x gb =
     do { v \<leftarrow> gb_rom_read gb i; header_checksum n (i + 1) (x - v - 1) gb }"

definition gb_init :: "gb_s \<Rightarrow> (gb_init_error_e \<times> gb_s) option" where
  "gb_init gb =
     do { let gb = gb\<lparr>gb_serial_transfer := None, interlace := False, interlace_count := False,
            frame_skip := False, frame_skip_count := False, window_clear := 0, display_WY := 0\<rparr>;
          x \<leftarrow> header_checksum 25 0x0134 0 gb;
          v \<leftarrow> gb_rom_read gb 0x014D;
          if x \<noteq> v then Some (GB_INIT_INVALID_CHECKSUM, gb)
          else do {
            mbc_value \<leftarrow> gb_rom_read gb 0x0147;
            if mbc_value > 31 then Some (GB_INIT_CARTRIDGE_UNSUPPORTED, gb)
            else do {
              m \<leftarrow> rd cart_mbc (unat mbc_value);
              let gb = gb\<lparr>mbc := m\<rparr>;
              if mbc gb = 255 then Some (GB_INIT_CARTRIDGE_UNSUPPORTED, gb)
              else do {
                ram \<leftarrow> rd cart_ram_table (unat mbc_value);
                b \<leftarrow> gb_rom_read gb 0x0148;
                rom_banks \<leftarrow> rd num_rom_banks_table (unat b);
                r \<leftarrow> gb_rom_read gb 0x0149;
                ram_banks \<leftarrow> rd num_ram_banks_table (unat r);
                gb \<leftarrow> gb_reset (gb\<lparr>cart_ram := ram, num_rom_banks := rom_banks, num_ram_banks := ram_banks\<rparr>);
                Some (GB_INIT_NO_ERROR, gb) } } } }"

section \<open>The host program\<close>

definition getsavesize :: "gb_s \<Rightarrow> u32 option" where
  "getsavesize gb =
     do { ram_size \<leftarrow> gb_rom_read gb 0x0149; rd [0x00, 0x800, 0x2000, 0x8000, 0x20000] (unat ram_size) }"

text \<open>\<^verbatim>\<open>getromname\<close> with the array of 16 bytes of \<^verbatim>\<open>run\<close>: \<open>n\<close> characters to go, \<open>k\<close> written.\<close>

primrec romname_loop :: "nat \<Rightarrow> u32 \<Rightarrow> nat \<Rightarrow> u8 list \<Rightarrow> gb_s \<Rightarrow> (nat \<times> u8 list) option" where
  "romname_loop 0 title_loc k title gb = Some (k, title)"
| "romname_loop (Suc n) title_loc k title gb =
     do { c \<leftarrow> gb_rom_read gb title_loc;
          if 32 \<le> sint c \<and> sint c \<le> 95 then
            do { title \<leftarrow> wr title k c; romname_loop n (title_loc + 1) (k + 1) title gb }
          else Some (k, title) }"

definition getromname :: "gb_s \<Rightarrow> u8 list \<Rightarrow> u8 list option" where
  "getromname gb title =
     do { (k, title) \<leftarrow> romname_loop 16 0x134 0 title gb; wr title k 0 }"

text \<open>The joypad bits by key code; a pressed key has its bit clear.\<close>

definition joypad_bit :: "u32 \<Rightarrow> nat option" where
  "joypad_bit key =
     (if key = 0x2048 then Some 6
      else if key = 0x204B then Some 5
      else if key = 0x204D then Some 4
      else if key = 0x2050 then Some 7
      else if key = 0x101C then Some 3
      else if key = 0x100E then Some 2
      else if key = 0x102C then Some 0
      else if key = 0x102D then Some 1
      else None)"

definition keypress :: "u32 \<Rightarrow> gb_s \<Rightarrow> gb_s" where
  "keypress key gb =
     (case joypad_bit key of Some n \<Rightarrow> gb\<lparr>joypad := unset_bit n (joypad gb)\<rparr> | None \<Rightarrow> gb)"

definition keyrelease :: "u32 \<Rightarrow> gb_s \<Rightarrow> gb_s" where
  "keyrelease key gb =
     (case joypad_bit key of Some n \<Rightarrow> gb\<lparr>joypad := set_bit n (joypad gb)\<rparr> | None \<Rightarrow> gb)"

end
