(* ===== verification/Gb_Spec.thy ===== *)
theory Gb_Spec
  imports Gb_Step
begin

text \<open>
  A reference semantics of the instruction set, independent of the switch of the emulator: an
  opcode is decoded from its octal fields into an instruction, and an instruction is described by
  arithmetic on numbers (carries and half carries as sums of residues), not by the bit operations
  of the source.
\<close>

section \<open>Instructions and decoding\<close>

datatype r8 = R_B | R_C | R_D | R_E | R_H | R_L | R_M | R_A
datatype r16 = R_BC | R_DE | R_HL | R_SP
datatype stk = S_BC | S_DE | S_HL | S_AF
datatype ind = Ind_BC | Ind_DE | Ind_HLI | Ind_HLD
datatype cond = C_NZ | C_Z | C_NC | C_C
datatype alu = Add | Adc | Sub | Sbc | And | Xor | Or | Cp
datatype rot = Rlc | Rrc | Rl | Rr | Sla | Sra | Swap | Srl

datatype instr =
    Nop
  | Halt
  | Ld r8 r8
  | LdImm r8
  | Ld16 r16
  | LdIndA ind
  | LdAInd ind
  | LdMemSP
  | Inc r8
  | Dec r8
  | Inc16 r16
  | Dec16 r16
  | AddHL r16
  | RotA rot
  | Daa
  | Cpl
  | Scf
  | Ccf
  | Alu alu r8
  | AluImm alu
  | Jr
  | JrIf cond
  | Jp
  | JpIf cond
  | JpHL
  | Call
  | CallIf cond
  | Ret
  | RetIf cond
  | Reti
  | Rst u16
  | Push stk
  | Pop stk
  | LdHighImmA
  | LdAHighImm
  | LdHighCA
  | LdAHighC
  | LdMemA
  | LdAMem
  | AddSP
  | LdHLSP
  | LdSPHL
  | Di
  | Ei
  | Cb
  | Invalid

definition r8_of :: "nat \<Rightarrow> r8" where
  "r8_of n = [R_B, R_C, R_D, R_E, R_H, R_L, R_M, R_A] ! n"

definition r16_of :: "nat \<Rightarrow> r16" where
  "r16_of n = [R_BC, R_DE, R_HL, R_SP] ! n"

definition stk_of :: "nat \<Rightarrow> stk" where
  "stk_of n = [S_BC, S_DE, S_HL, S_AF] ! n"

definition ind_of :: "nat \<Rightarrow> ind" where
  "ind_of n = [Ind_BC, Ind_DE, Ind_HLI, Ind_HLD] ! n"

definition cond_of :: "nat \<Rightarrow> cond" where
  "cond_of n = [C_NZ, C_Z, C_NC, C_C] ! n"

definition alu_of :: "nat \<Rightarrow> alu" where
  "alu_of n = [Add, Adc, Sub, Sbc, And, Xor, Or, Cp] ! n"

definition rot_of :: "nat \<Rightarrow> rot" where
  "rot_of n = [Rlc, Rrc, Rl, Rr, Sla, Sra, Swap, Srl] ! n"

text \<open>The quarter 0 and the quarter 3 of the opcodes, by the fields \<open>y\<close> (bits 3 to 5) and \<open>z\<close> (bits 0 to 2).\<close>

definition decode0 :: "nat \<Rightarrow> nat \<Rightarrow> instr" where
  "decode0 y z =
     (let p = y div 2; q = y mod 2 in
      if z = 0 then [Nop, LdMemSP, Nop, Jr, JrIf C_NZ, JrIf C_Z, JrIf C_NC, JrIf C_C] ! y
      else if z = 1 then (if q = 0 then Ld16 (r16_of p) else AddHL (r16_of p))
      else if z = 2 then (if q = 0 then LdIndA (ind_of p) else LdAInd (ind_of p))
      else if z = 3 then (if q = 0 then Inc16 (r16_of p) else Dec16 (r16_of p))
      else if z = 4 then Inc (r8_of y)
      else if z = 5 then Dec (r8_of y)
      else if z = 6 then LdImm (r8_of y)
      else [RotA Rlc, RotA Rrc, RotA Rl, RotA Rr, Daa, Cpl, Scf, Ccf] ! y)"

definition decode3 :: "nat \<Rightarrow> nat \<Rightarrow> instr" where
  "decode3 y z =
     (let p = y div 2; q = y mod 2 in
      if z = 0 then (if y < 4 then RetIf (cond_of y) else [LdHighImmA, AddSP, LdAHighImm, LdHLSP] ! (y - 4))
      else if z = 1 then (if q = 0 then Pop (stk_of p) else [Ret, Reti, JpHL, LdSPHL] ! p)
      else if z = 2 then (if y < 4 then JpIf (cond_of y) else [LdHighCA, LdMemA, LdAHighC, LdAMem] ! (y - 4))
      else if z = 3 then [Jp, Cb, Invalid, Invalid, Invalid, Invalid, Di, Ei] ! y
      else if z = 4 then (if y < 4 then CallIf (cond_of y) else Invalid)
      else if z = 5 then (if q = 0 then Push (stk_of p) else if p = 0 then Call else Invalid)
      else if z = 6 then AluImm (alu_of y)
      else Rst (8 * of_nat y))"

definition decode :: "u8 \<Rightarrow> instr" where
  "decode opcode =
     (let x = unat opcode div 64; y = unat opcode div 8 mod 8; z = unat opcode mod 8 in
      if x = 0 then decode0 y z
      else if x = 1 then (if y = 6 \<and> z = 6 then Halt else Ld (r8_of y) (r8_of z))
      else if x = 2 then Alu (alu_of y) (r8_of z)
      else decode3 y z)"

section \<open>Semantics\<close>

primrec get8 :: "r8 \<Rightarrow> gb_s \<Rightarrow> u8 option" where
  "get8 R_B gb = Some (reg_b gb)"
| "get8 R_C gb = Some (reg_c gb)"
| "get8 R_D gb = Some (reg_d gb)"
| "get8 R_E gb = Some (reg_e gb)"
| "get8 R_H gb = Some (reg_h gb)"
| "get8 R_L gb = Some (reg_l gb)"
| "get8 R_M gb = gb_read gb (ucast (reg_hl gb))"
| "get8 R_A gb = Some (reg_a gb)"

primrec put8 :: "r8 \<Rightarrow> u8 \<Rightarrow> gb_s \<Rightarrow> gb_s option" where
  "put8 R_B v gb = Some (gb\<lparr>reg_b := v\<rparr>)"
| "put8 R_C v gb = Some (gb\<lparr>reg_c := v\<rparr>)"
| "put8 R_D v gb = Some (gb\<lparr>reg_d := v\<rparr>)"
| "put8 R_E v gb = Some (gb\<lparr>reg_e := v\<rparr>)"
| "put8 R_H v gb = Some (gb\<lparr>reg_h := v\<rparr>)"
| "put8 R_L v gb = Some (gb\<lparr>reg_l := v\<rparr>)"
| "put8 R_M v gb = gb_write gb (ucast (reg_hl gb)) v"
| "put8 R_A v gb = Some (gb\<lparr>reg_a := v\<rparr>)"

primrec get16 :: "r16 \<Rightarrow> gb_s \<Rightarrow> u16" where
  "get16 R_BC gb = reg_bc gb"
| "get16 R_DE gb = reg_de gb"
| "get16 R_HL gb = reg_hl gb"
| "get16 R_SP gb = reg_sp gb"

primrec put16 :: "r16 \<Rightarrow> u16 \<Rightarrow> gb_s \<Rightarrow> gb_s" where
  "put16 R_BC v gb = set_bc v gb"
| "put16 R_DE v gb = set_de v gb"
| "put16 R_HL v gb = set_hl v gb"
| "put16 R_SP v gb = gb\<lparr>reg_sp := v\<rparr>"

text \<open>The high byte of a stack operand, and its low byte; for AF the flags are the upper four bits.\<close>

primrec stk_bytes :: "stk \<Rightarrow> gb_s \<Rightarrow> u8 \<times> u8" where
  "stk_bytes S_BC gb = (reg_b gb, reg_c gb)"
| "stk_bytes S_DE gb = (reg_d gb, reg_e gb)"
| "stk_bytes S_HL gb = (reg_h gb, reg_l gb)"
| "stk_bytes S_AF gb =
     (reg_a gb, 128 * of_bool (flag_z gb) + 64 * of_bool (flag_n gb) + 32 * of_bool (flag_h gb) +
       16 * of_bool (flag_c gb))"

primrec stk_set :: "stk \<Rightarrow> u8 \<Rightarrow> u8 \<Rightarrow> gb_s \<Rightarrow> gb_s" where
  "stk_set S_BC hi lo gb = gb\<lparr>reg_b := hi, reg_c := lo\<rparr>"
| "stk_set S_DE hi lo gb = gb\<lparr>reg_d := hi, reg_e := lo\<rparr>"
| "stk_set S_HL hi lo gb = gb\<lparr>reg_h := hi, reg_l := lo\<rparr>"
| "stk_set S_AF hi lo gb =
     gb\<lparr>reg_a := hi, flag_z := bit lo 7, flag_n := bit lo 6, flag_h := bit lo 5, flag_c := bit lo 4\<rparr>"

primrec ind_addr :: "ind \<Rightarrow> gb_s \<Rightarrow> u16" where
  "ind_addr Ind_BC gb = reg_bc gb"
| "ind_addr Ind_DE gb = reg_de gb"
| "ind_addr Ind_HLI gb = reg_hl gb"
| "ind_addr Ind_HLD gb = reg_hl gb"

primrec ind_step :: "ind \<Rightarrow> gb_s \<Rightarrow> gb_s" where
  "ind_step Ind_BC gb = gb"
| "ind_step Ind_DE gb = gb"
| "ind_step Ind_HLI gb = set_hl (reg_hl gb + 1) gb"
| "ind_step Ind_HLD gb = set_hl (reg_hl gb - 1) gb"

primrec holds :: "cond \<Rightarrow> gb_s \<Rightarrow> bool" where
  "holds C_NZ gb \<longleftrightarrow> \<not> flag_z gb"
| "holds C_Z gb \<longleftrightarrow> flag_z gb"
| "holds C_NC gb \<longleftrightarrow> \<not> flag_c gb"
| "holds C_C gb \<longleftrightarrow> flag_c gb"

text \<open>
  Arithmetic: the new accumulator and the flags Z, N, H, C of an operation on \<open>a\<close> and \<open>v\<close> with carry
  \<open>cy\<close>. A carry out of bit 3 or bit 7 is a sum of residues that reaches 16 or 256, a borrow is a
  residue that is too small.
\<close>

definition spec_add :: "u8 \<Rightarrow> u8 \<Rightarrow> bool \<Rightarrow> u8 \<times> bool \<times> bool \<times> bool \<times> bool" where
  "spec_add a v cy =
     (let r = a + v + of_bool cy in
      (r, r = 0, False, 16 \<le> unat a mod 16 + unat v mod 16 + of_bool cy, 256 \<le> unat a + unat v + of_bool cy))"

definition spec_sub :: "u8 \<Rightarrow> u8 \<Rightarrow> bool \<Rightarrow> u8 \<times> bool \<times> bool \<times> bool \<times> bool" where
  "spec_sub a v cy =
     (let r = a - v - of_bool cy in
      (r, r = 0, True, unat a mod 16 < unat v mod 16 + of_bool cy, unat a < unat v + of_bool cy))"

primrec spec_alu :: "alu \<Rightarrow> u8 \<Rightarrow> u8 \<Rightarrow> bool \<Rightarrow> u8 \<times> bool \<times> bool \<times> bool \<times> bool" where
  "spec_alu Add a v cy = spec_add a v False"
| "spec_alu Adc a v cy = spec_add a v cy"
| "spec_alu Sub a v cy = spec_sub a v False"
| "spec_alu Sbc a v cy = spec_sub a v cy"
| "spec_alu And a v cy = (a AND v, a AND v = 0, False, True, False)"
| "spec_alu Xor a v cy = (a XOR v, a XOR v = 0, False, False, False)"
| "spec_alu Or a v cy = (a OR v, a OR v = 0, False, False, False)"
| "spec_alu Cp a v cy = (a, snd (spec_sub a v False))"

definition do_alu :: "alu \<Rightarrow> u8 \<Rightarrow> gb_s \<Rightarrow> gb_s" where
  "do_alu f v gb =
     (let (r, z, n, h, c) = spec_alu f (reg_a gb) v (flag_c gb)
      in gb\<lparr>reg_a := r, flag_z := z, flag_n := n, flag_h := h, flag_c := c\<rparr>)"

text \<open>Rotations and shifts: the result and the bit that goes to the carry.\<close>

primrec spec_rot :: "rot \<Rightarrow> u8 \<Rightarrow> bool \<Rightarrow> u8 \<times> bool" where
  "spec_rot Rlc v cy = (of_nat (2 * unat v + unat v div 128), 128 \<le> unat v)"
| "spec_rot Rrc v cy = (of_nat (unat v div 2 + 128 * (unat v mod 2)), odd (unat v))"
| "spec_rot Rl v cy = (of_nat (2 * unat v + of_bool cy), 128 \<le> unat v)"
| "spec_rot Rr v cy = (of_nat (unat v div 2 + 128 * of_bool cy), odd (unat v))"
| "spec_rot Sla v cy = (of_nat (2 * unat v), 128 \<le> unat v)"
| "spec_rot Sra v cy = (of_nat (unat v div 2 + 128 * (unat v div 128)), odd (unat v))"
| "spec_rot Swap v cy = (of_nat (16 * (unat v mod 16) + unat v div 16), False)"
| "spec_rot Srl v cy = (of_nat (unat v div 2), odd (unat v))"

definition do_rot :: "rot \<Rightarrow> u8 \<Rightarrow> gb_s \<Rightarrow> u8 \<times> gb_s" where
  "do_rot f v gb =
     (let (r, c) = spec_rot f v (flag_c gb)
      in (r, gb\<lparr>flag_z := (r = 0), flag_n := False, flag_h := False, flag_c := c\<rparr>))"

definition do_add_hl :: "u16 \<Rightarrow> gb_s \<Rightarrow> gb_s" where
  "do_add_hl v gb =
     set_hl (reg_hl gb + v)
       (gb\<lparr>flag_n := False, flag_h := (4096 \<le> unat (reg_hl gb) mod 4096 + unat v mod 4096),
           flag_c := (65536 \<le> unat (reg_hl gb) + unat v)\<rparr>)"

text \<open>Stack pointer plus a signed offset: the carries are those of the unsigned low byte.\<close>

definition do_sp_flags :: "u8 \<Rightarrow> gb_s \<Rightarrow> gb_s" where
  "do_sp_flags v gb =
     gb\<lparr>flag_z := False, flag_n := False,
        flag_h := (16 \<le> unat (reg_sp gb) mod 16 + unat v mod 16),
        flag_c := (256 \<le> unat (reg_sp gb) mod 256 + unat v)\<rparr>"

definition do_inc :: "u8 \<Rightarrow> gb_s \<Rightarrow> gb_s" where
  "do_inc v gb = gb\<lparr>flag_z := (v = 255), flag_n := False, flag_h := (unat v mod 16 = 15)\<rparr>"

definition do_dec :: "u8 \<Rightarrow> gb_s \<Rightarrow> gb_s" where
  "do_dec v gb = gb\<lparr>flag_z := (v = 1), flag_n := True, flag_h := (unat v mod 16 = 0)\<rparr>"

text \<open>The CB page: rotations, and bit test, reset and set.\<close>

definition do_cb :: "u8 \<Rightarrow> gb_s \<Rightarrow> gb_s option" where
  "do_cb cbop gb =
     (let x = unat cbop div 64; y = unat cbop div 8 mod 8; r = r8_of (unat cbop mod 8);
          gb = (if r = R_M then gb\<lparr>div_count := div_count gb + 8\<rparr> else gb)
      in do { v \<leftarrow> get8 r gb;
              if x = 0 then (let (v, gb) = do_rot (rot_of y) v gb in put8 r v gb)
              else if x = 1 then Some (gb\<lparr>flag_z := (\<not> bit v y), flag_n := False, flag_h := True\<rparr>)
              else if x = 2 then put8 r (unset_bit y v) gb
              else put8 r (set_bit y v) gb })"

primrec exec :: "instr \<Rightarrow> gb_op" where
  "exec Nop gb = gb_done gb"
| "exec Halt gb = gb_done (gb\<lparr>gb_halt := True\<rparr>)"
| "exec (Ld d s) gb = do { v \<leftarrow> get8 s gb; gb \<leftarrow> put8 d v gb; gb_done gb }"
| "exec (LdImm d) gb = do { (v, gb) \<leftarrow> gb_fetch gb; gb \<leftarrow> put8 d v gb; gb_done gb }"
| "exec (Ld16 d) gb = do { (v, gb) \<leftarrow> gb_imm16 gb; gb_done (put16 d v gb) }"
| "exec (LdIndA i) gb = do { gb \<leftarrow> gb_write gb (ucast (ind_addr i gb)) (reg_a gb); gb_done (ind_step i gb) }"
| "exec (LdAInd i) gb = do { v \<leftarrow> gb_read gb (ucast (ind_addr i gb)); gb_done ((ind_step i gb)\<lparr>reg_a := v\<rparr>) }"
| "exec LdMemSP gb =
     do { (n, gb) \<leftarrow> gb_imm16 gb; gb \<leftarrow> gb_write gb (ucast n) (lo8 (reg_sp gb));
          gb \<leftarrow> gb_write gb (ucast (n + 1)) (hi8 (reg_sp gb)); gb_done gb }"
| "exec (Inc r) gb = do { v \<leftarrow> get8 r gb; gb \<leftarrow> put8 r (v + 1) (do_inc v gb); gb_done gb }"
| "exec (Dec r) gb = do { v \<leftarrow> get8 r gb; gb \<leftarrow> put8 r (v - 1) (do_dec v gb); gb_done gb }"
| "exec (Inc16 r) gb = gb_done (put16 r (get16 r gb + 1) gb)"
| "exec (Dec16 r) gb = gb_done (put16 r (get16 r gb - 1) gb)"
| "exec (AddHL r) gb = gb_done (do_add_hl (get16 r gb) gb)"
| "exec (RotA f) gb = (let (v, gb) = do_rot f (reg_a gb) gb in gb_done (gb\<lparr>reg_a := v, flag_z := False\<rparr>))"
| "exec Daa gb = gb_done (gb_daa gb)"
| "exec Cpl gb = gb_done (gb\<lparr>reg_a := NOT (reg_a gb), flag_n := True, flag_h := True\<rparr>)"
| "exec Scf gb = gb_done (gb\<lparr>flag_n := False, flag_h := False, flag_c := True\<rparr>)"
| "exec Ccf gb = gb_done (gb\<lparr>flag_n := False, flag_h := False, flag_c := \<not> flag_c gb\<rparr>)"
| "exec (Alu f s) gb = do { v \<leftarrow> get8 s gb; gb_done (do_alu f v gb) }"
| "exec (AluImm f) gb = do { (v, gb) \<leftarrow> gb_fetch gb; gb_done (do_alu f v gb) }"
| "exec Jr gb = do { gb \<leftarrow> gb_jr gb; gb_done gb }"
| "exec (JrIf c) gb = gb_jr_if (holds c gb) gb"
| "exec Jp gb = do { (n, gb) \<leftarrow> gb_imm16 gb; gb_done (gb\<lparr>reg_pc := n\<rparr>) }"
| "exec (JpIf c) gb = gb_jp_if (holds c gb) gb"
| "exec JpHL gb = gb_done (gb\<lparr>reg_pc := reg_hl gb\<rparr>)"
| "exec Call gb = do { gb \<leftarrow> gb_call gb; gb_done gb }"
| "exec (CallIf c) gb = gb_call_if (holds c gb) gb"
| "exec Ret gb = do { gb \<leftarrow> gb_ret gb; gb_done gb }"
| "exec (RetIf c) gb = gb_ret_if (holds c gb) gb"
| "exec Reti gb = do { gb \<leftarrow> gb_ret gb; gb_done (gb\<lparr>gb_ime := True\<rparr>) }"
| "exec (Rst n) gb = gb_rst n gb"
| "exec (Push s) gb =
     (let (hi, lo) = stk_bytes s gb in do { gb \<leftarrow> gb_push hi gb; gb \<leftarrow> gb_push lo gb; gb_done gb })"
| "exec (Pop s) gb = do { (lo, gb) \<leftarrow> gb_pop gb; (hi, gb) \<leftarrow> gb_pop gb; gb_done (stk_set s hi lo gb) }"
| "exec LdHighImmA gb = do { (v, gb) \<leftarrow> gb_fetch gb; gb \<leftarrow> gb_write gb (0xFF00 OR ucast v) (reg_a gb); gb_done gb }"
| "exec LdAHighImm gb =
     do { (v, gb) \<leftarrow> gb_fetch gb; v \<leftarrow> gb_read gb (0xFF00 OR ucast v); gb_done (gb\<lparr>reg_a := v\<rparr>) }"
| "exec LdHighCA gb = do { gb \<leftarrow> gb_write gb (0xFF00 OR ucast (reg_c gb)) (reg_a gb); gb_done gb }"
| "exec LdAHighC gb = do { v \<leftarrow> gb_read gb (0xFF00 OR ucast (reg_c gb)); gb_done (gb\<lparr>reg_a := v\<rparr>) }"
| "exec LdMemA gb = do { (n, gb) \<leftarrow> gb_imm16 gb; gb \<leftarrow> gb_write gb (ucast n) (reg_a gb); gb_done gb }"
| "exec LdAMem gb = do { (n, gb) \<leftarrow> gb_imm16 gb; v \<leftarrow> gb_read gb (ucast n); gb_done (gb\<lparr>reg_a := v\<rparr>) }"
| "exec AddSP gb =
     do { (v, gb) \<leftarrow> gb_fetch gb; gb_done ((do_sp_flags v gb)\<lparr>reg_sp := reg_sp gb + scast v\<rparr>) }"
| "exec LdHLSP gb =
     do { (v, gb) \<leftarrow> gb_fetch gb; gb_done (set_hl (reg_sp gb + scast v) (do_sp_flags v gb)) }"
| "exec LdSPHL gb = gb_done (gb\<lparr>reg_sp := reg_hl gb\<rparr>)"
| "exec Di gb = gb_done (gb\<lparr>gb_ime := False\<rparr>)"
| "exec Ei gb = gb_done (gb\<lparr>gb_ime := True\<rparr>)"
| "exec Cb gb = do { (cbop, gb) \<leftarrow> gb_fetch gb; gb \<leftarrow> do_cb cbop gb; gb_done gb }"
| "exec Invalid gb = gb_done gb"

end
