(* ===== verification/Gb_Equiv.thy ===== *)
theory Gb_Equiv
  imports Gb_Spec
begin

text \<open>
  The instruction switch of the emulator implements the reference semantics: every opcode, and every
  opcode of the CB page, does what its decoded instruction says.
\<close>

section \<open>Carries\<close>

lemma carry_nat:
  fixes x y c m :: nat
  assumes "c \<le> 1" "0 < m"
  shows "((odd (x div m) \<noteq> odd (y div m)) \<noteq> odd ((x + y + c) div m)) \<longleftrightarrow> m \<le> x mod m + y mod m + c"
proof -
  let ?r = "x mod m + y mod m + c"
  have "?r < 2 * m" using mod_less_divisor [OF assms(2), of x] mod_less_divisor [OF assms(2), of y] assms(1) by linarith
  then have r: "?r div m = of_bool (m \<le> ?r)" using assms(2) by (cases "m \<le> ?r") (auto simp: div_nat_eqI)
  have "x + y + c = (x div m + y div m) * m + ?r"
    by (metis (no_types, lifting) add.assoc add.left_commute div_mult_mod_eq distrib_right)
  then have "(x + y + c) div m = x div m + y div m + ?r div m"
    by (simp only:) (rule div_mult_self3, use assms(2) in simp)
  then show ?thesis unfolding r by auto
qed

lemma borrow_int:
  fixes x y c m :: int
  assumes "0 \<le> c" "c \<le> 1" "0 < m"
  shows "((odd (x div m) \<noteq> odd (y div m)) \<noteq> odd ((x - y - c) div m)) \<longleftrightarrow> x mod m < y mod m + c"
proof -
  let ?r = "x mod m - y mod m - c"
  have b: "- m \<le> ?r" "?r < m"
    using pos_mod_bound [OF assms(3), of x] pos_mod_bound [OF assms(3), of y]
      pos_mod_sign [OF assms(3), of x] pos_mod_sign [OF assms(3), of y] assms(1,2) by linarith+
  have r: "?r div m = (if ?r < 0 then - 1 else 0)"
    using b by (simp add: int_div_pos_eq [of _ m "- 1" "?r + m"] div_pos_pos_trivial)
  have "x - y - c = (x div m - y div m) * m + ?r"
    using div_mult_mod_eq [of x m] div_mult_mod_eq [of y m] by (simp add: algebra_simps)
  then have "(x - y - c) div m = x div m - y div m + ?r div m"
    by (simp only:) (rule div_mult_self3, use assms(3) in simp)
  then show ?thesis unfolding r by auto
qed

section \<open>Sixteen bit arithmetic on bytes\<close>

lemma u16_low: "unat (t AND 0xFF :: u16) = unat t mod 256"
proof -
  have "t AND 0xFF = take_bit 8 t" by (simp add: take_bit_eq_mask mask_eq_exp_minus_1)
  then show ?thesis by (simp only: unsigned_take_bit_eq) (simp add: take_bit_eq_mod)
qed

lemma u16_low_byte: "(ucast (t AND 0xFF :: u16) :: u8) = ucast t"
proof -
  have "t AND 0xFF = take_bit 8 t" by (simp add: take_bit_eq_mask mask_eq_exp_minus_1)
  then show ?thesis by (simp add: unsigned_take_bit_eq bit_eq_iff bit_simps)
qed

lemma u16_high: "t AND 0xFF00 \<noteq> (0 :: u16) \<longleftrightarrow> 256 \<le> unat t"
proof -
  have "(0xFF00 :: u16) = push_bit 8 (mask 8)" by (simp add: mask_eq_exp_minus_1)
  moreover have "t AND push_bit 8 (mask 8) = push_bit 8 (drop_bit 8 t)"
    by (rule bit_word_eqI) (auto simp: bit_simps)
  ultimately have "t AND 0xFF00 = push_bit 8 (drop_bit 8 t)" by (simp only:)
  moreover have "drop_bit 8 (push_bit 8 (drop_bit 8 t)) = drop_bit 8 t"
    by (rule bit_word_eqI) (auto simp: bit_simps dest: bit_imp_le_length)
  ultimately have "t AND 0xFF00 = 0 \<longleftrightarrow> drop_bit 8 t = 0" by (metis drop_bit_of_0 push_bit_of_0)
  also have "\<dots> \<longleftrightarrow> unat (drop_bit 8 t) = 0" by (simp add: unat_eq_0)
  also have "\<dots> \<longleftrightarrow> unat t < 256" by (simp only: unat_drop_bit_eq) (simp add: drop_bit_eq_div div_eq_0_iff)
  finally show ?thesis by (simp add: not_less)
qed

text \<open>Bit 4 of an exclusive or is the parity of the third hexadecimal digits.\<close>

lemma bit_nat: "bit (w :: 'a::len word) n \<longleftrightarrow> odd (unat w div 2 ^ n)"
  by (simp add: bit_unsigned_iff flip: bit_iff_odd)

lemma and_0x10: "w AND 0x10 \<noteq> (0 :: u16) \<longleftrightarrow> bit w 4"
  using and_exp_eq_0_iff_not_bit [of w 4] by simp

lemma u16_of_u8: "unat (ucast (v :: u8) :: u16) = unat v"
  by (simp add: unsigned_ucast_eq take_bit_nat_eq_self order.strict_trans [OF unat_less_u8])

lemma sum_nat: "unat (ucast (a :: u8) + ucast (v :: u8) + of_bool cy :: u16) = unat a + unat v + of_bool cy"
proof -
  have "unat a + unat v + of_bool cy < 65536" using unat_less_u8 [of a] unat_less_u8 [of v] by (simp add: of_bool_def del: unat_less_u8)
  then show ?thesis by (cases cy) (simp_all add: unat_word_ariths u16_of_u8)
qed

lemma half_carry:
  "(ucast (a :: u8) XOR ucast (v :: u8) XOR (ucast a + ucast v + of_bool cy)) AND 0x10 \<noteq> (0 :: u16) \<longleftrightarrow>
   16 \<le> unat a mod 16 + unat v mod 16 + of_bool cy"
  unfolding and_0x10 bit_xor_iff unfolding bit_nat [of _ 4] sum_nat u16_of_u8
  using carry_nat [of "of_bool cy" 16 "unat a" "unat v"] by (cases cy) auto

lemma add_byte: "(ucast (ucast (a :: u8) + ucast (v :: u8) + of_bool cy :: u16) :: u8) = a + v + of_bool cy"
proof -
  have "unat (ucast (ucast a + ucast v + of_bool cy :: u16) :: u8) = (unat a + unat v + of_bool cy) mod 256"
    unfolding unsigned_ucast_eq sum_nat by (simp add: take_bit_eq_mod)
  also have "\<dots> = unat (a + v + of_bool cy)" by (cases cy) (simp_all add: unat_word_ariths mod_simps)
  finally show ?thesis by (rule unsigned_word_eqI)
qed

lemma diff_int: "uint (ucast (a :: u8) - ucast (v :: u8) - of_bool cy :: u16) = (uint a - uint v - of_bool cy) mod 65536"
  by (cases cy) (simp_all add: uint_word_ariths mod_simps unsigned_ucast_eq take_bit_eq_mod)

lemma diff_byte: "(ucast (ucast (a :: u8) - ucast (v :: u8) - of_bool cy :: u16) :: u8) = a - v - of_bool cy"
proof -
  have "uint (ucast (ucast a - ucast v - of_bool cy :: u16) :: u8) = (uint a - uint v - of_bool cy) mod 65536 mod 256"
    unfolding unsigned_ucast_eq diff_int by (simp add: take_bit_eq_mod)
  also have "\<dots> = (uint a - uint v - of_bool cy) mod 256" by (simp add: mod_mod_cancel)
  also have "\<dots> = uint (a - v - of_bool cy)" by (cases cy) (simp_all add: uint_word_ariths mod_simps)
  finally show ?thesis by (rule unsigned_word_eqI)
qed

lemma borrow:
  "ucast (a :: u8) - ucast (v :: u8) - of_bool cy AND 0xFF00 \<noteq> (0 :: u16) \<longleftrightarrow> unat a < unat v + of_bool cy"
proof -
  let ?y = "ucast v + of_bool cy :: u16"
  have y: "unat ?y = unat v + of_bool cy" using sum_nat [of 0 v cy] by simp
  have "unat (ucast a - ?y :: u16) =
      (if unat v + of_bool cy \<le> unat a then unat a - (unat v + of_bool cy)
       else unat a + 65536 - (unat v + of_bool cy))"
    using unat_sub_if' [of "ucast a :: u16" ?y] unfolding y u16_of_u8 by (simp split: if_splits)
  moreover have "unat v + of_bool cy \<le> 256" using unat_less_u8 [of v] by (simp add: of_bool_def del: unat_less_u8)
  moreover define k where "k = unat v + of_bool cy"
  ultimately have "256 \<le> unat (ucast a - ?y :: u16) \<longleftrightarrow> unat a < unat v + of_bool cy"
    unfolding k_def [symmetric] using unat_less_u8 [of a] by (auto split: if_splits simp del: unat_less_u8)
  then show ?thesis unfolding u16_high by (simp add: diff_diff_eq)
qed

lemma half_borrow:
  "(ucast (a :: u8) XOR ucast (v :: u8) XOR (ucast a - ucast v - of_bool cy)) AND 0x10 \<noteq> (0 :: u16) \<longleftrightarrow>
   unat a mod 16 < unat v mod 16 + of_bool cy"
proof -
  let ?d = "uint a - uint v - of_bool cy"
  have "bit (ucast a - ucast v - of_bool cy :: u16) 4 \<longleftrightarrow> bit (uint (ucast a - ucast v - of_bool cy :: u16)) 4"
    by (simp add: bit_uint_iff)
  also have "\<dots> \<longleftrightarrow> bit (take_bit 16 ?d) 4" unfolding diff_int by (simp add: take_bit_eq_mod)
  also have "\<dots> \<longleftrightarrow> bit ?d 4" by (simp add: bit_take_bit_iff)
  also have "\<dots> \<longleftrightarrow> odd (?d div 16)" by (simp add: bit_iff_odd)
  finally have t: "bit (ucast a - ucast v - of_bool cy :: u16) 4 \<longleftrightarrow> odd (?d div 16)" .
  have u: "bit (ucast w :: u16) 4 \<longleftrightarrow> odd (uint w div 16)" for w :: u8
    using bit_iff_odd [of "uint w" 4] by (simp add: bit_ucast_iff bit_uint_iff)
  have um: "uint w mod 16 = int (unat w mod 16)" for w :: u8
    unfolding uint_nat of_nat_mod by simp
  have "uint a mod 16 < uint v mod 16 + of_bool cy \<longleftrightarrow> unat a mod 16 < unat v mod 16 + of_bool cy"
    unfolding um by (cases cy) (simp_all add: less_Suc_eq_le)
  moreover have "((odd (uint a div 16) \<noteq> odd (uint v div 16)) \<noteq> odd (?d div 16)) \<longleftrightarrow>
      uint a mod 16 < uint v mod 16 + of_bool cy"
    by (rule borrow_int) simp_all
  ultimately show ?thesis unfolding and_0x10 bit_xor_iff t u by argo
qed

lemma u16_zero: "t AND 0xFF = (0 :: u16) \<longleftrightarrow> (ucast t :: u8) = 0"
proof -
  have "t AND 0xFF = 0 \<longleftrightarrow> unat t mod 256 = 0" by (metis u16_low unat_eq_0)
  also have "\<dots> \<longleftrightarrow> unat (ucast t :: u8) = 0" by (simp only: unsigned_ucast_eq) (simp add: take_bit_eq_mod)
  finally show ?thesis by (simp only: unat_eq_0)
qed

text \<open>The variants without a carry coming in.\<close>

lemmas add_plain = sum_nat [where cy = False, simplified] half_carry [where cy = False, simplified]
  add_byte [where cy = False, simplified]
lemmas borrows = borrow [unfolded u16_high] borrow [where cy = False, unfolded u16_high, simplified]
  borrow [where cy = True, unfolded u16_high, simplified]
lemmas sub_plain = half_borrow [where cy = False, simplified]
  diff_byte [where cy = False, simplified]

lemmas alu_facts = add_plain sub_plain sum_nat half_carry add_byte half_borrow borrows diff_byte u16_zero u16_high
  u16_low_byte

section \<open>The phrases of the switch\<close>

lemma gb_add_spec: "gb_add v gb = do_alu Add v gb"
  by (simp add: gb_add_def gb_flags_add_def do_alu_def spec_add_def Let_def alu_facts)

lemma gb_adc_spec: "gb_adc v gb = do_alu Adc v gb"
  by (simp add: gb_adc_def gb_flags_add_def do_alu_def spec_add_def Let_def alu_facts)

lemma gb_sub_spec: "gb_sub v gb = do_alu Sub v gb"
  by (simp add: gb_sub_def gb_flags_sub_def do_alu_def spec_sub_def Let_def alu_facts)

lemma gb_sbc_spec: "gb_sbc v gb = do_alu Sbc v gb"
  by (simp add: gb_sbc_def gb_flags_sub_def do_alu_def spec_sub_def Let_def alu_facts)

lemma gb_cp_spec: "gb_cp v gb = do_alu Cp v gb"
  by (simp add: gb_cp_def gb_flags_sub_def do_alu_def spec_sub_def Let_def alu_facts)

lemma gb_logic_spec:
  "gb_logic True (reg_a gb AND v) gb = do_alu And v gb"
  "gb_logic False (reg_a gb XOR v) gb = do_alu Xor v gb"
  "gb_logic False (reg_a gb OR v) gb = do_alu Or v gb"
  by (simp_all add: gb_logic_def do_alu_def)

lemma gb_inc_spec: "gb_inc_flags (v + 1) gb = do_inc v gb"
proof -
  have "(v + 1 = 0 \<longleftrightarrow> v = 255) \<and> ((v + 1) AND 0x0F = 0 \<longleftrightarrow> unat v mod 16 = 15)"
    by (rule u8_exhaust [of "\<lambda>v. (v + 1 = 0 \<longleftrightarrow> v = 255) \<and> ((v + 1) AND 0x0F = 0 \<longleftrightarrow> unat v mod 16 = 15)"]) simp_all
  then show ?thesis by (simp add: gb_inc_flags_def do_inc_def)
qed

lemma gb_dec_spec: "gb_dec_flags (v - 1) gb = do_dec v gb"
proof -
  have "(v - 1 = 0 \<longleftrightarrow> v = 1) \<and> ((v - 1) AND 0x0F = 0x0F \<longleftrightarrow> unat v mod 16 = 0)"
    by (rule u8_exhaust [of "\<lambda>v. (v - 1 = 0 \<longleftrightarrow> v = 1) \<and> ((v - 1) AND 0x0F = 0x0F \<longleftrightarrow> unat v mod 16 = 0)"]) simp_all
  then show ?thesis by (simp add: gb_dec_flags_def do_dec_def)
qed

lemma gb_add_aa_spec:
  "(let temp = ucast (reg_a gb) + ucast (reg_a gb) :: u16
    in gb_done (gb\<lparr>flag_z := (temp AND 0xFF = 0), flag_n := False, flag_h := (temp AND 0x10 \<noteq> 0),
        flag_c := (temp AND 0xFF00 \<noteq> 0), reg_a := ucast (temp AND 0xFF)\<rparr>)) =
   gb_done (do_alu Add (reg_a gb) gb)"
proof -
  have "ucast (reg_a gb) + ucast (reg_a gb) AND 0x10 \<noteq> (0 :: u16) \<longleftrightarrow>
      16 \<le> unat (reg_a gb) mod 16 + unat (reg_a gb) mod 16"
    using half_carry [of "reg_a gb" "reg_a gb" False] by simp
  then show ?thesis
    using sum_nat [of "reg_a gb" "reg_a gb" False] add_byte [of "reg_a gb" "reg_a gb" False]
    by (simp add: gb_done_def do_alu_def spec_add_def Let_def alu_facts)
qed

lemma u32_of_u8: "unat (ucast (v :: u8) :: u32) = unat v"
  by (simp add: unsigned_ucast_eq take_bit_nat_eq_self order.strict_trans [OF unat_less_u8])

lemma u32_nibble: "unat (w AND 0xF :: u32) = unat w mod 16"
proof -
  have "w AND 0xF = take_bit 4 w" by (simp add: take_bit_eq_mask mask_eq_exp_minus_1)
  then show ?thesis by (simp only: unsigned_take_bit_eq) (simp add: take_bit_eq_mod)
qed

lemma u32_byte: "unat (w AND 0xFF :: u32) = unat w mod 256"
proof -
  have "w AND 0xFF = take_bit 8 w" by (simp add: take_bit_eq_mask mask_eq_exp_minus_1)
  then show ?thesis by (simp only: unsigned_take_bit_eq) (simp add: take_bit_eq_mod)
qed

text \<open>The immediate forms of ADD and ADC compute the flags in their own way.\<close>

lemma nibble_sum:
  "unat ((ucast (a :: u8) AND 0xF) + (ucast (v :: u8) AND 0xF) + of_bool cy :: u32) =
     unat a mod 16 + unat v mod 16 + of_bool cy"
proof -
  have "unat a mod 16 < 16" "unat v mod 16 < 16" by simp_all
  then show ?thesis by (cases cy) (simp_all add: unat_word_ariths u32_nibble u32_of_u8)
qed

lemma byte_sum:
  "unat (ucast (a :: u8) + ucast (v :: u8) + of_bool cy :: u32) = unat a + unat v + of_bool cy"
  using unat_less_u8 [of a] unat_less_u8 [of v]
  by (cases cy) (simp_all add: unat_word_ariths u32_of_u8 del: unat_less_u8)

lemma above: "(k < w) \<longleftrightarrow> unat k + 1 \<le> unat (w :: 'a::len word)"
  by (simp add: word_less_nat_alt Suc_le_eq)

lemma gb_add_imm_spec:
  "(let calc = (ucast (reg_a gb) + ucast v :: u16)
    in gb_done (gb\<lparr>flag_z := (ucast calc = (0 :: u8)),
          flag_h := ((ucast (reg_a gb) AND 0xF) + (ucast v AND 0xF) > (0x0F :: u32)),
          flag_c := (calc > 0xFF), flag_n := False, reg_a := ucast calc\<rparr>)) =
   gb_done (do_alu Add v gb)"
  using nibble_sum [of "reg_a gb" v False]
  by (simp add: gb_done_def do_alu_def spec_add_def Let_def alu_facts above)

lemma gb_adc_imm_spec:
  "(let a = reg_a gb; carry = of_bool (flag_c gb); gb = gb\<lparr>reg_a := a + v + of_bool (flag_c gb)\<rparr>
    in gb_done (gb\<lparr>flag_z := (reg_a gb = 0),
          flag_h := ((ucast a AND 0xF) + (ucast v AND 0xF) + carry > (0x0F :: u32)),
          flag_c := (ucast a + ucast v + carry > (0xFF :: u32)), flag_n := False\<rparr>)) =
   gb_done (do_alu Adc v gb)"
  using nibble_sum [of "reg_a gb" v "flag_c gb"] byte_sum [of "reg_a gb" v "flag_c gb"]
  by (simp add: gb_done_def do_alu_def spec_add_def Let_def above)

lemma hl32: "unat (ucast (w :: u16) :: u32) = unat w"
proof -
  have "unat w < 65536" using unsigned_less [of w, where ?'a = nat] by simp
  then have "unat w < 2 ^ 32" by (rule order.strict_trans) simp
  then show ?thesis by (simp only: unsigned_ucast_eq) (simp add: take_bit_nat_eq_self)
qed

lemma sum32: "unat (ucast (w :: u16) + ucast (v :: u16) :: u32) = unat w + unat v"
proof -
  have "unat w < 65536" "unat v < 65536"
    using unsigned_less [of w, where ?'a = nat] unsigned_less [of v, where ?'a = nat] by simp_all
  then have "unat w + unat v < 4294967296" by linarith
  then show ?thesis by (simp add: unat_add_u32 hl32)
qed

lemma sp_offset_spec: "gb_sp_offset_flags v gb = do_sp_flags v gb"
proof -
  have sp: "unat (ucast (reg_sp gb) :: u32) = unat (reg_sp gb)"
    by (rule hl32)
  have v: "unat (scast v :: u32) mod 256 = unat v \<and> unat (scast v :: u32) mod 16 = unat v mod 16"
    by (rule u8_exhaust [of "\<lambda>v. unat (scast v :: u32) mod 256 = unat v \<and> unat (scast v :: u32) mod 16 = unat v mod 16"])
       (simp_all add: unsigned_minus_1_eq_mask mask_eq_exp_minus_1)
  have "unat ((ucast (reg_sp gb) AND 0xF) + (scast v AND 0xF) :: u32) = unat (reg_sp gb) mod 16 + unat v mod 16"
    using v sp mod_less_divisor [of 16 "unat (reg_sp gb)"] mod_less_divisor [of 16 "unat v"]
    by (simp add: unat_word_ariths u32_nibble)
  moreover have "unat ((ucast (reg_sp gb) AND 0xFF) + (scast v AND 0xFF) :: u32) = unat (reg_sp gb) mod 256 + unat v"
    using v sp mod_less_divisor [of 256 "unat (reg_sp gb)"] unat_less_u8 [of v]
    by (simp add: unat_word_ariths u32_byte del: unat_less_u8)
  ultimately show ?thesis by (simp add: gb_sp_offset_flags_def do_sp_flags_def above)
qed

lemma u32_high: "t AND 0xFFFF0000 \<noteq> (0 :: u32) \<longleftrightarrow> 65536 \<le> unat t"
proof -
  have "(0xFFFF0000 :: u32) = push_bit 16 (mask 16)" by (simp add: mask_eq_exp_minus_1)
  moreover have "t AND push_bit 16 (mask 16) = push_bit 16 (drop_bit 16 t)"
    by (rule bit_word_eqI) (auto simp: bit_simps)
  ultimately have "t AND 0xFFFF0000 = push_bit 16 (drop_bit 16 t)" by (simp only:)
  moreover have "drop_bit 16 (push_bit 16 (drop_bit 16 t)) = drop_bit 16 t"
    by (rule bit_word_eqI) (auto simp: bit_simps dest: bit_imp_le_length)
  ultimately have "t AND 0xFFFF0000 = 0 \<longleftrightarrow> drop_bit 16 t = 0" by (metis drop_bit_of_0 push_bit_of_0)
  also have "\<dots> \<longleftrightarrow> unat (drop_bit 16 t) = 0" by (simp add: unat_eq_0)
  also have "\<dots> \<longleftrightarrow> unat t < 65536" by (simp only: unat_drop_16) (simp add: div_eq_0_iff)
  finally show ?thesis by (simp add: not_less)
qed

lemma low16: "(ucast (t AND 0xFFFF :: u32) :: u16) = ucast t"
proof -
  have "t AND 0xFFFF = take_bit 16 t" by (simp add: take_bit_eq_mask mask_eq_exp_minus_1)
  then show ?thesis by (simp add: unsigned_take_bit_eq bit_eq_iff bit_simps)
qed

lemma add16: "(ucast (ucast (w :: u16) + ucast (v :: u16) :: u32) :: u16) = w + v"
proof -
  have "unat (ucast (ucast w + ucast v :: u32) :: u16) = unat (w + v)"
    unfolding unsigned_ucast_eq sum32 by (simp add: take_bit_eq_mod unat_word_ariths)
  then show ?thesis by (rule unsigned_word_eqI)
qed

lemma and_0x1000: "w AND 0x1000 \<noteq> (0 :: u32) \<longleftrightarrow> bit w 12"
  using and_exp_eq_0_iff_not_bit [of w 12] by simp

lemma half_carry16:
  "((ucast w + ucast v) XOR ucast (w :: u16) XOR ucast (v :: u16)) AND 0x1000 \<noteq> (0 :: u32) \<longleftrightarrow>
   4096 \<le> unat w mod 4096 + unat v mod 4096"
proof -
  have "((odd (unat w div 4096) \<noteq> odd (unat v div 4096)) \<noteq> odd ((unat w + unat v) div 4096)) \<longleftrightarrow>
      4096 \<le> unat w mod 4096 + unat v mod 4096"
    using carry_nat [of 0 4096 "unat w" "unat v"] by simp
  then show ?thesis
    unfolding and_0x1000 bit_xor_iff unfolding bit_nat [of _ 12] sum32 hl32 by simp argo
qed

lemma gb_add_hl_spec: "gb_add_hl v gb = do_add_hl v gb"
  by (simp add: gb_add_hl_def do_add_hl_def Let_def half_carry16 u32_high sum32 low16 add16)

section \<open>Rotations and bits\<close>

lemma rot_plain:
  "spec_rot Rlc v cy = (push_bit 1 v OR drop_bit 7 v, drop_bit 7 v \<noteq> 0) \<and>
   spec_rot Rrc v cy = (drop_bit 1 v OR push_bit 7 v, v AND 1 \<noteq> 0) \<and>
   spec_rot Sla v cy = (push_bit 1 v, drop_bit 7 v \<noteq> 0) \<and>
   spec_rot Sra v cy = (drop_bit 1 v OR (v AND 0x80), v AND 1 \<noteq> 0) \<and>
   spec_rot Swap v cy = ((drop_bit 4 v AND 0x0F) OR (push_bit 4 v AND 0xF0), False) \<and>
   spec_rot Srl v cy = (drop_bit 1 v, v AND 1 \<noteq> 0)"
  (is "?P v")
  by (rule u8_exhaust [of ?P]) simp_all

lemma rot_carry:
  "spec_rot Rl v cy = (push_bit 1 v OR of_bool cy, drop_bit 7 v \<noteq> 0) \<and>
   spec_rot Rr v cy = (drop_bit 1 v OR push_bit 7 (of_bool cy), v AND 1 \<noteq> 0)"
  (is "?P v cy")
proof (cases cy)
  case True
  then have c: "cy = True" by simp
  show ?thesis unfolding c by (rule u8_exhaust [of "\<lambda>v. ?P v True"]) simp_all
next
  case False
  then have c: "cy = False" by simp
  show ?thesis unfolding c by (rule u8_exhaust [of "\<lambda>v. ?P v False"]) simp_all
qed

lemma rot_a:
  "(drop_bit 7 v AND 1 \<noteq> 0 \<longleftrightarrow> drop_bit 7 v \<noteq> (0 :: u8)) \<and>
   ((push_bit 1 v OR drop_bit 7 v) AND 1 \<noteq> 0 \<longleftrightarrow> drop_bit 7 v \<noteq> 0)"
  (is "?P v")
  by (rule u8_exhaust [of ?P]) simp_all

lemmas rot_facts = rot_plain [THEN conjunct1] rot_plain [THEN conjunct2, THEN conjunct1]
  rot_plain [THEN conjunct2, THEN conjunct2, THEN conjunct1]
  rot_plain [THEN conjunct2, THEN conjunct2, THEN conjunct2, THEN conjunct1]
  rot_plain [THEN conjunct2, THEN conjunct2, THEN conjunct2, THEN conjunct2, THEN conjunct1]
  rot_plain [THEN conjunct2, THEN conjunct2, THEN conjunct2, THEN conjunct2, THEN conjunct2]
  rot_carry [THEN conjunct1] rot_carry [THEN conjunct2]

lemma less_8: "(n :: nat) < 8 \<longleftrightarrow> n = 0 \<or> n = 1 \<or> n = 2 \<or> n = 3 \<or> n = 4 \<or> n = 5 \<or> n = 6 \<or> n = 7"
  by linarith

lemma cb_shift_spec:
  "n < 8 \<Longrightarrow> gb_cb_shift (of_nat (n div 2)) (odd n) v gb = do_rot (rot_of n) v gb"
  unfolding less_8
  by (elim disjE) (simp_all add: gb_cb_shift_def do_rot_def rot_of_def rot_facts Let_def del: spec_rot.simps)

lemma bits_0xFE: "bit (0xFE :: u32) k \<longleftrightarrow> 1 \<le> k \<and> k < 8"
proof -
  have "(0xFE :: u32) = push_bit 1 (mask 7)" by (simp add: mask_eq_exp_minus_1)
  then show ?thesis by (simp only: bit_simps) (auto simp: bit_simps)
qed

lemma bits_0xFF: "bit (0xFF :: u32) k \<longleftrightarrow> k < 8"
proof -
  have "(0xFF :: u32) = mask 8" by (simp add: mask_eq_exp_minus_1)
  then show ?thesis by (simp only: bit_simps) auto
qed

lemma cb_reset_bit:
  assumes "b < 8"
  shows "(ucast ((ucast (v :: u8) :: u32) AND (push_bit b 0xFE OR drop_bit (8 - b) 0xFF)) :: u8) = unset_bit b v"
proof (rule bit_word_eqI)
  fix n assume n: "n < LENGTH(8)"
  let ?m = "push_bit b 0xFE OR drop_bit (8 - b) 0xFF :: u32"
  have "bit ?m n \<longleftrightarrow> n \<noteq> b"
    using n assms by (simp only: bit_or_iff bit_push_bit_iff bit_drop_bit_eq comp_def bits_0xFE bits_0xFF) auto
  then have "bit (ucast v AND ?m) n \<longleftrightarrow> bit v n \<and> n \<noteq> b"
    using n by (simp only: bit_and_iff) (simp add: bit_ucast_iff)
  then show "bit (ucast (ucast v AND ?m) :: u8) n = bit (unset_bit b v) n"
    using n by (simp only: bit_ucast_iff) (auto simp: bit_unset_bit_iff)
qed

lemma cb_fields:
  "cbop AND 0x7 = of_nat (unat cbop mod 8) \<and>
   drop_bit 3 cbop AND 0x7 = of_nat (unat cbop div 8 mod 8) \<and>
   (drop_bit 3 cbop AND 0x1 \<noteq> (0 :: u8) \<longleftrightarrow> odd (unat cbop div 8 mod 8)) \<and>
   (cbop AND 0x0F = 0x06 \<or> cbop AND 0x0F = 0x0E \<longleftrightarrow> unat cbop mod 8 = 6) \<and>
   drop_bit 6 cbop = of_nat (unat cbop div 64) \<and> unat cbop div 64 < 4 \<and>
   drop_bit 4 cbop AND 0x3 = of_nat (unat cbop div 8 mod 8 div 2)"
  (is "?P cbop")
  by (rule u8_exhaust [of ?P]) simp_all

lemma cb_operand_spec: "k < 8 \<Longrightarrow> gb_cb_operand (of_nat k) gb = get8 (r8_of k) gb"
  unfolding less_8 by (elim disjE) (simp_all add: gb_cb_operand_def r8_of_def)

lemma cb_writeback_spec: "k < 8 \<Longrightarrow> gb_cb_writeback (of_nat k) v gb = put8 (r8_of k) v gb"
  unfolding less_8 by (elim disjE) (simp_all add: gb_cb_writeback_def r8_of_def)

lemma r8_of_M: "k < 8 \<Longrightarrow> r8_of k = R_M \<longleftrightarrow> k = 6"
  unfolding less_8 by (elim disjE) (simp_all add: r8_of_def)

lemma less_4: "(n :: nat) < 4 \<longleftrightarrow> n = 0 \<or> n = 1 \<or> n = 2 \<or> n = 3"
  by linarith

text \<open>The CB page.\<close>

lemma execute_cb_spec: "gb_execute_cb gb = do { (cbop, gb) \<leftarrow> gb_fetch gb; do_cb cbop gb }"
proof -
  have "(let r = cbop AND 0x7; b = unat (drop_bit 3 cbop AND 0x7); d = (drop_bit 3 cbop AND 0x1 \<noteq> 0);
          gb = (if cbop AND 0x0F = 0x06 \<or> cbop AND 0x0F = 0x0E then gb\<lparr>div_count := div_count gb + 8\<rparr> else gb)
        in do { val \<leftarrow> gb_cb_operand r gb;
          if drop_bit 6 cbop = 0 then
            (let (val, gb) = gb_cb_shift (drop_bit 4 cbop AND 0x3) d val gb in gb_cb_writeback r val gb)
          else if drop_bit 6 cbop = 1 then
            Some (gb\<lparr>flag_z := (drop_bit b val AND 0x1 = 0), flag_n := False, flag_h := True\<rparr>)
          else if drop_bit 6 cbop = 2 then
            gb_cb_writeback r (ucast ((ucast val :: u32) AND (push_bit b 0xFE OR drop_bit (8 - b) 0xFF))) gb
          else gb_cb_writeback r (val OR push_bit b 0x1) gb }) = do_cb cbop gb" for cbop gb
  proof -
    define k y x where "k = unat cbop mod 8" "y = unat cbop div 8 mod 8" "x = unat cbop div 64"
    have k: "k < 8" "y < 8" "x < 4" unfolding k_y_x_def using cb_fields [of cbop] by simp_all
    have uy: "unat (of_nat y :: u8) = y" using k(2) by (simp add: unat_of_nat take_bit_nat_eq_self)
    have w6: "gb_cb_writeback 6 v g = put8 (r8_of 6) v g" for v g
      using cb_writeback_spec [of 6 v g] by simp
    have bit: "drop_bit y v AND 1 = 0 \<longleftrightarrow> \<not> bit v y" for v :: u8
      by (simp add: and_one_eq odd_iff_mod_2_eq_one bit_iff_odd_drop_bit)
    have set: "v OR 2 ^ y = set_bit y v" for v :: u8
      by (simp add: set_bit_eq_or push_bit_of_1)
    show ?thesis
      using cb_fields [of cbop] k(3) unfolding k_y_x_def [symmetric] less_4
      by (elim conjE disjE)
         (simp_all add: do_cb_def Let_def case_prod_unfold k_y_x_def [symmetric] uy bit set w6 cb_reset_bit [OF k(2)]
           cb_shift_spec [OF k(2)] cb_operand_spec [OF k(1)] cb_writeback_spec [OF k(1)] r8_of_M [OF k(1)] del: of_nat_div)
  qed
  then show ?thesis by (simp add: gb_execute_cb_def Let_def)
qed

section \<open>The opcodes\<close>

text \<open>The memory does not depend on the registers of the processor.\<close>

lemma gb_rom_read_regs [simp]:
  "gb_rom_read (gb\<lparr>reg_a := v0\<rparr>) addr = gb_rom_read gb addr"
  "gb_rom_read (gb\<lparr>reg_b := v1\<rparr>) addr = gb_rom_read gb addr"
  "gb_rom_read (gb\<lparr>reg_c := v2\<rparr>) addr = gb_rom_read gb addr"
  "gb_rom_read (gb\<lparr>reg_d := v3\<rparr>) addr = gb_rom_read gb addr"
  "gb_rom_read (gb\<lparr>reg_e := v4\<rparr>) addr = gb_rom_read gb addr"
  "gb_rom_read (gb\<lparr>reg_h := v5\<rparr>) addr = gb_rom_read gb addr"
  "gb_rom_read (gb\<lparr>reg_l := v6\<rparr>) addr = gb_rom_read gb addr"
  "gb_rom_read (gb\<lparr>flag_z := v7\<rparr>) addr = gb_rom_read gb addr"
  "gb_rom_read (gb\<lparr>flag_n := v8\<rparr>) addr = gb_rom_read gb addr"
  "gb_rom_read (gb\<lparr>flag_h := v9\<rparr>) addr = gb_rom_read gb addr"
  "gb_rom_read (gb\<lparr>flag_c := v10\<rparr>) addr = gb_rom_read gb addr"
  "gb_rom_read (gb\<lparr>reg_sp := v11\<rparr>) addr = gb_rom_read gb addr"
  "gb_rom_read (gb\<lparr>reg_pc := v12\<rparr>) addr = gb_rom_read gb addr"
  by (simp_all add: gb_rom_read_def)

lemma gb_io_read_regs [simp]:
  "gb_io_read (gb\<lparr>reg_a := v0\<rparr>) r = gb_io_read gb r"
  "gb_io_read (gb\<lparr>reg_b := v1\<rparr>) r = gb_io_read gb r"
  "gb_io_read (gb\<lparr>reg_c := v2\<rparr>) r = gb_io_read gb r"
  "gb_io_read (gb\<lparr>reg_d := v3\<rparr>) r = gb_io_read gb r"
  "gb_io_read (gb\<lparr>reg_e := v4\<rparr>) r = gb_io_read gb r"
  "gb_io_read (gb\<lparr>reg_h := v5\<rparr>) r = gb_io_read gb r"
  "gb_io_read (gb\<lparr>reg_l := v6\<rparr>) r = gb_io_read gb r"
  "gb_io_read (gb\<lparr>flag_z := v7\<rparr>) r = gb_io_read gb r"
  "gb_io_read (gb\<lparr>flag_n := v8\<rparr>) r = gb_io_read gb r"
  "gb_io_read (gb\<lparr>flag_h := v9\<rparr>) r = gb_io_read gb r"
  "gb_io_read (gb\<lparr>flag_c := v10\<rparr>) r = gb_io_read gb r"
  "gb_io_read (gb\<lparr>reg_sp := v11\<rparr>) r = gb_io_read gb r"
  "gb_io_read (gb\<lparr>reg_pc := v12\<rparr>) r = gb_io_read gb r"
  by (simp_all add: gb_io_read_def)

lemma gb_cart_read_regs [simp]:
  "gb_cart_read (gb\<lparr>reg_a := v0\<rparr>) addr = gb_cart_read gb addr"
  "gb_cart_read (gb\<lparr>reg_b := v1\<rparr>) addr = gb_cart_read gb addr"
  "gb_cart_read (gb\<lparr>reg_c := v2\<rparr>) addr = gb_cart_read gb addr"
  "gb_cart_read (gb\<lparr>reg_d := v3\<rparr>) addr = gb_cart_read gb addr"
  "gb_cart_read (gb\<lparr>reg_e := v4\<rparr>) addr = gb_cart_read gb addr"
  "gb_cart_read (gb\<lparr>reg_h := v5\<rparr>) addr = gb_cart_read gb addr"
  "gb_cart_read (gb\<lparr>reg_l := v6\<rparr>) addr = gb_cart_read gb addr"
  "gb_cart_read (gb\<lparr>flag_z := v7\<rparr>) addr = gb_cart_read gb addr"
  "gb_cart_read (gb\<lparr>flag_n := v8\<rparr>) addr = gb_cart_read gb addr"
  "gb_cart_read (gb\<lparr>flag_h := v9\<rparr>) addr = gb_cart_read gb addr"
  "gb_cart_read (gb\<lparr>flag_c := v10\<rparr>) addr = gb_cart_read gb addr"
  "gb_cart_read (gb\<lparr>reg_sp := v11\<rparr>) addr = gb_cart_read gb addr"
  "gb_cart_read (gb\<lparr>reg_pc := v12\<rparr>) addr = gb_cart_read gb addr"
  by (simp_all add: gb_cart_read_def gb_cart_ram_read_def)

lemma gb_high_read_regs [simp]:
  "gb_high_read (gb\<lparr>reg_a := v0\<rparr>) addr = gb_high_read gb addr"
  "gb_high_read (gb\<lparr>reg_b := v1\<rparr>) addr = gb_high_read gb addr"
  "gb_high_read (gb\<lparr>reg_c := v2\<rparr>) addr = gb_high_read gb addr"
  "gb_high_read (gb\<lparr>reg_d := v3\<rparr>) addr = gb_high_read gb addr"
  "gb_high_read (gb\<lparr>reg_e := v4\<rparr>) addr = gb_high_read gb addr"
  "gb_high_read (gb\<lparr>reg_h := v5\<rparr>) addr = gb_high_read gb addr"
  "gb_high_read (gb\<lparr>reg_l := v6\<rparr>) addr = gb_high_read gb addr"
  "gb_high_read (gb\<lparr>flag_z := v7\<rparr>) addr = gb_high_read gb addr"
  "gb_high_read (gb\<lparr>flag_n := v8\<rparr>) addr = gb_high_read gb addr"
  "gb_high_read (gb\<lparr>flag_h := v9\<rparr>) addr = gb_high_read gb addr"
  "gb_high_read (gb\<lparr>flag_c := v10\<rparr>) addr = gb_high_read gb addr"
  "gb_high_read (gb\<lparr>reg_sp := v11\<rparr>) addr = gb_high_read gb addr"
  "gb_high_read (gb\<lparr>reg_pc := v12\<rparr>) addr = gb_high_read gb addr"
  by (simp_all add: gb_high_read_def)

lemma gb_read_regs [simp]:
  "gb_read (gb\<lparr>reg_a := v0\<rparr>) addr = gb_read gb addr"
  "gb_read (gb\<lparr>reg_b := v1\<rparr>) addr = gb_read gb addr"
  "gb_read (gb\<lparr>reg_c := v2\<rparr>) addr = gb_read gb addr"
  "gb_read (gb\<lparr>reg_d := v3\<rparr>) addr = gb_read gb addr"
  "gb_read (gb\<lparr>reg_e := v4\<rparr>) addr = gb_read gb addr"
  "gb_read (gb\<lparr>reg_h := v5\<rparr>) addr = gb_read gb addr"
  "gb_read (gb\<lparr>reg_l := v6\<rparr>) addr = gb_read gb addr"
  "gb_read (gb\<lparr>flag_z := v7\<rparr>) addr = gb_read gb addr"
  "gb_read (gb\<lparr>flag_n := v8\<rparr>) addr = gb_read gb addr"
  "gb_read (gb\<lparr>flag_h := v9\<rparr>) addr = gb_read gb addr"
  "gb_read (gb\<lparr>flag_c := v10\<rparr>) addr = gb_read gb addr"
  "gb_read (gb\<lparr>reg_sp := v11\<rparr>) addr = gb_read gb addr"
  "gb_read (gb\<lparr>reg_pc := v12\<rparr>) addr = gb_read gb addr"
  by (simp_all add: gb_read_def Let_def cong: if_cong)


lemma hi8_pair16 [simp]: "hi8 (pair16 hi lo) = hi"
  by (rule bit_word_eqI) (auto simp: hi8_def pair16_def bit_simps dest: bit_imp_le_length)

lemma lo8_pair16 [simp]: "lo8 (pair16 hi lo) = lo"
  unfolding lo8_def u16_low_byte by (rule bit_word_eqI) (auto simp: pair16_def bit_simps)

lemma and_1_bit: "drop_bit n v AND 1 \<noteq> 0 \<longleftrightarrow> bit (v :: u8) n"
  by (simp add: and_one_eq odd_iff_mod_2_eq_one bit_iff_odd_drop_bit)

lemma af_byte:
  "(push_bit 7 (of_bool z) OR push_bit 6 (of_bool n) OR push_bit 5 (of_bool h) OR push_bit 4 (of_bool c) :: u8) =
   128 * of_bool z + 64 * of_bool n + 32 * of_bool h + 16 * of_bool c"
  by (cases z; cases n; cases h; cases c) simp_all

lemma odd_div: "odd (x div k) \<longleftrightarrow> k \<le> x" if "x < 2 * k" for x k :: nat
proof (cases "x < k")
  case False
  then have "x div k = 1" using that by (intro div_nat_eqI) simp_all
  then show ?thesis using False by simp
qed simp

lemma add_hl_hl:
  "ucast w + ucast w AND 0x1000 \<noteq> (0 :: u32) \<longleftrightarrow> 4096 \<le> unat (w :: u16) mod 4096 + unat w mod 4096"
  using half_carry16 [of w w] by simp

lemma add_hl_sp:
  "(ucast (w :: u16) AND 0xFFF) + (ucast (v :: u16) AND 0xFFF) AND 0x1000 \<noteq> (0 :: u32) \<longleftrightarrow>
   4096 \<le> unat w mod 4096 + unat v mod 4096"
proof -
  have low: "unat (x AND 0xFFF :: u32) = unat x mod 4096" for x
  proof -
    have "x AND 0xFFF = take_bit 12 x" by (simp add: take_bit_eq_mask mask_eq_exp_minus_1)
    then show ?thesis by (simp only: unsigned_take_bit_eq) (simp add: take_bit_eq_mod)
  qed
  have m: "unat w mod 4096 < 4096" "unat v mod 4096 < 4096" by simp_all
  then have s: "unat ((ucast w AND 0xFFF) + (ucast v AND 0xFFF) :: u32) = unat w mod 4096 + unat v mod 4096"
    by (subst unat_add_u32) (simp_all add: low hl32)
  then show ?thesis unfolding and_0x1000 bit_nat [of _ 12] s using m odd_div [of "unat w mod 4096 + unat v mod 4096" 4096] by simp
qed

lemma add_hl_carry: "t AND 0x10000 \<noteq> (0 :: u32) \<longleftrightarrow> 65536 \<le> unat t" if "unat t < 131072"
proof -
  have "t AND 0x10000 \<noteq> 0 \<longleftrightarrow> bit t 16" using and_exp_eq_0_iff_not_bit [of t 16] by simp
  also have "\<dots> \<longleftrightarrow> odd (unat t div 65536)" by (simp add: bit_nat)
  also have "\<dots> \<longleftrightarrow> 65536 \<le> unat t" using that by (simp add: odd_div)
  finally show ?thesis .
qed

text \<open>The opcodes whose operand is the accumulator itself have bodies of their own.\<close>

lemma do_alu_self:
  "gb\<lparr>reg_a := 0, flag_z := True, flag_n := True, flag_h := False, flag_c := False\<rparr> = do_alu Sub (reg_a gb) gb"
  "gb\<lparr>flag_z := (reg_a gb = 0), flag_n := False, flag_h := True, flag_c := False\<rparr> = do_alu And (reg_a gb) gb"
  "gb\<lparr>reg_a := 0, flag_z := True, flag_n := False, flag_h := False, flag_c := False\<rparr> = do_alu Xor (reg_a gb) gb"
  "gb\<lparr>flag_z := (reg_a gb = 0), flag_n := False, flag_h := False, flag_c := False\<rparr> = do_alu Or (reg_a gb) gb"
  "gb\<lparr>flag_z := True, flag_n := True, flag_h := False, flag_c := False\<rparr> = do_alu Cp (reg_a gb) gb"
  by (simp_all add: do_alu_def spec_sub_def)

lemma do_sbc_self:
  "gb\<lparr>reg_a := (if flag_c gb then 0xFF else 0x00), flag_z := \<not> flag_c gb, flag_n := True, flag_h := flag_c gb\<rparr> =
   do_alu Sbc (reg_a gb) gb"
  by (cases "flag_c gb") (simp_all add: do_alu_def spec_sub_def)

lemma add_hl_sp_carry:
  "ucast (w :: u16) + ucast (v :: u16) AND 0x10000 \<noteq> (0 :: u32) \<longleftrightarrow> 65536 \<le> unat w + unat v"
proof -
  have "unat (ucast w + ucast v :: u32) < 131072"
    using unat_less_u16 [of w] unat_less_u16 [of v] unfolding sum32 by linarith
  then show ?thesis by (simp only: add_hl_carry sum32)
qed

text \<open>A write to memory leaves the registers of the processor alone.\<close>

lemma gb_dma_registers: "gb_dma n i gb = Some gb' \<Longrightarrow> cpu_registers_s.truncate gb' = cpu_registers_s.truncate gb"
  by (induction n arbitrary: i gb) (auto simp: cpu_registers_s.truncate_def split: bind_splits)

lemma gb_write_registers:
  assumes "gb_write gb addr v = Some gb'"
  shows "cpu_registers_s.truncate gb' = cpu_registers_s.truncate gb"
proof -
  have io: "gb_io_write gb r v = Some gb' \<Longrightarrow> cpu_registers_s.truncate gb' = cpu_registers_s.truncate gb" for r
    by (auto simp: gb_io_write_def gb_lcdc_write_def Let_def cpu_registers_s.truncate_def
        dest!: gb_dma_registers split: if_splits)
  have control: "gb_control_write gb addr v = Some gb' \<Longrightarrow> cpu_registers_s.truncate gb' = cpu_registers_s.truncate gb"
    by (auto simp: gb_control_write_def gb_rom_bank_write_def mod_rom_banks_def Let_def cpu_registers_s.truncate_def
        split: if_splits)
  show ?thesis
    using assms by (auto simp: gb_write_def gb_high_write_def gb_cart_write_def gb_cart_ram_write_def Let_def
        cpu_registers_s.truncate_def dest: io control split: if_splits bind_splits)
qed

lemma gb_push_frame:
  assumes "gb_push v gb = Some gb'"
  shows "reg_a gb' = reg_a gb \<and> reg_c gb' = reg_c gb \<and> reg_e gb' = reg_e gb \<and> reg_l gb' = reg_l gb \<and>
    flag_z gb' = flag_z gb \<and> flag_n gb' = flag_n gb \<and> flag_h gb' = flag_h gb \<and> flag_c gb' = flag_c gb \<and>
    reg_pc gb' = reg_pc gb \<and> reg_sp gb' = reg_sp gb - 1"
  using gb_write_registers [of "gb\<lparr>reg_sp := reg_sp gb - 1\<rparr>"] assms
  by (simp add: gb_push_def cpu_registers_s.truncate_def)

lemmas decode_defs = decode_def decode0_def decode3_def r8_of_def r16_of_def stk_of_def ind_of_def cond_of_def alu_of_def
lemmas phrase_specs = gb_add_spec gb_adc_spec gb_sub_spec gb_sbc_spec gb_cp_spec gb_logic_spec gb_inc_spec gb_dec_spec
  gb_add_aa_spec gb_add_hl_spec sp_offset_spec
lemmas row_simps = fun_eq_iff decode_defs phrase_specs Let_def gb_done_def rot_facts rot_a [simplified] do_rot_def
  do_inc_def do_dec_def set_bc_def set_de_def set_hl_def gb_fetch_def gb_pop_def gb_imm16_def reg_hl_def

end
