(* ===== verification/Gb_Rows.thy ===== *)
theory Gb_Rows
  imports Gb_Equiv
begin

text \<open>
  The instruction switch of the Game Boy emulator against the reference semantics: each half row of
  eight cases agrees with the decoded instruction, hence the whole switch does.
\<close>

abbreviation row_ok :: "(u8 \<times> gb_op) list \<Rightarrow> bool" where
  "row_ok ops \<equiv> list_all (\<lambda>(opcode, f). f = exec (decode opcode)) ops"

lemma load_rows:
  "row_ok ops_40" "row_ok ops_48" "row_ok ops_50" "row_ok ops_58"
  "row_ok ops_60" "row_ok ops_68" "row_ok ops_70" "row_ok ops_78"
  by (auto simp: ops_40_def ops_48_def ops_50_def ops_58_def ops_60_def ops_68_def ops_70_def ops_78_def row_simps
      simp del: spec_rot.simps intro!: Option.bind_cong)

lemma low_rows:
  "row_ok ops_00" "row_ok ops_08" "row_ok ops_10" "row_ok ops_18"
  "row_ok ops_20"
  by (auto simp: ops_00_def ops_08_def ops_10_def ops_18_def ops_20_def row_simps
      simp del: spec_rot.simps intro!: Option.bind_cong)

lemma row_28:
  "row_ok ops_28"
  by (auto simp: ops_28_def row_simps add_hl_hl [simplified] sum32 [of w w for w, simplified] u32_high low16
      add16 [of w w for w, simplified] do_add_hl_def
      simp del: spec_rot.simps intro!: Option.bind_cong)

lemma row_30:
  "row_ok ops_30"
  by (auto simp: ops_30_def row_simps pair16_def or.commute
      simp del: spec_rot.simps intro!: Option.bind_cong)

lemma row_38:
  "row_ok ops_38"
  by (auto simp: ops_38_def row_simps add_hl_sp add_hl_sp_carry add16 do_add_hl_def
      simp del: spec_rot.simps intro!: Option.bind_cong)

lemma row_80:
  "row_ok ops_80"
  by (auto simp: ops_80_def row_simps do_alu_def spec_add_def half_carry [of a a False for a, simplified]
      sum_nat [of a a False for a, simplified] add_byte [of a a False for a, simplified] u16_zero u16_high u16_low_byte
      simp del: spec_rot.simps intro!: Option.bind_cong)

lemma carry_rows:
  "row_ok ops_88" "row_ok ops_D8"
  by (auto simp: ops_88_def ops_D8_def row_simps
      simp del: spec_rot.simps intro!: Option.bind_cong)

lemma borrow_rows:
  "row_ok ops_90" "row_ok ops_98" "row_ok ops_B8"
  by (auto simp: ops_90_def ops_98_def ops_B8_def row_simps do_alu_def spec_sub_def
      simp del: spec_rot.simps intro!: Option.bind_cong)

lemma logic_rows:
  "row_ok ops_A0" "row_ok ops_A8" "row_ok ops_B0"
  by (auto simp: ops_A0_def ops_A8_def ops_B0_def row_simps do_alu_def
      simp del: spec_rot.simps intro!: Option.bind_cong)

lemma row_C0:
  "row_ok ops_C0"
  by (auto simp: ops_C0_def row_simps do_alu_def spec_add_def alu_facts above nibble_sum [where cy = False, simplified]
      simp del: spec_rot.simps intro!: Option.bind_cong dest!: gb_push_frame)

lemma row_C8:
  "row_ok ops_C8"
  by (auto simp: ops_C8_def row_simps execute_cb_spec do_alu_def spec_add_def above nibble_sum [where cy = False, simplified]
      nibble_sum [where cy = True, simplified] byte_sum [where cy = False, simplified] byte_sum [where cy = True, simplified]
      simp del: spec_rot.simps intro!: Option.bind_cong)

lemma push_rows:
  "row_ok ops_D0" "row_ok ops_E0"
  by (auto simp: ops_D0_def ops_E0_def row_simps
      simp del: spec_rot.simps intro!: Option.bind_cong dest!: gb_push_frame)

lemma top_bit: "drop_bit 7 v = 0 \<longleftrightarrow> \<not> bit (v :: u8) 7"
  by (rule u8_exhaust [of "\<lambda>v. drop_bit 7 v = 0 \<longleftrightarrow> \<not> bit v 7"]) simp_all

lemma row_F0:
  "row_ok ops_F0"
  by (auto simp: ops_F0_def row_simps and_1_bit top_bit af_byte
      simp del: spec_rot.simps intro!: Option.bind_cong dest!: gb_push_frame)

lemma offset_rows:
  "row_ok ops_E8" "row_ok ops_F8"
  by (auto simp: ops_E8_def ops_F8_def row_simps do_sp_flags_def
      simp del: spec_rot.simps intro!: Option.bind_cong)

lemmas rows = low_rows row_28 row_30 row_38 load_rows row_80 carry_rows borrow_rows logic_rows row_C0 row_C8
  push_rows row_F0 offset_rows

lemma gb_ops_spec: "row_ok gb_ops"
  by (simp only: gb_ops_def list_all_append rows simp_thms)

text \<open>The opcodes without a case are the eleven that the processor does not have.\<close>

definition gb_invalid :: "u8 list" where
  "gb_invalid = [0xD3, 0xDB, 0xDD, 0xE3, 0xE4, 0xEB, 0xEC, 0xED, 0xF4, 0xFC, 0xFD]"

lemma gb_ops_keys:
  "map fst gb_ops = filter (\<lambda>opcode. opcode \<notin> set gb_invalid) (map word_of_int [0..255])"
  by (simp add: gb_ops_def ops_defs gb_invalid_def upto.simps)

lemma gb_invalid_decode: "list_all (\<lambda>opcode. decode opcode = Invalid) gb_invalid"
  by (simp add: gb_invalid_def decode_defs)

lemma gb_ops_none: "map_of gb_ops opcode = None \<Longrightarrow> decode opcode = Invalid"
proof -
  assume "map_of gb_ops opcode = None"
  then have "opcode \<notin> set (map fst gb_ops)" by (simp add: map_of_eq_None_iff)
  moreover have "opcode \<in> set (map word_of_int [0..255])"
    using uint_range_size [of opcode] by (intro image_eqI [of _ _ "uint opcode"] | simp add: word_size)+
  ultimately have "opcode \<in> set gb_invalid" unfolding gb_ops_keys by auto
  then show ?thesis using gb_invalid_decode by (auto simp: list_all_iff)
qed

lemma gb_switch_exec: "gb_switch opcode gb = exec (decode opcode) gb"
proof (cases "map_of gb_ops opcode")
  case None
  then show ?thesis by (simp add: gb_switch_def gb_ops_none)
next
  case (Some f)
  then have "(opcode, f) \<in> set gb_ops" by (rule map_of_SomeD)
  then have "f = exec (decode opcode)" using gb_ops_spec by (auto simp: list_all_iff)
  then show ?thesis using Some by (simp add: gb_switch_def)
qed

text \<open>
  C1: The instruction switch of the processor, with its 245 cases written out, is the decoded
  instruction set: for every opcode and every state the case of the switch computes the registers, the
  flags, the memory and the extra cycles of the instruction that the bit fields of the opcode name,
  and an opcode with no case leaves the state as it is.
\<close>

theorem gb_switch_decodes: "gb_switch opcode gb = exec (decode opcode) gb"
  by (rule gb_switch_exec)

end
