(* ===== verification/Gb_Safe.thy ===== *)
theory Gb_Safe
  imports Gb_Rows
begin

text \<open>
  Memory safety of the Game Boy emulator: an invariant of the state under which a step never reads
  or writes outside of an array and never divides by zero, and which every step keeps.
\<close>

section \<open>Computations that succeed\<close>

definition yields :: "'a option \<Rightarrow> ('a \<Rightarrow> bool) \<Rightarrow> bool" where
  "yields m P \<longleftrightarrow> (\<exists>x. m = Some x \<and> P x)"

lemma yields_Some [simp]: "yields (Some x) P \<longleftrightarrow> P x"
  by (simp add: yields_def)

lemma yields_None [simp]: "\<not> yields None P"
  by (simp add: yields_def)

lemma yields_bind [simp]: "yields (m \<bind> f) P \<longleftrightarrow> yields m (\<lambda>x. yields (f x) P)"
  by (cases m) simp_all

lemma yields_if [simp]: "yields (if b then m else n) P \<longleftrightarrow> (if b then yields m P else yields n P)"
  by simp

lemma yields_rd [simp]: "yields (rd xs i) P \<longleftrightarrow> i < length xs \<and> P (xs ! i)"
  by (simp add: rd_def)

lemma yields_wr [simp]: "yields (wr xs i v) P \<longleftrightarrow> i < length xs \<and> P (xs[i := v])"
  by (simp add: wr_def)

lemma yields_mono: "yields m P \<Longrightarrow> (\<And>x. P x \<Longrightarrow> Q x) \<Longrightarrow> yields m Q"
  by (auto simp: yields_def)

section \<open>The invariant\<close>

definition gb_arrays :: "gb_s \<Rightarrow> bool" where
  "gb_arrays gb \<longleftrightarrow>
     length (wram gb) = 0x2000 \<and> length (vram gb) = 0x2000 \<and> length (hram gb) = 0x100 \<and>
     length (oam gb) = 0xA0 \<and> length (cart_rtc gb) = 5 \<and> length (rom_data gb) = 0x80000 \<and>
     length (cart_ram_data gb) = 0x20000 \<and> length (bg_palette gb) = 4 \<and> length (sp_palette gb) = 8 \<and>
     length (video_fb gb) = 144 \<and> list_all (\<lambda>row. length row = 160) (video_fb gb)"

definition gb_banks :: "gb_s \<Rightarrow> bool" where
  "gb_banks gb \<longleftrightarrow>
     unat (num_rom_banks gb) \<le> 32 \<and> unat (selected_rom_bank gb) < unat (num_rom_banks gb) \<and>
     unat (num_ram_banks gb) \<le> 16 \<and> (mbc gb = 3 \<longrightarrow> cart_ram gb = 0)"

definition gb_lines :: "gb_s \<Rightarrow> bool" where
  "gb_lines gb \<longleftrightarrow>
     unat (LY gb) < 154 \<and> (lcd_mode gb \<noteq> LCD_VBLANK \<longrightarrow> unat (LY gb) < 144) \<and>
     unat (lcd_count gb) \<le> 456 \<and> unat (serial_count gb) < 4096"

text \<open>A pixel names one of the three palettes of \<^verbatim>\<open>video.c\<close>, and a background colour leaves bit 4 clear.\<close>

definition pixel_ok :: "u8 \<Rightarrow> bool" where
  "pixel_ok p \<longleftrightarrow> \<not> (bit p 4 \<and> bit p 5)"

definition gb_pixels :: "gb_s \<Rightarrow> bool" where
  "gb_pixels gb \<longleftrightarrow> list_all (\<lambda>c. \<not> bit c 4) (bg_palette gb) \<and> list_all (list_all pixel_ok) (video_fb gb)"

definition gb_wf :: "gb_s \<Rightarrow> bool" where
  "gb_wf gb \<longleftrightarrow> gb_arrays gb \<and> gb_banks gb \<and> gb_lines gb \<and> gb_pixels gb"

text \<open>With the contents of the cartridge and a bound on the divider, which the CB page moves ahead.\<close>

definition gb_ok :: "u8 list \<Rightarrow> nat \<Rightarrow> gb_s \<Rightarrow> bool" where
  "gb_ok rom d gb \<longleftrightarrow> gb_wf gb \<and> rom_data gb = rom \<and> unat (div_count gb) < d"

lemmas gb_wf_defs = gb_wf_def gb_arrays_def gb_banks_def gb_lines_def gb_pixels_def

text \<open>The invariant does not look at the registers of the processor.\<close>

lemma gb_ok_registers [simp]:
  "gb_ok rom d (gb\<lparr>reg_a := v\<rparr>) = gb_ok rom d gb" "gb_ok rom d (gb\<lparr>reg_b := v\<rparr>) = gb_ok rom d gb"
  "gb_ok rom d (gb\<lparr>reg_c := v\<rparr>) = gb_ok rom d gb" "gb_ok rom d (gb\<lparr>reg_d := v\<rparr>) = gb_ok rom d gb"
  "gb_ok rom d (gb\<lparr>reg_e := v\<rparr>) = gb_ok rom d gb" "gb_ok rom d (gb\<lparr>reg_h := v\<rparr>) = gb_ok rom d gb"
  "gb_ok rom d (gb\<lparr>reg_l := v\<rparr>) = gb_ok rom d gb" "gb_ok rom d (gb\<lparr>reg_sp := w\<rparr>) = gb_ok rom d gb"
  "gb_ok rom d (gb\<lparr>reg_pc := w\<rparr>) = gb_ok rom d gb" "gb_ok rom d (gb\<lparr>flag_z := b\<rparr>) = gb_ok rom d gb"
  "gb_ok rom d (gb\<lparr>flag_n := b\<rparr>) = gb_ok rom d gb" "gb_ok rom d (gb\<lparr>flag_h := b\<rparr>) = gb_ok rom d gb"
  "gb_ok rom d (gb\<lparr>flag_c := b\<rparr>) = gb_ok rom d gb" "gb_ok rom d (gb\<lparr>gb_halt := b\<rparr>) = gb_ok rom d gb"
  "gb_ok rom d (gb\<lparr>gb_ime := b\<rparr>) = gb_ok rom d gb" "gb_ok rom d (gb\<lparr>IF := v\<rparr>) = gb_ok rom d gb"
  by (simp_all add: gb_ok_def gb_wf_defs)

lemma gb_ok_pairs [simp]:
  "gb_ok rom d (set_bc w gb) = gb_ok rom d gb" "gb_ok rom d (set_de w gb) = gb_ok rom d gb"
  "gb_ok rom d (set_hl w gb) = gb_ok rom d gb"
  by (simp_all add: set_bc_def set_de_def set_hl_def)

text \<open>Nor at the registers of the devices, except for the line and the clocks.\<close>

lemma gb_ok_devices [simp]:
  "gb_ok rom d (gb\<lparr>P1 := v\<rparr>) = gb_ok rom d gb" "gb_ok rom d (gb\<lparr>SB := v\<rparr>) = gb_ok rom d gb"
  "gb_ok rom d (gb\<lparr>SC := v\<rparr>) = gb_ok rom d gb" "gb_ok rom d (gb\<lparr>DIV := v\<rparr>) = gb_ok rom d gb"
  "gb_ok rom d (gb\<lparr>TIMA := v\<rparr>) = gb_ok rom d gb" "gb_ok rom d (gb\<lparr>TMA := v\<rparr>) = gb_ok rom d gb"
  "gb_ok rom d (gb\<lparr>TAC := v\<rparr>) = gb_ok rom d gb" "gb_ok rom d (gb\<lparr>STAT := v\<rparr>) = gb_ok rom d gb"
  "gb_ok rom d (gb\<lparr>SCY := v\<rparr>) = gb_ok rom d gb" "gb_ok rom d (gb\<lparr>SCX := v\<rparr>) = gb_ok rom d gb"
  "gb_ok rom d (gb\<lparr>LYC := v\<rparr>) = gb_ok rom d gb" "gb_ok rom d (gb\<lparr>DMA := v\<rparr>) = gb_ok rom d gb"
  "gb_ok rom d (gb\<lparr>BGP := v\<rparr>) = gb_ok rom d gb" "gb_ok rom d (gb\<lparr>OBP0 := v\<rparr>) = gb_ok rom d gb"
  "gb_ok rom d (gb\<lparr>OBP1 := v\<rparr>) = gb_ok rom d gb" "gb_ok rom d (gb\<lparr>WY := v\<rparr>) = gb_ok rom d gb"
  "gb_ok rom d (gb\<lparr>WX := v\<rparr>) = gb_ok rom d gb" "gb_ok rom d (gb\<lparr>IE := v\<rparr>) = gb_ok rom d gb"
  "gb_ok rom d (gb\<lparr>LCDC := v\<rparr>) = gb_ok rom d gb" "gb_ok rom d (gb\<lparr>cart_ram_bank := v\<rparr>) = gb_ok rom d gb"
  "gb_ok rom d (gb\<lparr>enable_cart_ram := v\<rparr>) = gb_ok rom d gb" "gb_ok rom d (gb\<lparr>cart_mode_select := v\<rparr>) = gb_ok rom d gb"
  "gb_ok rom d (gb\<lparr>display_WY := v\<rparr>) = gb_ok rom d gb" "gb_ok rom d (gb\<lparr>window_clear := v\<rparr>) = gb_ok rom d gb"
  "gb_ok rom d (gb\<lparr>gb_bios_enable := b\<rparr>) = gb_ok rom d gb" "gb_ok rom d (gb\<lparr>gb_frame := b\<rparr>) = gb_ok rom d gb"
  "gb_ok rom d (gb\<lparr>frame_skip_count := b\<rparr>) = gb_ok rom d gb" "gb_ok rom d (gb\<lparr>interlace_count := b\<rparr>) = gb_ok rom d gb"
  "gb_ok rom d (gb\<lparr>tima_count := n\<rparr>) = gb_ok rom d gb"
  by (simp_all add: gb_ok_def gb_wf_defs)

lemma gb_ok_memory [simp]:
  "gb_ok rom d gb \<Longrightarrow> gb_ok rom d (gb\<lparr>wram := (wram gb)[i := v]\<rparr>)"
  "gb_ok rom d gb \<Longrightarrow> gb_ok rom d (gb\<lparr>vram := (vram gb)[i := v]\<rparr>)"
  "gb_ok rom d gb \<Longrightarrow> gb_ok rom d (gb\<lparr>hram := (hram gb)[i := v]\<rparr>)"
  "gb_ok rom d gb \<Longrightarrow> gb_ok rom d (gb\<lparr>oam := (oam gb)[i := v]\<rparr>)"
  "gb_ok rom d gb \<Longrightarrow> gb_ok rom d (gb\<lparr>cart_ram_data := (cart_ram_data gb)[i := v]\<rparr>)"
  "gb_ok rom d gb \<Longrightarrow> length bp = 4 \<Longrightarrow> list_all (\<lambda>c. \<not> bit c 4) bp \<Longrightarrow> gb_ok rom d (gb\<lparr>bg_palette := bp\<rparr>)"
  "gb_ok rom d gb \<Longrightarrow> length sp = 8 \<Longrightarrow> gb_ok rom d (gb\<lparr>sp_palette := sp\<rparr>)"
  by (auto simp: gb_ok_def gb_wf_defs)

lemma gb_ok_lengths:
  assumes "gb_ok rom d gb"
  shows "length (wram gb) = 0x2000" "length (vram gb) = 0x2000" "length (hram gb) = 0x100" "length (oam gb) = 0xA0"
    "length (rom_data gb) = 0x80000" "length (cart_ram_data gb) = 0x20000" "length (bg_palette gb) = 4"
    "length (sp_palette gb) = 8" "length (video_fb gb) = 144"
  using assms by (auto simp: gb_ok_def gb_wf_defs)

lemma gb_ok_blank [simp]: "gb_ok rom d gb \<Longrightarrow> gb_ok rom d (gb\<lparr>LY := 0\<rparr>)" "gb_ok rom d gb \<Longrightarrow> gb_ok rom d (gb\<lparr>lcd_count := 0\<rparr>)"
  by (auto simp: gb_ok_def gb_wf_defs)

section \<open>Memory\<close>

lemma page: "unat (drop_bit 12 addr :: u32) = unat addr div 4096"
  by (simp only: unat_drop_bit_eq) (simp add: drop_bit_eq_div)

lemma unat_and_1F: "unat (b AND 0x1F :: u8) = unat b mod 32"
proof -
  have "b AND 0x1F = take_bit 5 b" by (simp add: take_bit_eq_mask mask_eq_exp_minus_1)
  then show ?thesis by (simp only: unsigned_take_bit_eq) (simp add: take_bit_eq_mod)
qed

lemma unat_u8_u32: "unat (ucast (b :: u8) :: u32) = unat b"
  by (simp add: unsigned_ucast_eq take_bit_nat_eq_self_iff order.strict_trans [OF unat_less_u8])

lemma bank_index:
  assumes "unat (x :: u32) < s" "unat (b :: u8) < n" "n * s \<le> 0x200000" "unat c = s"
  shows "unat (x + ucast b * c) < n * s"
proof -
  have "Suc (unat b) * s \<le> n * s" using assms(2) by (intro mult_right_mono) auto
  then have b: "unat b * s + s \<le> n * s" by simp
  then have "unat b * s < 4294967296" using assms(3) by linarith
  then have m: "unat (ucast b * c) = unat b * s"
    using assms(4) by (subst unat_mult_lem [THEN iffD1]) (simp_all add: unat_u8_u32)
  moreover have "unat x + unat b * s < 4294967296" using assms(1,3) b by linarith
  ultimately have "unat (x + ucast b * c) = unat x + unat b * s" by (simp add: unat_add_u32)
  then show ?thesis using assms(1) b by linarith
qed

lemma unat_sub_nat: "unat k \<le> unat addr \<Longrightarrow> unat (addr - k :: u32) = unat addr - unat k"
  by (simp add: unat_sub word_le_nat_alt)

lemma gb_rom_bank_read:
  assumes "gb_wf gb" "unat (b :: u8) < 32" "0x4000 \<le> unat addr" "unat addr < 0x8000"
  shows "\<exists>v. gb_rom_read gb (addr + (ucast b - 1) * 0x4000) = Some v"
proof -
  have "addr + (ucast b - 1) * 0x4000 = addr - 0x4000 + ucast b * 0x4000" by (simp add: algebra_simps)
  moreover have "unat (addr - 0x4000 + ucast b * 0x4000) < 32 * 0x4000"
    by (rule bank_index) (use assms(2-) in \<open>simp_all add: unat_sub_nat\<close>)
  ultimately show ?thesis using assms(1) by (simp only: gb_rom_read_def gb_wf_def gb_arrays_def) simp
qed

lemma cart_ram_index:
  assumes "0xA000 \<le> unat addr" "unat addr < 0xC000" "unat n \<le> 16" "b < (n :: u8)"
  shows "unat (addr - 0xA000 + ucast b * 0x2000 :: u32) < 0x20000"
proof -
  have "unat (addr - 0xA000 + ucast b * 0x2000 :: u32) < 16 * 0x2000"
    by (rule bank_index) (use assms in \<open>simp_all add: unat_sub_nat word_less_nat_alt\<close>)
  then show ?thesis by simp
qed

lemma gb_cart_read_total:
  assumes "gb_wf gb" "0xA000 \<le> unat addr" "unat addr < 0xC000"
  shows "\<exists>v. gb_cart_read gb addr = Some v"
proof -
  have "unat (addr - 0xA000) < 0x20000"
    using assms(2,3) by (simp add: unat_sub_nat)
  then show ?thesis using assms cart_ram_index [OF assms(2,3)]
    by (auto simp: gb_cart_read_def gb_cart_ram_read_def gb_wf_defs)
qed

lemma gb_high_read_total:
  assumes "gb_wf gb" "0xF000 \<le> unat addr" "unat addr < 0x10000"
  shows "\<exists>v. gb_high_read gb addr = Some v"
  using assms by (auto simp: gb_high_read_def gb_wf_def gb_arrays_def word_less_nat_alt word_le_nat_alt unat_sub_nat)

lemma page_le: "drop_bit 12 addr \<le> (k :: u32) \<longleftrightarrow> unat addr < (unat k + 1) * 4096"
  unfolding word_le_nat_alt page using div_less_iff_less_mult [of 4096 "unat addr" "unat k + 1"] by (simp add: less_Suc_eq_le)

lemma page_eq: "drop_bit 12 addr = (k :: u32) \<longleftrightarrow> unat k * 4096 \<le> unat addr \<and> unat addr < (unat k + 1) * 4096"
  unfolding word_unat_eq_iff page
  by (auto simp: div_less_iff_less_mult [symmetric] less_eq_div_iff_mult_less_eq [symmetric] less_Suc_eq_le)

lemma gb_read_total:
  assumes "gb_wf gb"
  shows "\<exists>v. gb_read gb addr = Some v"
proof -
  have "unat (selected_rom_bank gb) < 32" "unat (selected_rom_bank gb AND 0x1F) < 32"
    using assms by (simp_all add: gb_wf_defs unat_and_1F)
  then show ?thesis
    using assms gb_rom_bank_read [OF assms, of _ addr] gb_cart_read_total [OF assms, of addr] gb_high_read_total [OF assms, of addr]
    by (auto simp: gb_read_def Let_def page_le page_eq gb_rom_read_def unat_sub_nat gb_wf_def gb_arrays_def)
qed

text \<open>A read is a value whatever the address, so a fetch and a pop succeed.\<close>

lemma yields_read [simp]: "gb_ok rom d gb \<Longrightarrow> yields (gb_read gb addr) P \<longleftrightarrow> P (the (gb_read gb addr))"
  using gb_read_total [of gb addr] by (auto simp: yields_def gb_ok_def)

lemma mod_rom_banks_ok: "gb_ok rom d gb \<Longrightarrow> yields (mod_rom_banks gb b) (gb_ok rom d)"
proof -
  assume ok: "gb_ok rom d gb"
  let ?r = "(ucast b :: u16) mod num_rom_banks gb"
  have n: "0 < unat (num_rom_banks gb)" "unat (num_rom_banks gb) \<le> 32" using ok by (auto simp: gb_ok_def gb_wf_defs)
  then have r: "unat ?r < unat (num_rom_banks gb)" by (simp add: unat_mod_distrib)
  then have "unat (ucast ?r :: u8) = unat ?r"
    using n by (simp only: unsigned_ucast_eq) (simp add: take_bit_nat_eq_self)
  moreover have "num_rom_banks gb \<noteq> 0" using n by auto
  ultimately show ?thesis using ok r by (auto simp: mod_rom_banks_def gb_ok_def gb_wf_defs)
qed

lemma gb_control_write_ok: "gb_ok rom d gb \<Longrightarrow> yields (gb_control_write gb addr v) (gb_ok rom d)"
  by (simp add: gb_control_write_def gb_rom_bank_write_def Let_def mod_rom_banks_ok)

lemma gb_cart_write_ok:
  assumes "gb_ok rom d gb" "0xA000 \<le> unat addr" "unat addr < 0xC000"
  shows "yields (gb_cart_write gb addr v) (gb_ok rom d)"
proof -
  have "unat (addr - 0xA000) < 0x20000"
    using assms(2,3) by (simp add: unat_sub_nat)
  moreover have "mbc gb = 3 \<longrightarrow> cart_ram gb = 0" "unat (num_ram_banks gb) \<le> 16"
    using assms(1) by (simp_all add: gb_ok_def gb_wf_defs)
  ultimately show ?thesis using assms(1) cart_ram_index [OF assms(2,3)]
    by (auto simp: gb_cart_write_def gb_cart_ram_write_def gb_ok_lengths [OF assms(1)])
qed

lemma gb_dma_ok: "gb_ok rom d gb \<Longrightarrow> n + unat i \<le> 160 \<Longrightarrow> yields (gb_dma n i gb) (gb_ok rom d)"
proof (induction n arbitrary: i gb)
  case (Suc n)
  then have "unat (i + 1) = Suc (unat i)" by (simp add: unat_word_ariths)
  moreover have "unat i < length (oam gb)" using Suc.prems by (simp add: gb_ok_lengths)
  ultimately show ?case using Suc by simp
qed simp

lemma gb_io_write_ok: "gb_ok rom d gb \<Longrightarrow> yields (gb_io_write gb r v) (gb_ok rom d)"
  by (simp add: gb_io_write_def gb_lcdc_write_def palette4_def bit_and_iff Let_def gb_dma_ok gb_ok_lengths)

lemma gb_high_write_ok:
  assumes "gb_ok rom d gb" "0xF000 \<le> unat addr" "unat addr < 0x10000"
  shows "yields (gb_high_write gb addr v) (gb_ok rom d)"
  using assms by (simp add: gb_high_write_def gb_io_write_ok gb_ok_lengths [OF assms(1)] word_less_nat_alt word_le_nat_alt unat_sub_nat)

lemma gb_write_ok: 
  assumes "gb_ok rom d gb"
  shows "yields (gb_write gb addr v) (gb_ok rom d)"
  using assms gb_cart_write_ok [of rom d gb addr v] gb_high_write_ok [of rom d gb addr v]
  by (auto simp: gb_write_def Let_def gb_control_write_ok page_le page_eq unat_sub_nat gb_ok_lengths [OF assms])

section \<open>Instructions\<close>

lemma yields_fetch [simp]:
  "gb_ok rom d gb \<Longrightarrow>
   yields (gb_fetch gb) P \<longleftrightarrow> P (the (gb_read gb (ucast (reg_pc gb))), gb\<lparr>reg_pc := reg_pc gb + 1\<rparr>)"
  by (simp add: gb_fetch_def)

lemma yields_pop [simp]:
  "gb_ok rom d gb \<Longrightarrow>
   yields (gb_pop gb) P \<longleftrightarrow> P (the (gb_read gb (ucast (reg_sp gb))), gb\<lparr>reg_sp := reg_sp gb + 1\<rparr>)"
  by (simp add: gb_pop_def)

lemma yields_write [intro]:
  "gb_ok rom d gb \<Longrightarrow> (\<And>gb'. gb_ok rom d gb' \<Longrightarrow> P gb') \<Longrightarrow> yields (gb_write gb addr v) P"
  using gb_write_ok by (rule yields_mono)

lemma yields_push [intro]:
  "gb_ok rom d gb \<Longrightarrow> (\<And>gb'. gb_ok rom d gb' \<Longrightarrow> P gb') \<Longrightarrow> yields (gb_push v gb) P"
  by (auto simp: gb_push_def Let_def)

lemma yields_get8: "gb_ok rom d gb \<Longrightarrow> yields (get8 r gb) P \<longleftrightarrow> P (the (get8 r gb))"
  by (cases r) simp_all

lemma yields_put8 [intro]:
  "gb_ok rom d gb \<Longrightarrow> (\<And>gb'. gb_ok rom d gb' \<Longrightarrow> P gb') \<Longrightarrow> yields (put8 r v gb) P"
  by (cases r) auto

lemma gb_ok_phrases [simp]:
  "gb_ok rom d (do_alu f v gb) = gb_ok rom d gb" "gb_ok rom d (put16 p w gb) = gb_ok rom d gb"
  "gb_ok rom d (ind_step i gb) = gb_ok rom d gb" "gb_ok rom d (do_inc v gb) = gb_ok rom d gb"
  "gb_ok rom d (do_dec v gb) = gb_ok rom d gb" "gb_ok rom d (do_add_hl w gb) = gb_ok rom d gb"
  "gb_ok rom d (do_sp_flags v gb) = gb_ok rom d gb" "gb_ok rom d (stk_set s v v' gb) = gb_ok rom d gb"
  "gb_ok rom d (snd (do_rot g v gb)) = gb_ok rom d gb" "gb_ok rom d (gb_daa gb) = gb_ok rom d gb"
  by (cases p; cases i; cases s;
      simp add: do_alu_def do_inc_def do_dec_def do_add_hl_def do_sp_flags_def do_rot_def gb_daa_def Let_def
        case_prod_unfold)+

lemma gb_ok_weaken: "gb_ok rom d gb \<Longrightarrow> d \<le> d' \<Longrightarrow> gb_ok rom d' gb"
  by (simp add: gb_ok_def)

lemma do_cb_ok:
  assumes "gb_ok rom d gb"
  shows "yields (do_cb cbop gb) (gb_ok rom (d + 8))"
proof -
  have "unat (div_count gb + 8) \<le> unat (div_count gb) + 8" by (simp add: unat_word_ariths)
  then have "gb_ok rom (d + 8) (gb\<lparr>div_count := div_count gb + 8\<rparr>)" "gb_ok rom (d + 8) gb"
    using assms by (auto simp: gb_ok_def gb_wf_defs)
  then show ?thesis
    by (auto simp: do_cb_def Let_def case_prod_unfold yields_get8)
qed

definition op_ok :: "u8 list \<Rightarrow> nat \<Rightarrow> gb_s \<times> u8 \<Rightarrow> bool" where
  "op_ok rom d = (\<lambda>(gb, extra). gb_ok rom d gb \<and> unat extra \<le> 12)"

lemma yields_done [simp]: "yields (gb_done gb) P \<longleftrightarrow> P (gb, 0)"
  by (simp add: gb_done_def)

lemma exec_ok:
  assumes "gb_ok rom d gb"
  shows "yields (exec i gb) (op_ok rom (d + 8))"
proof (cases "i = Cb")
  case True
  then show ?thesis using assms do_cb_ok [of rom d] 
    by (auto simp: op_ok_def intro: yields_mono)
next
  case False
  have "yields (exec i gb) (op_ok rom d)"
    using False assms by (cases i) (auto simp: op_ok_def yields_get8 gb_imm16_def gb_pop16_def gb_jr_def gb_jr_if_def gb_jp_if_def
       gb_call_def gb_call_if_def gb_ret_def gb_ret_if_def gb_rst_def gb_push_pc_def Let_def case_prod_unfold)
  then show ?thesis by (rule yields_mono) (auto simp: op_ok_def elim: gb_ok_weaken)
qed

section \<open>A sample state\<close>

text \<open>A state to apply the theorems to: memory filled with zeros, two ROM banks, the display on.\<close>

definition gb_blank :: gb_s where
  "gb_blank =
     \<lparr>reg_a = 0, reg_b = 0, reg_c = 0, reg_d = 0, reg_e = 0, reg_h = 0, reg_l = 0,
      flag_z = False, flag_n = False, flag_h = False, flag_c = False, reg_sp = 0xFFFE, reg_pc = 0x100,
      TIMA = 0, TMA = 0, DIV = 0, TAC = 0, LCDC = 0x91, STAT = 0, SCY = 0, SCX = 0, LY = 0, LYC = 0, DMA = 0,
      BGP = 0, OBP0 = 0, OBP1 = 0, WY = 0, WX = 0, P1 = 0, SB = 0, SC = 0, IF = 0, IE = 0,
      lcd_count = 0, div_count = 0, tima_count = 0, serial_count = 0,
      bg_palette = replicate 4 0, sp_palette = replicate 8 0, window_clear = 0, display_WY = 0,
      frame_skip_count = False, interlace_count = False, interlace = False, frame_skip = False, joypad = 0xFF,
      video_fb = replicate 144 (replicate 160 0),
      gb_serial_transfer = None, gb_halt = False, gb_ime = False, gb_bios_enable = False, gb_frame = False,
      lcd_mode = LCD_HBLANK, mbc = 0, cart_ram = 0, num_rom_banks = 2, num_ram_banks = 0, selected_rom_bank = 1,
      cart_ram_bank = 0, enable_cart_ram = 0, cart_mode_select = 0, cart_rtc = replicate 5 0,
      wram = replicate 0x2000 0, vram = replicate 0x2000 0, hram = replicate 0x100 0, oam = replicate 0xA0 0,
      rom_data = replicate 0x80000 0, cart_ram_data = replicate 0x20000 0\<rparr>"

lemma gb_blank_wf: "gb_wf gb_blank"
  by (simp add: gb_blank_def gb_wf_defs pixel_ok_def list_all_iff)

end
