(* ===== verification/Gb_Draw.thy ===== *)
theory Gb_Draw
  imports Gb_Safe
begin

text \<open>
  The picture of the Game Boy emulator: a line of the background and of the window against the tile
  maps, and the safety of \<^verbatim>\<open>__gb_draw_line\<close> with its sprites.
\<close>

section \<open>The picture\<close>

lemma unat_shift3: "unat (drop_bit 3 x :: u8) < 32"
  using unat_less_u8 [of x] by (simp only: unat_drop_bit_eq) (simp add: drop_bit_eq_div div_less_iff_less_mult)

definition colour :: "u8 \<Rightarrow> u8 \<Rightarrow> u8" where
  "colour t1 t2 = (t1 AND 1) OR push_bit 1 (t2 AND 1)"

lemma colour_less: "unat (colour t1 t2) < 4"
proof -
  have "(v :: u8) AND 1 = of_bool (odd v)" for v by (simp add: and_one_eq mod_2_eq_odd)
  then have "colour t1 t2 = of_bool (odd t1) OR push_bit 1 (of_bool (odd t2))" by (simp only: colour_def)
  then show ?thesis by (cases "odd t1"; cases "odd t2") simp_all
qed

lemma unat_u8_u16: "unat (ucast (b :: u8) :: u16) = unat b"
  by (simp add: unsigned_ucast_eq take_bit_nat_eq_self_iff order.strict_trans [OF unat_less_u8])

lemma unat_tile_addr: 
  assumes "unat py \<le> 7"
  shows "unat (tile_addr gb idx py) =
    (if LCDC gb AND 0x10 \<noteq> 0 then 16 * unat idx else 2048 + (unat idx + 128) mod 256 * 16) + 2 * unat py"
proof -
  have "(unat idx + 128) mod 256 * 16 \<le> 255 * 16" by (intro mult_right_mono) auto
  then show ?thesis
  using assms unat_less_u8 [of idx] by (auto simp: tile_addr_def unat_word_ariths unat_u8_u16 unat_mod_distrib simp del: unat_less_u8)
qed

lemma tile_addr_less: 
  assumes "unat py \<le> 7"
  shows "Suc (unat (tile_addr gb idx py)) < 0x2000"
proof -
  have "(unat idx + 128) mod 256 * 16 \<le> 255 * 16" by (intro mult_right_mono) auto
  then show ?thesis
    using assms unat_less_u8 [of idx] unfolding unat_tile_addr [OF assms] by (auto simp del: unat_less_u8)
qed

text \<open>
  The columns of a tile map: the two bytes of a tile row, and the pixel that a column of the map shows.
\<close>

definition tile_bytes :: "gb_s \<Rightarrow> u16 \<Rightarrow> u8 \<Rightarrow> u8 \<Rightarrow> u8 \<times> u8" where
  "tile_bytes gb base py k =
     (let tile = unat (tile_addr gb (vram gb ! (unat base + unat k)) py) in (vram gb ! tile, vram gb ! (tile + 1)))"

definition shade :: "gb_s \<Rightarrow> u8 \<times> u8 \<Rightarrow> nat \<Rightarrow> u8" where
  "shade gb b n = (bg_palette gb ! unat (colour (drop_bit n (fst b)) (drop_bit n (snd b)))) OR 0x20"

definition map_pixel :: "gb_s \<Rightarrow> u16 \<Rightarrow> u8 \<Rightarrow> u8 \<Rightarrow> u8" where
  "map_pixel gb base py x = shade gb (tile_bytes gb base py (drop_bit 3 x)) (7 - unat x mod 8)"

text \<open>What the column loop has still to draw: the rest of the tile in hand, then the map.\<close>

definition loop_pixel :: "gb_s \<Rightarrow> u8 \<Rightarrow> u16 \<Rightarrow> u8 \<Rightarrow> u8 \<Rightarrow> u8 \<times> u8 \<Rightarrow> nat \<Rightarrow> nat \<Rightarrow> u8" where
  "loop_pixel gb c base py px t n y =
     (if n - 1 - y < 8 - unat px then shade gb t (n - 1 - y) else map_pixel gb base py (of_nat y + c))"

lemma shade_shift: "shade gb (drop_bit (Suc 0) t1, drop_bit (Suc 0) t2) n = shade gb (t1, t2) (Suc n)"
  by (simp add: shade_def)

lemma unat_shift3': "unat (drop_bit 3 x :: u8) = unat x div 8"
  by (simp only: unat_drop_bit_eq) (simp add: drop_bit_eq_div)

lemma same_tile:
  assumes "j \<le> unat (x :: u8) mod 8"
  shows "drop_bit 3 (x - of_nat j) = drop_bit 3 x" "unat (x - of_nat j) mod 8 = unat x mod 8 - j"
proof -
  define q r where "q = unat x div 8" and "r = unat x mod 8"
  have x: "unat x = 8 * q + r" "r < 8" "j \<le> r" using assms by (simp_all add: q_def r_def)
  then have u: "unat (x - of_nat j) = 8 * q + (r - j)"
    by (simp add: unat_sub word_le_nat_alt unat_of_nat take_bit_nat_eq_self)
  have "(8 * q + (r - j)) div 8 = q" "(8 * q + (r - j)) mod 8 = r - j"
    using x(2) by simp_all
  then show "drop_bit 3 (x - of_nat j) = drop_bit 3 x" "unat (x - of_nat j) mod 8 = unat x mod 8 - j"
    unfolding word_unat_eq_iff unat_shift3' u q_def r_def by simp_all
qed

text \<open>Within a tile the pixels are the bits of the two bytes in hand.\<close>

lemma map_pixel_near:
  assumes "j \<le> unat x mod 8"
  shows "map_pixel gb base py (x - of_nat j) =
    shade gb (tile_bytes gb base py (drop_bit 3 x)) (7 - unat x mod 8 + j)"
proof -
  have "7 - (unat x mod 8 - j) = 7 - unat x mod 8 + j"
    using assms mod_less_divisor [of 8 "unat x"] by (simp del: mod_less_divisor)
  then show ?thesis unfolding map_pixel_def same_tile [OF assms] by simp
qed

text \<open>One column: a new tile when the one in hand is used up, then a pixel.\<close>

definition next_tile :: "gb_s \<Rightarrow> u8 \<Rightarrow> u16 \<Rightarrow> u8 \<Rightarrow> u8 \<Rightarrow> u8 \<Rightarrow> u8 \<times> u8 \<Rightarrow> u8 \<times> u8 \<times> u8" where
  "next_tile gb c base py x px t =
     (if px = 8 then (0, tile_bytes gb base py (drop_bit 3 (x + c))) else (px, t))"

lemma tile_loop_step:
  assumes mem: "length (vram gb) = 0x2000" "length (bg_palette gb) = 4" "unat base \<le> 0x1FE0" "unat py \<le> 7"
    and xof: "\<And>x. xof x = x + c" and "x \<noteq> stop" "unat x < length pixels"
    and t: "next_tile gb c base py x px (t1, t2) = (px', t1', t2')"
  shows "tile_loop gb xof base py stop x px t1 t2 pixels =
    tile_loop gb xof base py stop (x - 1) (px' + 1) (drop_bit 1 t1') (drop_bit 1 t2')
      (pixels[unat x := shade gb (t1', t2') 0])"
proof -
  have "unat base + unat (drop_bit 3 (x + c)) < 0x2000" using mem(3) unat_shift3 [of "x + c"] by simp
  then have "(if px = 8 then
       do { idx \<leftarrow> rd (vram gb) (unat base + unat (drop_bit 3 (xof x)));
            let tile = tile_addr gb idx py;
            t1 \<leftarrow> rd (vram gb) (unat tile);
            t2 \<leftarrow> rd (vram gb) (unat tile + 1);
            Some (0, t1, t2) }
     else Some (px, t1, t2)) = Some (px', t1', t2')"
    using t tile_addr_less [OF mem(4), of gb] mem(1)
    by (auto simp: next_tile_def tile_bytes_def Let_def xof Suc_lessD split: if_splits)
  then show ?thesis
    using assms(6,7) colour_less [of t1' t2']
    by (subst tile_loop.simps) (simp add: shade_def colour_def mem(2) del: push_bit_and)
qed

text \<open>The pixels still to draw after a column.\<close>

lemma loop_pixel_step:
  assumes "(unat px + unat (of_nat m + c :: u8)) mod 8 = 7" "unat px \<le> 8" "y \<le> m"
    and t: "next_tile gb c base py (of_nat m) px (t1, t2) = (px', t1', t2')"
  shows "loop_pixel gb c base py px (t1, t2) (Suc m) y =
    (if y = m then shade gb (t1', t2') 0
     else loop_pixel gb c base py (px' + 1) (drop_bit 1 t1', drop_bit 1 t2') m y)"
proof (cases "px = 8")
  case False
  then have "unat px \<noteq> 8" by (auto dest: unat_eq_of_nat)
  then have "unat px < 8" using assms(2) by simp
  moreover have "unat (px + 1) = Suc (unat px)" using calculation by (simp add: unat_word_ariths)
  moreover have "px' = px" "t1' = t1" "t2' = t2" using t False by (simp_all add: next_tile_def)
  moreover have "Suc (m - Suc y) = m - y" if "y \<noteq> m" using assms(3) that by simp
  ultimately show ?thesis using assms(3) by (auto simp: loop_pixel_def shade_shift)
next
  case True
  let ?x = "of_nat m + c :: u8"
  have x: "unat ?x mod 8 = 7" using assms(1) True by simp
  have t': "px' = 0" "(t1', t2') = tile_bytes gb base py (drop_bit 3 ?x)" using t True by (simp_all add: next_tile_def)
  have near: "map_pixel gb base py (of_nat y + c) = shade gb (t1', t2') (m - y)" if "m - y \<le> 7"
  proof -
    have "of_nat y + c = ?x - of_nat (m - y)" using assms(3) by (simp add: of_nat_diff)
    then show ?thesis using map_pixel_near [of "m - y" ?x] that unfolding x t'(2) by (simp only:) simp
  qed
  show ?thesis
  proof (cases "y = m")
    case True
    then show ?thesis using near \<open>px = 8\<close> by (simp add: loop_pixel_def)
  next
    case False
    then have "Suc (m - Suc y) = m - y" using assms(3) by simp
    then show ?thesis using near False \<open>px = 8\<close> assms(3) t'(1) by (auto simp: loop_pixel_def shade_shift)
  qed
qed

lemma dec_mod_8: "(unat (x - 1 :: u8) + 1) mod 8 = unat x mod 8"
proof (cases "x = 0")
  case False
  then have "0 < unat x" by (simp add: unat_gt_0)
  then show ?thesis using False by (simp add: unat_minus_one)
next
  case True
  have "unat (- 1 :: u8) = 255" by (simp add: unsigned_minus_1_eq_mask mask_eq_exp_minus_1)
  then show ?thesis using True by simp
qed

lemma of_nat_u8_inj: "(of_nat m :: u8) = of_nat n \<Longrightarrow> m < 256 \<Longrightarrow> n < 256 \<Longrightarrow> m = n"
  by (drule arg_cong [where f = unat]) (simp only: unat_of_nat_u8)

lemma next_tile_inv:
  assumes "unat px \<le> 8" "(unat px + unat (of_nat m + c :: u8)) mod 8 = 7"
    and t: "next_tile gb c base py (of_nat m) px (t1, t2) = (px', t1', t2')"
  shows "unat (px' + 1) \<le> 8" "(unat (px' + 1) + unat (of_nat m - 1 + c :: u8)) mod 8 = 7"
proof -
  have "unat px \<noteq> 8" if "px \<noteq> 8" using that by (auto dest: unat_eq_of_nat)
  then have p: "unat px' < 8" "(unat px' + unat (of_nat m + c :: u8)) mod 8 = 7"
    using assms by (cases "px = 8"; simp add: next_tile_def)+
  then have s: "unat (px' + 1) = unat px' + 1" by (simp add: unat_word_ariths)
  then show "unat (px' + 1) \<le> 8" using p by simp
  have e: "of_nat m - 1 + c = (of_nat m + c - 1 :: u8)" by simp
  have "(unat (px' + 1) + unat (of_nat m - 1 + c :: u8)) mod 8 =
      (unat px' + (unat (of_nat m + c - 1 :: u8) + 1) mod 8) mod 8"
    unfolding s e by (simp add: mod_simps)
  also have "\<dots> = 7" using p(2) unfolding dec_mod_8 by (simp add: mod_simps)
  finally show "(unat (px' + 1) + unat (of_nat m - 1 + c :: u8)) mod 8 = 7" .
qed

lemma tile_loop_spec:
  assumes mem: "length (vram gb) = 0x2000" "length (bg_palette gb) = 4" "unat base \<le> 0x1FE0" "unat py \<le> 7"
    and xof: "\<And>x. xof x = x + c" and s: "s \<le> n" "n \<le> 160"
    and px: "unat px \<le> 8" "(unat px + unat (of_nat n - 1 + c :: u8)) mod 8 = 7" and len: "length pixels = 160"
  shows "\<exists>R. tile_loop gb xof base py (of_nat s - 1) (of_nat n - 1) px t1 t2 pixels = Some R \<and> length R = 160 \<and>
    (\<forall>y<160. R ! y = (if s \<le> y \<and> y < n then loop_pixel gb c base py px (t1, t2) n y else pixels ! y))"
  using s px len
proof (induction n arbitrary: px t1 t2 pixels)
  case 0
  then show ?case by (simp add: tile_loop.simps)
next
  case (Suc m)
  show ?case
  proof (cases "s = Suc m")
    case True
    then show ?thesis using Suc.prems True by (auto simp: tile_loop.simps)
  next
    case False
    then have s: "s \<le> m" using Suc.prems(1) by simp
    obtain px' t1' t2' where t: "next_tile gb c base py (of_nat m) px (t1, t2) = (px', t1', t2')"
      by (metis prod_cases3)
    have m: "unat (of_nat m :: u8) = m" using Suc.prems(2) by (simp add: unat_of_nat take_bit_nat_eq_self)
    have ne: "(of_nat m :: u8) \<noteq> of_nat s - 1"
      using of_nat_u8_inj [of "Suc m" s] False Suc.prems(1,2) by (auto simp: algebra_simps)
    have x: "of_nat (Suc m) - 1 = (of_nat m :: u8)" by simp
    note inv = next_tile_inv [OF Suc.prems(3) Suc.prems(4) [unfolded x] t]
    have "\<exists>R. tile_loop gb xof base py (of_nat s - 1) (of_nat m - 1) (px' + 1) (drop_bit 1 t1') (drop_bit 1 t2')
        (pixels[m := shade gb (t1', t2') 0]) = Some R \<and> length R = 160 \<and>
      (\<forall>y<160. R ! y = (if s \<le> y \<and> y < m
         then loop_pixel gb c base py (px' + 1) (drop_bit 1 t1', drop_bit 1 t2') m y
         else pixels[m := shade gb (t1', t2') 0] ! y))"
      by (rule Suc.IH) (use s inv Suc.prems in simp_all)
    then obtain R where R: "tile_loop gb xof base py (of_nat s - 1) (of_nat m - 1) (px' + 1) (drop_bit 1 t1') (drop_bit 1 t2')
        (pixels[m := shade gb (t1', t2') 0]) = Some R" "length R = 160"
      "\<And>y. y < 160 \<Longrightarrow> R ! y = (if s \<le> y \<and> y < m
         then loop_pixel gb c base py (px' + 1) (drop_bit 1 t1', drop_bit 1 t2') m y
         else pixels[m := shade gb (t1', t2') 0] ! y)" by auto
    have "tile_loop gb xof base py (of_nat s - 1) (of_nat (Suc m) - 1) px t1 t2 pixels = Some R"
      unfolding x using tile_loop_step [OF mem xof ne _ t] Suc.prems m R(1) by simp
    moreover have "R ! y = (if s \<le> y \<and> y < Suc m then loop_pixel gb c base py px (t1, t2) (Suc m) y else pixels ! y)"
      if "y < 160" for y
      using R(3) [OF that] s Suc.prems loop_pixel_step [OF Suc.prems(4) [unfolded x] Suc.prems(3) _ t, of y] that
      by (auto simp: nth_list_update)
    ultimately show ?thesis using R(2) by blast
  qed
qed

text \<open>The loop from the right edge, with the first tile cut to its remaining columns.\<close>

lemma unat_and_7: "unat (b AND 7 :: u8) = unat b mod 8"
proof -
  have "b AND 7 = take_bit 3 b" by (simp add: take_bit_eq_mask mask_eq_exp_minus_1)
  then show ?thesis by (simp only: unsigned_take_bit_eq) (simp add: take_bit_eq_mod)
qed

lemma shade_drop: "shade gb (drop_bit k (fst b), drop_bit k (snd b)) n = shade gb b (k + n)"
  by (simp add: shade_def add.commute)

lemma tile_loop_line:
  assumes mem: "length (vram gb) = 0x2000" "length (bg_palette gb) = 4" "unat base \<le> 0x1FE0" "unat py \<le> 7"
    and xof: "\<And>x. xof x = x + c" and s: "s \<le> 160" and len: "length pixels = 160"
    and px: "px = 7 - ((159 + c) AND 7)" and stop: "stop = of_nat s - 1"
  shows "\<exists>R. tile_loop gb xof base py stop 159 px (drop_bit (unat px) (fst b)) (drop_bit (unat px) (snd b))
      pixels = Some R \<and> length R = 160 \<and>
    (\<forall>y<160. R ! y =
      (if y < s then pixels ! y
       else if 159 - y \<le> unat (159 + c) mod 8 then shade gb b (7 - unat (159 + c) mod 8 + (159 - y))
       else map_pixel gb base py (of_nat y + c)))"
proof -
  have m: "unat (159 + c AND 7 :: u8) = unat (159 + c) mod 8" by (rule unat_and_7)
  have "unat (159 + c AND 7 :: u8) < 8" unfolding m by simp
  then have p: "unat px = 7 - unat (159 + c) mod 8" unfolding px
    by (simp add: unat_sub word_le_nat_alt m)
  have "unat (159 + c) mod 8 \<le> 7" using mod_less_divisor [of 8 "unat (159 + c)"] by linarith
  then have inv: "8 - unat px = Suc (unat (159 + c) mod 8)" "unat px \<le> 8"
    "(unat px + unat (159 + c) mod 8) mod 8 = 7"
    unfolding p by simp_all
  then have "(unat px + unat (of_nat 160 - 1 + c :: u8)) mod 8 = 7" by (simp add: mod_add_right_eq)
  from tile_loop_spec [OF mem xof s order.refl inv(2) this len, where ?t1.0 = "drop_bit (unat px) (fst b)"
      and ?t2.0 = "drop_bit (unat px) (snd b)"]
  show ?thesis
    unfolding stop by (elim exE, intro exI) (auto simp: loop_pixel_def inv(1) shade_drop p less_Suc_eq_le)
qed

text \<open>
  The reference: the colour at coordinates of one of the two 256 by 256 maps, from the tile map and the
  tile data; the tiles of the upper block are numbered from -128 to 127.
\<close>

definition map_colour :: "gb_s \<Rightarrow> bool \<Rightarrow> nat \<Rightarrow> nat \<Rightarrow> nat" where
  "map_colour gb second mx my =
     (let tilemap = (if second then 0x1C00 else 0x1800);
          idx = vram gb ! (tilemap + 32 * (my div 8) + mx div 8);
          tile = (if bit (LCDC gb) 4 then 16 * unat idx else nat (0x1000 + 16 * sint idx)) + 2 * (my mod 8);
          n = 7 - mx mod 8
      in of_bool (bit (vram gb ! tile) n) + 2 * of_bool (bit (vram gb ! (tile + 1)) n))"

lemma unat_colour: "unat (colour t1 t2) = of_bool (bit t1 0) + 2 * of_bool (bit t2 0)"
proof -
  have "(v :: u8) AND 1 = of_bool (odd v)" for v by (simp add: and_one_eq mod_2_eq_odd)
  then have "colour t1 t2 = of_bool (odd t1) OR push_bit 1 (of_bool (odd t2))" by (simp only: colour_def)
  then show ?thesis by (cases "odd t1"; cases "odd t2") (simp_all add: bit_0)
qed

lemma signed_tile: "2048 + (unat idx + 128) mod 256 * 16 = nat (0x1000 + 16 * sint (idx :: u8))"
  by (rule u8_exhaust [of "\<lambda>idx. 2048 + (unat idx + 128) mod 256 * 16 = nat (0x1000 + 16 * sint idx)"]) simp_all

lemma shade_bits: "shade gb b n = (bg_palette gb ! (of_bool (bit (fst b) n) + 2 * of_bool (bit (snd b) n))) OR 0x20"
  by (simp add: shade_def unat_colour bit_drop_bit_eq)

lemma lcdc_bits: "(v :: u8) AND 0x08 \<noteq> 0 \<longleftrightarrow> bit v 3" "(v :: u8) AND 0x10 \<noteq> 0 \<longleftrightarrow> bit v 4"
  "(v :: u8) AND 0x40 \<noteq> 0 \<longleftrightarrow> bit v 6"
  using and_exp_eq_0_iff_not_bit [of v 3] and_exp_eq_0_iff_not_bit [of v 4] and_exp_eq_0_iff_not_bit [of v 6] by simp_all

lemma unat_py: "unat (y AND 7 :: u8) \<le> 7"
  unfolding unat_and_7 using mod_less_divisor [of 8 "unat y"] by linarith

lemma unat_map_row:
  "unat ((if b then 0x1C00 else 0x1800) + ucast (drop_bit 3 (y :: u8)) * 0x20 :: u16) =
   (if b then 0x1C00 else 0x1800) + 32 * (unat y div 8)"
proof -
  have "unat (drop_bit 3 y) = unat y div 8" "unat y div 8 < 32"
    using unat_shift3 [of y] by (simp_all add: unat_shift3')
  then show ?thesis by (cases b) (simp_all add: unat_word_ariths unat_u8_u16)
qed

lemma map_row_le: "unat ((if b then 0x1C00 else 0x1800) + ucast (drop_bit 3 (y :: u8)) * 0x20 :: u16) \<le> 0x1FE0"
  using unat_shift3 [of y] unfolding unat_map_row unat_shift3' by simp

lemma map_pixel_colour:
  "map_pixel gb ((if second then 0x1C00 else 0x1800) + ucast (drop_bit 3 y) * 0x20) (y AND 7) x =
   (bg_palette gb ! map_colour gb second (unat x) (unat y)) OR 0x20"
proof -
  have "unat (y AND 7) \<le> 7" unfolding unat_and_7 using mod_less_divisor [of 8 "unat y"] by linarith
  then show ?thesis
    unfolding map_pixel_def tile_bytes_def unat_map_row unat_shift3'
    by (simp add: shade_bits map_colour_def unat_tile_addr unat_and_7 signed_tile lcdc_bits Let_def)
qed

lemma draw_background_spec:
  assumes "length (vram gb) = 0x2000" "length (bg_palette gb) = 4" "length pixels = 160" "LCDC gb AND 0x01 \<noteq> 0"
  shows "draw_background gb pixels =
    Some (map (\<lambda>x. (bg_palette gb ! map_colour gb (bit (LCDC gb) 3) (unat (of_nat x + SCX gb)) (unat (LY gb + SCY gb))) OR 0x20) [0..<160])"
proof -
  let ?y = "LY gb + SCY gb" and ?x = "159 + SCX gb"
  let ?base = "(if LCDC gb AND 0x08 \<noteq> 0 then 0x1C00 else 0x1800) + ucast (drop_bit 3 ?y) * 0x20 :: u16"
  have py: "unat (?y AND 7) \<le> 7" unfolding unat_and_7 using mod_less_divisor [of 8 "unat ?y"] by linarith
  let ?b = "tile_bytes gb ?base (?y AND 7) (drop_bit 3 ?x)"
  obtain R where R: "tile_loop gb (\<lambda>x. x + SCX gb) ?base (?y AND 7) 0xFF 159 (7 - (?x AND 7))
      (drop_bit (unat (7 - (?x AND 7))) (fst ?b)) (drop_bit (unat (7 - (?x AND 7))) (snd ?b)) pixels = Some R" "length R = 160"
    "\<And>y. y < 160 \<Longrightarrow> R ! y = (if y < 0 then pixels ! y
       else if 159 - y \<le> unat ?x mod 8 then shade gb ?b (7 - unat ?x mod 8 + (159 - y))
       else map_pixel gb ?base (?y AND 7) (of_nat y + SCX gb))"
    using tile_loop_line [where s = 0 and c = "SCX gb" and b = ?b and base = ?base and stop = 255,
        OF assms(1,2) map_row_le py refl _ assms(3) refl] by auto
  let ?idx = "vram gb ! (unat ?base + unat (drop_bit 3 ?x))"
  note tile = tile_addr_less [OF py, of gb ?idx]
  have idx: "unat ?base + unat (drop_bit 3 ?x) < length (vram gb)"
    using map_row_le [of "LCDC gb AND 0x08 \<noteq> 0" ?y] unat_shift3 [of ?x] unfolding assms(1) by linarith
  have reads: "rd (vram gb) (unat ?base + unat (drop_bit 3 ?x)) = Some ?idx"
    "rd (vram gb) (unat (tile_addr gb ?idx (?y AND 7))) = Some (fst ?b)"
    "rd (vram gb) (unat (tile_addr gb ?idx (?y AND 7)) + 1) = Some (snd ?b)"
    using tile idx unfolding tile_bytes_def Let_def fst_conv snd_conv
    by (intro rd_inside; simp only: assms(1) Suc_lessD Suc_eq_plus1 [symmetric])+
  have "draw_background gb pixels = Some R"
    unfolding draw_background_def Let_def by (simp only: assms(4) if_True reads bind.bind_lunit R(1) not_False_eq_True)
  moreover have "R ! x = (bg_palette gb ! map_colour gb (bit (LCDC gb) 3) (unat (of_nat x + SCX gb)) (unat ?y)) OR 0x20" if "x < 160" for x
  proof -
    have x: "of_nat x + SCX gb = ?x - of_nat (159 - x)" using that by (simp add: of_nat_diff)
    have "R ! x = map_pixel gb ?base (?y AND 7) (of_nat x + SCX gb)"
    proof (cases "159 - x \<le> unat ?x mod 8")
      case True
      then show ?thesis unfolding x map_pixel_near [OF True] using R(3) [OF that] by (simp only: if_True not_less_zero if_False)
    qed (use R(3) [OF that] in simp)
    then show ?thesis by (simp only: map_pixel_colour lcdc_bits)
  qed
  ultimately show ?thesis using R(2) by (auto intro!: nth_equalityI)
qed

lemma row_0: "drop_bit 3 (y AND 7 :: u8) = 0" "(y AND 7) AND 7 = (y AND 7 :: u8)"
proof -
  have "unat (y AND 7) < 8" unfolding unat_and_7 by simp
  then have "unat (drop_bit 3 (y AND 7)) = 0" unfolding unat_shift3' by simp
  then show "drop_bit 3 (y AND 7) = 0" by (simp only: unat_eq_0)
qed (simp add: and.assoc)

lemma window_edge:
  assumes "unat (wx :: u8) \<le> 166"
  shows "(if wx < 7 then 0 else wx - 7) - 1 = (of_nat (unat wx - 7) - 1 :: u8)"
proof (cases "wx < 7")
  case True
  then show ?thesis by (simp add: word_less_nat_alt)
next
  case False
  then have "wx - 7 = of_nat (unat wx - 7)" by (simp add: word_less_nat_alt of_nat_diff)
  then show ?thesis using False by simp
qed

lemma draw_window_spec:
  assumes mem: "length (vram gb) = 0x2000" "length (bg_palette gb) = 4" "length pixels = 160" and on: "window_on gb"
  shows "\<exists>R. draw_window gb pixels = Some (gb\<lparr>window_clear := window_clear gb + 1\<rparr>, R) \<and> length R = 160 \<and>
    (\<forall>x<160. R ! x =
      (if x < unat (WX gb) - 7 then pixels ! x
       else (bg_palette gb ! map_colour gb (bit (LCDC gb) 6) (unat (of_nat x + (7 - WX gb)))
         (if 159 - x \<le> unat (159 + (7 - WX gb)) mod 8 then unat (window_clear gb AND 7)
          else unat (window_clear gb))) OR 0x20))"
proof -
  let ?c = "7 - WX gb" and ?py = "window_clear gb AND 7" and ?m = "(if LCDC gb AND 0x40 \<noteq> 0 then 0x1C00 else 0x1800) :: u16"
  let ?x = "159 + ?c" and ?base = "?m + ucast (drop_bit 3 (window_clear gb)) * 0x20"
  let ?b = "tile_bytes gb ?m ?py (drop_bit 3 ?x)" and ?px = "7 - ((159 + ?c) AND 7)"
  have wx: "unat (WX gb) \<le> 166" using on by (simp add: window_on_def word_le_nat_alt)
  then have s: "unat (WX gb) - 7 \<le> 160" by simp
  have xof: "x - WX gb + 7 = x + ?c" for x by simp
  obtain R where R: "tile_loop gb (\<lambda>x. x + ?c) ?base ?py (of_nat (unat (WX gb) - 7) - 1) 159 ?px
      (drop_bit (unat ?px) (fst ?b)) (drop_bit (unat ?px) (snd ?b)) pixels = Some R" "length R = 160"
    "\<And>y. y < 160 \<Longrightarrow> R ! y = (if y < unat (WX gb) - 7 then pixels ! y
       else if 159 - y \<le> unat ?x mod 8 then shade gb ?b (7 - unat ?x mod 8 + (159 - y))
       else map_pixel gb ?base ?py (of_nat y + ?c))"
    using tile_loop_line [where s = "unat (WX gb) - 7" and c = ?c and b = ?b and base = ?base,
        OF mem(1,2) map_row_le unat_py refl s mem(3) refl refl] by blast
  let ?idx = "vram gb ! (unat ?m + unat (drop_bit 3 ?x))"
  have reads: "rd (vram gb) (unat ?m + unat (drop_bit 3 ?x)) = Some ?idx"
    "rd (vram gb) (unat (tile_addr gb ?idx ?py)) = Some (fst ?b)"
    "rd (vram gb) (unat (tile_addr gb ?idx ?py) + 1) = Some (snd ?b)"
    using unat_shift3 [of ?x] tile_addr_less [OF unat_py [of "window_clear gb"], of gb ?idx]
    by (auto simp add: mem(1) tile_bytes_def Let_def Suc_lessD)
  have "draw_window gb pixels = Some (gb\<lparr>window_clear := window_clear gb + 1\<rparr>, R)"
    unfolding draw_window_def xof window_edge [OF wx] Let_def
    by (simp only: on if_True reads bind.bind_lunit R(1))
  moreover have "R ! x = (if x < unat (WX gb) - 7 then pixels ! x
       else (bg_palette gb ! map_colour gb (bit (LCDC gb) 6) (unat (of_nat x + ?c))
         (if 159 - x \<le> unat ?x mod 8 then unat ?py else unat (window_clear gb))) OR 0x20)" if "x < 160" for x
  proof -
    have x: "of_nat x + ?c = ?x - of_nat (159 - x)" using that by (simp add: of_nat_diff)
    have first: "shade gb ?b (7 - unat ?x mod 8 + (159 - x)) =
        (bg_palette gb ! map_colour gb (bit (LCDC gb) 6) (unat (of_nat x + ?c)) (unat ?py)) OR 0x20"
      if "159 - x \<le> unat ?x mod 8"
      using map_pixel_near [OF that, of gb ?m ?py] map_pixel_colour [of gb "LCDC gb AND 0x40 \<noteq> 0" ?py "of_nat x + ?c"]
      unfolding x lcdc_bits by (simp add: row_0)
    show ?thesis
      using R(3) [OF that] first
      by (cases "159 - x \<le> unat ?x mod 8") (simp_all only: if_True if_False map_pixel_colour lcdc_bits)
  qed
  ultimately show ?thesis using R(2) by blast
qed

text \<open>What safety needs of a line: its length, and that every pixel names a palette.\<close>

definition line_ok :: "u8 list \<Rightarrow> bool" where
  "line_ok pixels \<longleftrightarrow> length pixels = 160 \<and> list_all pixel_ok pixels"

lemma line_ok_length: "line_ok pixels \<Longrightarrow> length pixels = 160"
  by (simp add: line_ok_def)

lemma list_all_update: "list_all P xs \<Longrightarrow> P x \<Longrightarrow> list_all P (xs[i := x])"
  by (auto simp: list_all_iff dest: set_update_subset_insert [THEN subsetD])

lemma line_ok_sprite: "line_ok pixels \<Longrightarrow> line_ok (pixels[i := v AND - 33])"
  by (simp add: line_ok_def list_all_update pixel_ok_def bit_and_iff)

lemma map_colour_less: "map_colour gb m x y < 4"
  by (simp add: map_colour_def Let_def of_bool_def)

lemma background_pixel: "gb_ok rom d gb \<Longrightarrow> pixel_ok ((bg_palette gb ! map_colour gb m x y) OR 0x20)"
  using map_colour_less [of gb m x y]
  by (auto simp: gb_ok_def gb_wf_defs pixel_ok_def bit_or_iff list_all_length)

lemma draw_background_line:
  assumes "gb_ok rom d gb" "line_ok pixels"
  shows "yields (draw_background gb pixels) line_ok"
proof (cases "LCDC gb AND 0x01 = 0")
  case False
  then show ?thesis
    using draw_background_spec [OF gb_ok_lengths(2,7) [OF assms(1)] line_ok_length [OF assms(2)]]
    by (simp add: line_ok_def list_all_iff background_pixel [OF assms(1)] del: bit_or_iff)
qed (use assms in \<open>simp add: draw_background_def\<close>)

lemma draw_window_ok:
  assumes "gb_ok rom d gb" "line_ok pixels"
  shows "yields (draw_window gb pixels) (\<lambda>(gb', pixels). gb_ok rom d gb' \<and> line_ok pixels \<and> LY gb' = LY gb)"
proof (cases "window_on gb")
  case True
  from draw_window_spec [OF gb_ok_lengths(2,7) [OF assms(1)] line_ok_length [OF assms(2)] True] assms show ?thesis
    by (auto simp: yields_def line_ok_def list_all_length background_pixel)
qed (use assms in \<open>simp add: draw_window_def\<close>)

section \<open>Sprites\<close>

text \<open>A loop that runs down to \<open>stop\<close> stays on the line; the column 255 is the one before column 0.\<close>

lemma column_down:
  assumes "unat (stop + 1 :: u8) \<le> unat (x + 1)" "unat (x + 1) \<le> 160" "x \<noteq> stop"
  shows "unat x < 160" "unat (stop + 1) \<le> unat (x - 1 + 1)" "unat (x - 1 + 1) \<le> 160"
proof -
  have "x + 1 \<noteq> stop + 1" using assms(3) by simp
  then have ne: "unat (x + 1) \<noteq> unat (stop + 1)" by (simp only: word_unat_eq_iff [symmetric] not_False_eq_True)
  then have "x + 1 \<noteq> 0" using assms(1) by auto
  then have "unat (x + 1 - 1) = unat (x + 1) - 1" by (rule unat_minus_one)
  moreover have "0 < unat (x + 1)" using \<open>x + 1 \<noteq> 0\<close> by (simp only: unat_gt_0 not_False_eq_True)
  ultimately have "unat (x + 1) = Suc (unat x)" by simp
  then show "unat x < 160" "unat (stop + 1) \<le> unat (x - 1 + 1)" "unat (x - 1 + 1) \<le> 160"
    using assms(1,2) ne by simp_all
qed

lemma column_up:
  assumes "unat (x :: u8) \<le> unat stop" "unat stop \<le> 160" "x \<noteq> stop"
  shows "unat x < 160" "unat (x + 1) \<le> unat stop"
proof -
  have "unat x \<noteq> unat stop" using assms(3) by (simp add: word_unat_eq_iff)
  then have "unat x < unat stop" using assms(1) by simp
  then show "unat x < 160" "unat (x + 1) \<le> unat stop" using assms(2) by (simp_all add: unat_word_ariths)
qed

definition on_line :: "bool \<Rightarrow> u8 \<Rightarrow> u8 \<Rightarrow> bool" where
  "on_line flip stop x \<longleftrightarrow>
     (if flip then unat x \<le> unat stop \<and> unat stop \<le> 160 else unat (stop + 1) \<le> unat (x + 1) \<and> unat (x + 1) \<le> 160)"

lemma on_line_step:
  assumes "on_line flip stop x" "x \<noteq> stop"
  shows "unat x < 160" "on_line flip stop (x + (if flip then 1 else - 1))"
  using assms column_up [of x stop] column_down [of stop x] by (auto simp: on_line_def split: if_splits)

lemma sprite_columns_line:
  assumes "length (sp_palette gb) = 8" "on_line flip stop x" "line_ok pixels"
  shows "yields (sprite_columns gb OF flip stop x t1 t2 pixels) line_ok"
  using assms
proof (induction "unat (if flip then stop - x else x - stop)" arbitrary: x t1 t2 pixels rule: less_induct)
  case less
  show ?case
  proof (cases "x = stop")
    case True
    then show ?thesis using less.prems by (simp add: sprite_columns.simps)
  next
    case False
    let ?x = "x + (if flip then 1 else - 1)" and ?d = "\<lambda>x. if flip then stop - x else x - stop"
    have "?d x \<noteq> 0" using False by (simp split: if_splits)
    then have "unat (?d x - 1) < unat (?d x)" by (rule measure_unat)
    moreover have "?d x - 1 = ?d ?x" by (cases flip) (simp_all add: algebra_simps)
    ultimately have "unat (?d ?x) < unat (?d x)" by simp
    note IH = less.hyps [OF this less.prems(1) on_line_step(2) [OF less.prems(2) False]]
    have "unat x < 160" using on_line_step(1) [OF less.prems(2) False] .
    then show ?thesis
      using False less.prems IH colour_less [of t1 t2] line_ok_length [OF less.prems(3)]
      by (subst sprite_columns.simps) (simp add: line_ok_sprite Let_def colour_def del: push_bit_and)
  qed
qed

text \<open>The row of a visible sprite is below 16, and its columns are on the line.\<close>

lemma sprite_row:
  assumes "\<not> unat ly + (if tall then 0 else 8) \<ge> unat (oy :: u8)" "\<not> unat ly + 16 < unat oy" "unat ly < 154"
  shows "unat (ly - oy + 16) \<le> (if tall then 15 else 7)"
proof -
  have "unat (ly + 16) = unat ly + 16" using assms(3) by (simp add: unat_word_ariths)
  then have "unat (ly + 16 - oy) = unat ly + 16 - unat oy" using assms(2) by (simp add: unat_sub word_le_nat_alt)
  moreover have e: "ly - oy + 16 = ly + 16 - oy" by simp
  ultimately show ?thesis using assms(1,2) unfolding e by (simp split: if_splits)
qed

lemma sprite_flip_row: "unat (py :: u8) \<le> k \<Longrightarrow> k \<le> 15 \<Longrightarrow> unat (of_nat k - py) \<le> 15"
  by (simp add: unat_sub word_le_nat_alt unat_of_nat take_bit_nat_eq_self)

lemma sprite_on_line:
  assumes "ox \<noteq> 0" "\<not> ox \<ge> (168 :: u8)"
  shows "on_line flip (if flip then (if ox < 160 then ox else 160) else (if ox < 8 then 0 else ox - 8) - 1)
    (if flip then (if ox < 8 then 0 else ox - 8) else (if ox < 160 then ox else 160) - 1)"
proof -
  have "unat ox < 168" "unat ox \<noteq> 0" using assms by (auto simp: word_le_nat_alt unat_eq_0)
  then show ?thesis by (auto simp: on_line_def word_less_nat_alt unat_sub word_le_nat_alt)
qed

lemma draw_sprite_line:
  assumes "gb_ok rom d gb" "s < 40" "line_ok pixels"
  shows "yields (draw_sprite gb s pixels) line_ok"
proof -
  have ly: "unat (LY gb) < 154" using assms(1) by (simp add: gb_ok_def gb_wf_defs)
  define tall where "tall \<longleftrightarrow> LCDC gb AND 0x04 \<noteq> 0"
  have py: "unat (if f then (if tall then 15 else 7) - (LY gb - oy + 16) else LY gb - oy + 16) \<le> 15"
    if "\<not> unat (LY gb) + (if tall then 0 else 8) \<ge> unat oy" "\<not> unat (LY gb) + 16 < unat oy" for f oy
    using sprite_row [OF that ly] sprite_flip_row [of "LY gb - oy + 16" 15] sprite_flip_row [of "LY gb - oy + 16" 7]
    by (simp split: if_splits)
  have tile: "unat (OT :: u8) * 16 + 2 * unat (py :: u8) < 0x2000" "unat OT * 16 + 2 * unat py + 1 < 0x2000"
    if "unat py \<le> 15" for OT py
    using that unat_less_u8 [of OT] by linarith+
  have oam: "4 * s < 160" "4 * s + 1 < 160" "4 * s + 2 < 160" "4 * s + 3 < 160" using assms(2) by simp_all
  show ?thesis
    unfolding draw_sprite_def Let_def tall_def [symmetric]
    by (simp only: yields_bind yields_rd yields_if yields_Some gb_ok_lengths [OF assms(1)] if_bool_eq_conj de_Morgan_disj
          oam assms(3) simp_thms)
       (intro conjI impI allI tile py sprite_columns_line sprite_on_line gb_ok_lengths [OF assms(1)] assms(3); elim conjE; assumption)
qed

lemma draw_sprites_line:
  "gb_ok rom d gb \<Longrightarrow> s \<le> 40 \<Longrightarrow> line_ok pixels \<Longrightarrow>
   yields (draw_sprites s gb pixels) line_ok"
proof (induction s arbitrary: pixels)
  case (Suc s)
  then have "yields (draw_sprite gb s pixels) line_ok" by (intro draw_sprite_line) simp_all
  then have "yields (draw_sprite gb s pixels) (\<lambda>pixels. yields (draw_sprites s gb pixels) line_ok)"
    by (rule yields_mono) (use Suc in simp)
  then show ?case by simp
qed simp

section \<open>The line\<close>

text \<open>\<^verbatim>\<open>video_drawline\<close> copies the line into its row of the frame buffer.\<close>

lemma drawline_loop_spec:
  "length pixels = 160 \<Longrightarrow> length row = 160 \<Longrightarrow> n + x = 160 \<Longrightarrow>
   drawline_loop n x pixels row = Some (take x row @ drop x pixels)"
proof (induction n arbitrary: x row)
  case (Suc n)
  then have "take (x + 1) (row[x := pixels ! x]) @ drop (x + 1) pixels = take x row @ drop x pixels"
    by (simp add: take_Suc_conv_app_nth Cons_nth_drop_Suc)
  then show ?case using Suc by simp
qed simp

lemma video_drawline_spec:
  assumes "length fb = 144" "list_all (\<lambda>row. length row = 160) fb" "unat line < 144" "length pixels = 160"
  shows "video_drawline fb pixels line = Some (fb[unat line := pixels])"
proof -
  have "length (fb ! unat line) = 160" using assms(1-3) by (simp add: list_all_length)
  then show ?thesis using assms by (simp add: video_drawline_def drawline_loop_spec [where x = 0])
qed

lemma gb_draw_line_ok:
  assumes ok: "gb_ok rom d gb" and ly: "unat (LY gb) < 144"
  shows "yields (gb_draw_line gb) (gb_ok rom d)"
proof -
  have line: "yields (video_drawline (video_fb gb') pixels (LY gb')) (\<lambda>fb. gb_ok rom d (gb'\<lparr>video_fb := fb\<rparr>))"
    if "gb_ok rom d gb'" "LY gb' = LY gb" "line_ok pixels" for gb' pixels
  proof -
    have "gb_ok rom d (gb'\<lparr>video_fb := (video_fb gb')[unat (LY gb) := pixels]\<rparr>)"
      using that(1,3) by (auto simp: gb_ok_def gb_wf_defs line_ok_def list_all_update)
    then show ?thesis using that ly by (subst video_drawline_spec) (auto simp: gb_ok_def gb_wf_defs line_ok_def)
  qed
  have sprites: "yields (if LCDC gb' AND 0x02 \<noteq> 0 then draw_sprites 40 gb' pixels else Some pixels)
      line_ok" if "gb_ok rom d gb'" "line_ok pixels" for gb' pixels
    using that by (simp add: draw_sprites_line)
  have rest: "yields (draw_window gb pixels)
      (\<lambda>(gb', pixels). yields (if LCDC gb' AND 0x02 \<noteq> 0 then draw_sprites 40 gb' pixels else Some pixels)
        (\<lambda>pixels. yields (video_drawline (video_fb gb') pixels (LY gb')) (\<lambda>fb. gb_ok rom d (gb'\<lparr>video_fb := fb\<rparr>))))"
    if "line_ok pixels" for pixels
    using draw_window_ok [OF ok that]
  proof (rule yields_mono, clarify)
    fix gb' and pixels :: "u8 list"
    assume gb': "gb_ok rom d gb'" "line_ok pixels" "LY gb' = LY gb"
    show "yields (if LCDC gb' AND 0x02 \<noteq> 0 then draw_sprites 40 gb' pixels else Some pixels)
        (\<lambda>pixels. yields (video_drawline (video_fb gb') pixels (LY gb')) (\<lambda>fb. gb_ok rom d (gb'\<lparr>video_fb := fb\<rparr>)))"
      using sprites [OF gb'(1,2)] by (rule yields_mono) (rule line [OF gb'(1,3)])
  qed
  have "yields (draw_background gb (replicate 160 0)) (\<lambda>pixels. yields (draw_window gb pixels)
      (\<lambda>(gb', pixels). yields (if LCDC gb' AND 0x02 \<noteq> 0 then draw_sprites 40 gb' pixels else Some pixels)
        (\<lambda>pixels. yields (video_drawline (video_fb gb') pixels (LY gb')) (\<lambda>fb. gb_ok rom d (gb'\<lparr>video_fb := fb\<rparr>)))))"
    by (rule yields_mono [OF draw_background_line [OF ok]])
       (simp add: line_ok_def pixel_ok_def list_all_iff, rule rest)
  then show ?thesis
    using ok by (simp add: gb_draw_line_def case_prod_unfold)
qed

section \<open>Properties\<close>

lemma unat_column: "x < 160 \<Longrightarrow> unat (of_nat x + c :: u8) = (x + unat c) mod 256"
  by (simp add: unat_word_ariths unat_of_nat_u8)

text \<open>
  C9: A line of the background is the line of the tile map. The loop of \<^verbatim>\<open>__gb_draw_line\<close> over the
  160 columns, which loads a tile row every eight columns and shifts it, gives each column the palette
  entry of the colour at the scrolled coordinates of the selected map, modulo 256 both ways.
\<close>

theorem background_line:
  assumes "gb_arrays gb" "bit (LCDC gb) 0" "length pixels = 160"
  shows "draw_background gb pixels =
    Some (map (\<lambda>x. (bg_palette gb ! map_colour gb (bit (LCDC gb) 3) ((x + unat (SCX gb)) mod 256)
      ((unat (LY gb) + unat (SCY gb)) mod 256)) OR 0x20) [0..<160])"
proof -
  have "LCDC gb AND 0x01 \<noteq> 0" using and_exp_eq_0_iff_not_bit [of "LCDC gb" 0] assms(2) by simp
  moreover have "unat (LY gb + SCY gb) = (unat (LY gb) + unat (SCY gb)) mod 256" by (simp add: unat_word_ariths)
  ultimately show ?thesis
    using draw_background_spec [of gb pixels] assms(1,3) by (simp add: gb_arrays_def unat_column cong: map_cong)
qed

theorem background_line_witness:
  "draw_background (gb_blank\<lparr>SCX := 250\<rparr>) (replicate 160 0) =
   Some (map (\<lambda>x. (bg_palette gb_blank ! map_colour (gb_blank\<lparr>SCX := 250\<rparr>) False ((x + 250) mod 256) 0) OR 0x20) [0..<160])"
proof -
  let ?gb = "gb_blank\<lparr>SCX := 250\<rparr>"
  have "gb_arrays ?gb" using gb_blank_wf by (simp add: gb_wf_defs)
  moreover have "bit (LCDC ?gb) 0" "\<not> bit (LCDC ?gb) 3" "unat (LY ?gb) = 0" "unat (SCY ?gb) = 0" by (simp_all add: gb_blank_def)
  ultimately show ?thesis using background_line [of ?gb "replicate 160 0"] by simp
qed

text \<open>
  C40: A line of the window, and its first tile. Left of the window edge the line is unchanged; right
  of it each column shows the window map at its column and the window line, except for the columns of
  the rightmost tile: their tile is taken from the first row of the map (window line modulo 8), since
  the tile index is loaded before the row offset is added.
\<close>

theorem window_line:
  assumes "gb_arrays gb" "window_on gb" "length pixels = 160"
  shows "\<exists>R. draw_window gb pixels = Some (gb\<lparr>window_clear := window_clear gb + 1\<rparr>, R) \<and> length R = 160 \<and>
    (\<forall>x<160. R ! x =
      (if x + 7 < unat (WX gb) then pixels ! x
       else (bg_palette gb ! map_colour gb (bit (LCDC gb) 6) (x + 7 - unat (WX gb))
         (if 159 - x \<le> (166 - unat (WX gb)) mod 8 then unat (window_clear gb) mod 8
          else unat (window_clear gb))) OR 0x20))"
proof -
  have wx: "unat (WX gb) \<le> 166" using assms(2) by (simp add: window_on_def word_le_nat_alt)
  have "unat (159 + (7 - WX gb)) = 166 - unat (WX gb)"
    using wx by (simp add: unat_sub word_le_nat_alt)
  moreover have "unat (of_nat x + (7 - WX gb)) = x + 7 - unat (WX gb)" if "x < 160" "\<not> x + 7 < unat (WX gb)" for x
  proof -
    have "of_nat x + (7 - WX gb) = of_nat (x + 7 - unat (WX gb))" using that by (simp add: of_nat_diff)
    then show ?thesis using that by (simp only:) (rule unat_of_nat_u8, simp)
  qed
  moreover obtain R where "draw_window gb pixels = Some (gb\<lparr>window_clear := window_clear gb + 1\<rparr>, R)" "length R = 160"
    "\<And>x. x < 160 \<Longrightarrow> R ! x = (if x < unat (WX gb) - 7 then pixels ! x
       else (bg_palette gb ! map_colour gb (bit (LCDC gb) 6) (unat (of_nat x + (7 - WX gb)))
         (if 159 - x \<le> unat (159 + (7 - WX gb)) mod 8 then unat (window_clear gb AND 7)
          else unat (window_clear gb))) OR 0x20)"
    using draw_window_spec [of gb pixels] assms by (auto simp only: gb_arrays_def)
  ultimately show ?thesis by (intro exI [of _ R]) (auto simp: unat_and_7)
qed

theorem window_line_witness:
  "\<exists>R. draw_window (gb_blank\<lparr>LCDC := 0xA1, WX := 87, window_clear := 20\<rparr>) (replicate 160 0) =
      Some (gb_blank\<lparr>LCDC := 0xA1, WX := 87, window_clear := 21\<rparr>, R) \<and> R ! 79 = 0 \<and>
    R ! 80 = (bg_palette gb_blank ! map_colour (gb_blank\<lparr>LCDC := 0xA1, WX := 87, window_clear := 20\<rparr>) False 0 20) OR 0x20 \<and>
    R ! 159 = (bg_palette gb_blank ! map_colour (gb_blank\<lparr>LCDC := 0xA1, WX := 87, window_clear := 20\<rparr>) False 79 4) OR 0x20"
proof -
  let ?gb = "gb_blank\<lparr>LCDC := 0xA1, WX := 87, window_clear := 20\<rparr>"
  have "gb_arrays ?gb" using gb_blank_wf by (simp add: gb_wf_defs)
  moreover have "window_on ?gb" by (simp add: window_on_def gb_blank_def)
  ultimately obtain R where R: "draw_window ?gb (replicate 160 0) = Some (?gb\<lparr>window_clear := window_clear ?gb + 1\<rparr>, R)"
    "\<And>x. x < 160 \<Longrightarrow> R ! x =
      (if x + 7 < unat (WX ?gb) then replicate 160 0 ! x
       else (bg_palette ?gb ! map_colour ?gb (bit (LCDC ?gb) 6) (x + 7 - unat (WX ?gb))
         (if 159 - x \<le> (166 - unat (WX ?gb)) mod 8 then unat (window_clear ?gb) mod 8
          else unat (window_clear ?gb))) OR 0x20)"
    using window_line [of ?gb "replicate 160 0"] by auto
  show ?thesis
    using R(1) R(2) [of 79] R(2) [of 80] R(2) [of 159] by (intro exI [of _ R]) simp
qed

end
