(* ===== verification/Gb_Frame.thy ===== *)
theory Gb_Frame
  imports Gb_Draw
begin

text \<open>
  A step of the Game Boy emulator keeps the invariant of \<open>Gb_Safe\<close>, and the frame loop: when it
  returns, and when it does not.
\<close>

section \<open>A step\<close>

lemma gb_vector_ok [simp]: "gb_ok rom d (gb_vector gb) = gb_ok rom d gb"
  by (simp add: gb_vector_def Let_def)

lemma yields_push_pc [intro]:
  "gb_ok rom d gb \<Longrightarrow> (\<And>gb'. gb_ok rom d gb' \<Longrightarrow> P gb') \<Longrightarrow> yields (gb_push_pc gb) P"
  by (auto simp: gb_push_pc_def)

lemma gb_interrupts_ok: "gb_ok rom d gb \<Longrightarrow> yields (gb_interrupts gb) (gb_ok rom d)"
  by (auto simp: gb_interrupts_def Let_def)

lemma unat_add_small: "unat (n :: u32) + unat (c :: u8) < 65536 \<Longrightarrow> unat (n + ucast c) = unat n + unat c"
  by (simp add: unat_add_u32 unat_u8_u32)

lemma gb_div_ok:
  assumes "gb_ok rom 264 gb" "unat c \<le> 36"
  shows "gb_ok rom 256 (gb_div c gb)"
proof -
  have d: "unat (div_count gb) < 264" using assms(1) by (simp add: gb_ok_def)
  then have "unat (div_count gb + ucast c) = unat (div_count gb) + unat c" using assms(2) by (simp add: unat_add_small)
  then show ?thesis
    using assms d by (auto simp: gb_div_def Let_def gb_ok_def gb_wf_defs word_le_nat_alt unat_sub)
qed

lemma gb_serial_ok:
  assumes "gb_ok rom d gb" "unat c \<le> 36"
  shows "gb_ok rom d (gb_serial c gb)"
proof -
  have s: "unat (serial_count gb) < 4096" using assms(1) by (simp add: gb_ok_def gb_wf_defs)
  then have "unat (serial_count gb + ucast c) = unat (serial_count gb) + unat c" using assms(2) by (simp add: unat_add_small)
  then show ?thesis
    using assms s by (auto simp: gb_serial_def Let_def gb_ok_def gb_wf_defs word_le_nat_alt unat_sub)
qed

lemma tac_rate_less: "tac_rate gb < 4"
proof -
  have "TAC gb AND 3 = take_bit 2 (TAC gb)" by (simp add: take_bit_eq_mask mask_eq_exp_minus_1)
  then show ?thesis unfolding tac_rate_def by (simp only: unsigned_take_bit_eq) (simp add: take_bit_eq_mod)
qed

lemma gb_timer_ok: "gb_ok rom d gb \<Longrightarrow> yields (gb_timer c gb) (gb_ok rom d)"
  using tac_rate_less [of gb] by (simp add: gb_timer_def TAC_CYCLES_def Let_def tac_rate_def numeral_eq_Suc)

lemma unat_next_line: "unat ly < 154 \<Longrightarrow> unat (ucast ((ucast (ly :: u8) + 1 :: u16) mod 154) :: u8) = Suc (unat ly) mod 154"
proof -
  assume "unat ly < 154"
  then have "unat ((ucast ly + 1 :: u16) mod 154) = Suc (unat ly) mod 154"
    by (simp add: unat_mod_distrib unat_word_ariths unat_u8_u16)
  moreover have "Suc (unat ly) mod 154 < 154" by simp
  then have "Suc (unat ly) mod 154 < 256" by linarith
  ultimately show ?thesis by (simp only: unsigned_ucast_eq) (simp add: take_bit_nat_eq_self)
qed

lemma gb_lyc_ok [simp]: "gb_ok rom d (gb_lyc gb) = gb_ok rom d gb"
  by (simp add: gb_lyc_def Let_def)

lemma gb_lyc_LY [simp]: "LY (gb_lyc gb) = LY gb" "lcd_mode (gb_lyc gb) = lcd_mode gb"
  by (simp_all add: gb_lyc_def Let_def)

lemma gb_ok_line:
  assumes "gb_ok rom d gb"
  shows "unat v < 154 \<Longrightarrow> gb_ok rom d (gb\<lparr>LY := v, lcd_mode := LCD_VBLANK\<rparr>)"
    "unat v < 144 \<Longrightarrow> gb_ok rom d (gb\<lparr>LY := v, lcd_mode := LCD_HBLANK\<rparr>)"
    "unat v < 154 \<Longrightarrow> lcd_mode gb = LCD_VBLANK \<Longrightarrow> gb_ok rom d (gb\<lparr>LY := v\<rparr>)"
  using assms by (auto simp: gb_ok_def gb_wf_defs)

lemma gb_next_line_ok:
  assumes ok: "gb_ok rom d gb" and n: "456 < unat n" "unat n \<le> 492"
  shows "gb_ok rom d (gb_next_line (gb\<lparr>lcd_count := n\<rparr>))"
proof -
  define g where "g = gb_lyc (gb\<lparr>lcd_count := n - 456\<rparr>)"
  define v where "v = (ucast ((ucast (LY g) + 1 :: u16) mod 154) :: u8)"
  have "unat (n - 456) \<le> 456" using n by (simp add: unat_sub word_le_nat_alt)
  then have g: "gb_ok rom d g" using ok by (simp add: g_def) (auto simp: gb_ok_def gb_wf_defs)
  then have ly: "unat (LY g) < 154" "lcd_mode g \<noteq> LCD_VBLANK \<Longrightarrow> unat (LY g) < 144"
    by (auto simp: gb_ok_def gb_wf_defs)
  have v: "unat v = Suc (unat (LY g)) mod 154" using ly(1) by (simp add: v_def unat_next_line)
  have "gb_ok rom d (if v = 144 then gb_vblank (g\<lparr>LY := v\<rparr>) else if v < 144 then gb_hblank (g\<lparr>LY := v\<rparr>) else g\<lparr>LY := v\<rparr>)"
  proof -
    have "gb_ok rom d (gb_vblank (g\<lparr>LY := v\<rparr>))" if "v = 144"
      using gb_ok_line(1) [OF g, of v] that by (simp add: gb_vblank_def Let_def)
    moreover have "gb_ok rom d (gb_hblank (g\<lparr>LY := v\<rparr>))" if "v < 144"
      using gb_ok_line(2) [OF g, of v] that
      by (auto simp: gb_hblank_def Let_def word_less_nat_alt gb_ok_def gb_wf_defs)
    moreover have "gb_ok rom d (g\<lparr>LY := v\<rparr>)" if "v \<noteq> 144" "\<not> v < 144"
    proof -
      have "unat v < 154" unfolding v by simp
      have "144 \<le> unat v" using that(2) by (simp add: word_less_nat_alt)
      moreover have "unat v \<noteq> 144" using that(1) by (auto dest: unat_eq_of_nat)
      ultimately have "\<not> unat (LY g) < 144" unfolding v by (auto simp: mod_Suc split: if_splits)
      then have "lcd_mode g = LCD_VBLANK" using ly(2) by blast
      then show ?thesis using gb_ok_line(3) [OF g] \<open>unat v < 154\<close> by blast
    qed
    ultimately show ?thesis by simp
  qed
  moreover have "gb_next_line (gb\<lparr>lcd_count := n\<rparr>) =
      (if v = 144 then gb_vblank (g\<lparr>LY := v\<rparr>) else if v < 144 then gb_hblank (g\<lparr>LY := v\<rparr>) else g\<lparr>LY := v\<rparr>)"
    unfolding gb_next_line_def Let_def g_def v_def by simp
  ultimately show ?thesis by (simp only:)
qed

lemma gb_lcd_ok:
  assumes ok: "gb_ok rom d gb" and c: "unat c \<le> 36"
  shows "yields (gb_lcd c gb) (gb_ok rom d)"
proof -
  let ?n = "lcd_count gb + ucast c"
  have l: "unat (lcd_count gb) \<le> 456" using ok by (simp add: gb_ok_def gb_wf_defs)
  then have n: "unat ?n = unat (lcd_count gb) + unat c" using c by (simp add: unat_add_small)
  have "gb_ok rom d (gb\<lparr>lcd_count := ?n\<rparr>)" if "\<not> 456 < ?n"
    using ok that by (auto simp: gb_ok_def gb_wf_defs word_less_nat_alt)
  moreover have "gb_ok rom d (gb_next_line (gb\<lparr>lcd_count := ?n\<rparr>))" if "456 < ?n"
    using that c l n by (intro gb_next_line_ok [OF ok]) (simp_all add: word_less_nat_alt)
  moreover have "yields (gb_draw_line (g\<lparr>lcd_mode := LCD_TRANSFER\<rparr>)) (gb_ok rom d)"
    if "gb_ok rom d g" "lcd_mode g = LCD_SEARCH_OAM" for g
    using that by (intro gb_draw_line_ok) (auto simp: gb_ok_def gb_wf_defs)
  moreover have "gb_ok rom d (g\<lparr>lcd_mode := LCD_SEARCH_OAM\<rparr>)" if "gb_ok rom d g" "lcd_mode g = LCD_HBLANK" for g
    using that by (auto simp: gb_ok_def gb_wf_defs)
  ultimately show ?thesis using ok by (simp add: gb_lcd_def Let_def)
qed

lemma op_cycles_le: "unat (opcode :: u8) < length op_cycles" "unat (op_cycles ! unat opcode) \<le> 24"
proof -
  have "length op_cycles = 256" by (simp add: op_cycles_def)
  then show l: "unat opcode < length op_cycles" by simp
  have "list_all (\<lambda>c. unat c \<le> 24) op_cycles" by (simp add: op_cycles_def)
  then show "unat (op_cycles ! unat opcode) \<le> 24" using l by (simp add: list_all_length)
qed

lemma gb_step_cpu_ok:
  assumes "gb_ok rom 256 gb"
  shows "yields (gb_step_cpu gb) (gb_ok rom 256)"
proof -
  have tail: "yields (gb_timer c (gb_serial c (gb_div c g))) (\<lambda>gb. yields (gb_lcd c gb) (gb_ok rom 256))"
    if "gb_ok rom 264 g" "unat c \<le> 36" for g c
    using gb_timer_ok [OF gb_serial_ok [OF gb_div_ok [OF that] that(2)]]
    by (rule yields_mono) (rule gb_lcd_ok [OF _ that(2)])
  have op: "yields (gb_switch opcode g) (\<lambda>(g, extra). yields (gb_timer (op_cycles ! unat opcode + extra)
      (gb_serial (op_cycles ! unat opcode + extra) (gb_div (op_cycles ! unat opcode + extra) g)))
      (\<lambda>gb. yields (gb_lcd (op_cycles ! unat opcode + extra) gb) (gb_ok rom 256)))"
    if "gb_ok rom 256 g" for opcode g
    using exec_ok [OF that, of "decode opcode"] unfolding gb_switch_exec
  proof (rule yields_mono, clarify)
    fix g extra
    assume "op_ok rom (256 + 8) (g, extra)"
    then show "yields (gb_timer (op_cycles ! unat opcode + extra)
      (gb_serial (op_cycles ! unat opcode + extra) (gb_div (op_cycles ! unat opcode + extra) g)))
      (\<lambda>gb. yields (gb_lcd (op_cycles ! unat opcode + extra) gb) (gb_ok rom 256))"
      using op_cycles_le(2) [of opcode]
      by (intro tail) (simp_all add: op_ok_def unat_word_ariths)
  qed
  show ?thesis
    unfolding gb_step_cpu_def yields_bind
  proof (rule yields_mono [OF gb_interrupts_ok [OF assms]])
    fix g
    assume g: "gb_ok rom 256 g"
    then show "yields (if gb_halt g then Some (0x00, g) else gb_fetch g) (\<lambda>x. yields (case x of (opcode, gb) \<Rightarrow> rd op_cycles (unat opcode) \<bind>
         (\<lambda>inst_cycles. gb_switch opcode gb \<bind> (\<lambda>(gb, extra). let inst_cycles = inst_cycles + extra;
               gb = gb_div inst_cycles gb; gb = gb_serial inst_cycles gb in gb_timer inst_cycles gb \<bind> gb_lcd inst_cycles)))
         (gb_ok rom 256))"
      using op [OF g, of 0] op [of "g\<lparr>reg_pc := reg_pc g + 1\<rparr>"] op_cycles_le(1) [of 0]
      by (auto simp: op_cycles_le(1) case_prod_unfold Let_def)
  qed
qed

section \<open>The frame loop\<close>

text \<open>
  A loop that runs a step until a condition holds: with an invariant and a variant it returns, with an
  invariant that excludes the condition it does not.
\<close>

locale step_loop =
  fixes finished :: "'s \<Rightarrow> bool" and body :: "'s \<Rightarrow> 's option" and loop :: "'s \<Rightarrow> 's option"
  assumes loop_unfold: "loop s = (if finished s then Some s else body s \<bind> loop)"
begin

lemma loop_returns:
  assumes "\<And>s. J s \<Longrightarrow> \<not> finished s \<Longrightarrow> yields (body s) (\<lambda>s'. if finished s' then Q s' else J s' \<and> m s' < (m s :: nat))"
  shows "J s \<Longrightarrow> \<not> finished s \<Longrightarrow> yields (loop s) (\<lambda>s'. finished s' \<and> Q s')"
proof (induction "m s" arbitrary: s rule: less_induct)
  case less
  then obtain s' where s': "body s = Some s'" "if finished s' then Q s' else J s' \<and> m s' < m s"
    using assms [OF less.prems] by (auto simp: yields_def)
  have "yields (loop s') (\<lambda>s'. finished s' \<and> Q s')"
  proof (cases "finished s'")
    case True
    then show ?thesis using s'(2) by (simp add: loop_unfold [of s'])
  next
    case False
    then show ?thesis using s'(2) less.hyps [of s'] by simp
  qed
  then show ?case using less.prems s'(1) by (simp add: loop_unfold [of s])
qed

end

interpretation frame_loop: step_loop gb_frame gb_step_cpu gb_frame_loop
  by unfold_locales (subst gb_frame_loop.simps, simp)

text \<open>A processor that is halted with at most the vertical blank interrupt to wake it.\<close>

definition gb_waits :: "gb_s \<Rightarrow> bool" where
  "gb_waits gb \<longleftrightarrow>
     gb_halt gb \<and> IE gb AND 0x1E = 0 \<and> IF gb AND IE gb AND 0x1F = 0 \<and> LCDC gb AND 0x80 \<noteq> 0 \<and> \<not> gb_frame gb"

definition gb_lines_left :: "gb_s \<Rightarrow> nat" where
  "gb_lines_left gb = (if unat (LY gb) < 144 then 144 - unat (LY gb) else 298 - unat (LY gb))"

definition gb_cycles_left :: "gb_s \<Rightarrow> nat" where
  "gb_cycles_left gb = 457 * gb_lines_left gb - unat (lcd_count gb)"

lemma masked_or:
  assumes "(ie :: u8) AND 0x1E = 0" "v AND 0x1E = v"
  shows "(f OR v) AND ie AND 0x1F = f AND ie AND 0x1F"
proof -
  have "v AND ie = (v AND 0x1E) AND ie" using assms(2) by simp
  also have "\<dots> = v AND (ie AND 0x1E)" by (simp add: ac_simps)
  finally have "v AND ie = 0" using assms(1) by simp
  then have "v AND ie AND 0x1F = 0" by (simp flip: and.assoc)
  then show ?thesis by (simp add: bit.conj_disj_distrib2)
qed

lemma gb_waits_IF:
  "gb_waits gb \<Longrightarrow> v AND 0x1E = v \<Longrightarrow> gb_waits (gb\<lparr>IF := IF gb OR v\<rparr>)"
  by (simp add: gb_waits_def masked_or)

text \<open>The divider, the serial port and the timer leave a waiting processor waiting.\<close>

lemma gb_waits_div:
  "gb_waits (gb_div c gb) = gb_waits gb" "LY (gb_div c gb) = LY gb" "lcd_count (gb_div c gb) = lcd_count gb"
  by (simp_all add: gb_div_def gb_waits_def Let_def)

lemma gb_waits_serial:
  "gb_waits gb \<Longrightarrow> gb_waits (gb_serial c gb)" "LY (gb_serial c gb) = LY gb" "lcd_count (gb_serial c gb) = lcd_count gb"
  by (simp_all add: gb_serial_def gb_waits_def masked_or Let_def)

lemma gb_waits_timer:
  assumes "gb_timer c gb = Some gb'" "gb_waits gb"
  shows "gb_waits gb' \<and> LY gb' = LY gb \<and> lcd_count gb' = lcd_count gb"
  using assms by (auto simp: gb_timer_def gb_waits_def masked_or Let_def split: bind_splits if_splits)

lemma draw_window_frame:
  "draw_window gb pixels = Some (gb', pixels') \<Longrightarrow> gb' = gb \<or> gb' = gb\<lparr>window_clear := window_clear gb + 1\<rparr>"
  by (auto simp: draw_window_def Let_def split: if_splits bind_splits)

lemma two_guards: "(if a then Some x else if b then Some y else m) = Some z \<Longrightarrow> x = z \<or> y = z \<or> m = Some z"
  by (auto split: if_splits)

lemma gb_draw_line_frame:
  assumes "gb_draw_line gb = Some gb'"
  shows "gb' = gb \<or> gb' = gb\<lparr>window_clear := window_clear gb + 1\<rparr> \<or> (\<exists>fb. gb' = gb\<lparr>video_fb := fb\<rparr>) \<or>
    (\<exists>fb. gb' = gb\<lparr>window_clear := window_clear gb + 1, video_fb := fb\<rparr>)"
proof -
  from two_guards [OF assms [unfolded gb_draw_line_def]] show ?thesis
  proof (elim disjE)
    assume "do { pixels \<leftarrow> draw_background gb (replicate 160 0);
            (gb, pixels) \<leftarrow> draw_window gb pixels;
            pixels \<leftarrow> (if LCDC gb AND 0x02 \<noteq> 0 then draw_sprites 40 gb pixels else Some pixels);
            fb \<leftarrow> video_drawline (video_fb gb) pixels (LY gb);
            Some (gb\<lparr>video_fb := fb\<rparr>) } = Some gb'"
    then obtain p g p' fb where "draw_window gb p = Some (g, p')" "gb' = g\<lparr>video_fb := fb\<rparr>"
      unfolding bind_eq_Some_conv by (auto simp: bind_eq_Some_conv)
    then show ?thesis using draw_window_frame [of gb p g p'] by auto
  qed (simp_all split: if_splits)
qed

lemma gb_waits_draw:
  assumes "gb_draw_line gb = Some gb'"
  shows "gb_waits gb' = gb_waits gb \<and> LY gb' = LY gb \<and> lcd_count gb' = lcd_count gb"
  using gb_draw_line_frame [OF assms] by (elim disjE exE) (simp_all add: gb_waits_def)

text \<open>The display: a waiting processor comes nearer to the vertical blank, or is there.\<close>

lemma gb_next_line_waits:
  assumes w: "gb_waits gb" and ly: "unat (LY gb) < 154"
    and v: "v = (ucast ((ucast (LY gb) + 1 :: u16) mod 154) :: u8)"
  shows "if v = 144 then gb_frame (gb_next_line gb) else gb_waits (gb_next_line gb)"
    "LY (gb_next_line gb) = v" "lcd_count (gb_next_line gb) = lcd_count gb - 456"
proof -
  have lyc: "gb_waits (gb_lyc (gb\<lparr>lcd_count := lcd_count gb - 456\<rparr>))"
    using w by (simp add: gb_lyc_def gb_waits_def masked_or Let_def)
  show "if v = 144 then gb_frame (gb_next_line gb) else gb_waits (gb_next_line gb)"
    using lyc by (simp add: gb_next_line_def Let_def v [symmetric] gb_vblank_def gb_hblank_def)
       (simp add: gb_waits_def masked_or)
  show "LY (gb_next_line gb) = v" "lcd_count (gb_next_line gb) = lcd_count gb - 456"
    by (simp_all add: gb_next_line_def Let_def v [symmetric] gb_vblank_def gb_hblank_def)
       (simp_all add: gb_lyc_def Let_def)
qed

lemma gb_lcd_waits:
  assumes ok: "gb_ok rom d gb" and w: "gb_waits gb" and c: "0 < unat c" "unat c \<le> 36" and s: "gb_lcd c gb = Some gb'"
  shows "if gb_frame gb' then LY gb' = 144 else gb_waits gb' \<and> gb_cycles_left gb' < gb_cycles_left gb"
proof -
  let ?n = "lcd_count gb + ucast c"
  have l: "unat (lcd_count gb) \<le> 456" "unat (LY gb) < 154" using ok by (simp_all add: gb_ok_def gb_wf_defs)
  then have n: "unat ?n = unat (lcd_count gb) + unat c" using c by (simp add: unat_add_small)
  have on: "LCDC gb AND 0x80 \<noteq> 0" using w by (simp add: gb_waits_def)
  show ?thesis
  proof (cases "456 < ?n")
    case True
    then have gb': "gb' = gb_next_line (gb\<lparr>lcd_count := ?n\<rparr>)" using s on by (simp add: gb_lcd_def Let_def)
    define v where "v = (ucast ((ucast (LY gb) + 1 :: u16) mod 154) :: u8)"
    have v: "unat v = Suc (unat (LY gb)) mod 154" unfolding v_def using l(2) by (rule unat_next_line)
    let ?g = "gb\<lparr>lcd_count := ?n\<rparr>"
    have g: "gb_waits ?g" "unat (LY ?g) < 154" "v = ucast ((ucast (LY ?g) + 1 :: u16) mod 154)"
      using w l(2) by (simp_all add: gb_waits_def v_def)
    have nl: "if v = 144 then gb_frame gb' else gb_waits gb'" "LY gb' = v" "lcd_count gb' = ?n - 456"
      unfolding gb' using gb_next_line_waits [OF g] by simp_all
    have "unat (?n - 456) = unat (lcd_count gb) + unat c - 456"
      using True n by (simp add: unat_sub word_le_nat_alt word_less_nat_alt)
    then have k: "unat (lcd_count gb') = unat (lcd_count gb) + unat c - 456" "456 < unat (lcd_count gb) + unat c"
      using nl(3) True n by (simp_all add: word_less_nat_alt)
    show ?thesis
    proof (cases "v = 144")
      case True
      then show ?thesis using nl by simp
    next
      case False
      then have "unat v \<noteq> 144" by (auto dest: unat_eq_of_nat)
      then have "gb_lines_left gb = Suc (gb_lines_left gb')" "0 < gb_lines_left gb'"
        using l(2) v nl(2) by (auto simp: gb_lines_left_def mod_Suc split: if_splits)
      then have "gb_cycles_left gb' < gb_cycles_left gb" using k l(1) by (simp add: gb_cycles_left_def)
      then show ?thesis using nl(1) False by (auto simp: gb_waits_def)
    qed
  next
    case False
    have "gb_waits gb' \<and> LY gb' = LY gb \<and> lcd_count gb' = ?n"
      using s on w False by (auto simp: gb_lcd_def Let_def gb_waits_def masked_or dest!: gb_waits_draw split: if_splits)
    moreover have "0 < gb_lines_left gb" using l(2) by (auto simp: gb_lines_left_def)
    ultimately show ?thesis using n c(1) l(1) by (auto simp: gb_cycles_left_def gb_lines_left_def gb_waits_def)
  qed
qed

lemma gb_switch_nop: "gb_switch 0 gb = Some (gb, 0)"
  by (simp add: gb_switch_exec decode_def decode0_def gb_done_def)

lemma gb_step_halted:
  assumes "gb_halt gb" "IF gb AND IE gb AND 0x1F = 0"
  shows "gb_step_cpu gb = gb_timer 4 (gb_serial 4 (gb_div 4 gb)) \<bind> gb_lcd 4"
proof -
  have "rd op_cycles 0 = Some 4" by (simp add: op_cycles_def)
  then show ?thesis using assms by (simp add: gb_step_cpu_def gb_interrupts_def gb_switch_nop Let_def)
qed

lemma gb_step_waits:
  assumes ok: "gb_ok rom 256 gb" and w: "gb_waits gb"
  shows "yields (gb_step_cpu gb) (\<lambda>gb'. if gb_frame gb' then gb_ok rom 256 gb' \<and> LY gb' = 144
    else (gb_ok rom 256 gb' \<and> gb_waits gb') \<and> gb_cycles_left gb' < gb_cycles_left gb)"
proof -
  have c: "0 < unat (4 :: u8)" "unat (4 :: u8) \<le> 36" by simp_all
  obtain gb' where s: "gb_step_cpu gb = Some gb'" "gb_ok rom 256 gb'" using gb_step_cpu_ok [OF ok] by (auto simp: yields_def)
  moreover have "gb_step_cpu gb = gb_timer 4 (gb_serial 4 (gb_div 4 gb)) \<bind> gb_lcd 4"
    using w by (intro gb_step_halted) (simp_all add: gb_waits_def)
  ultimately obtain g where g: "gb_timer 4 (gb_serial 4 (gb_div 4 gb)) = Some g" "gb_lcd 4 g = Some gb'"
    by (auto simp: bind_eq_Some_conv)
  have ok0: "gb_ok rom 264 gb" using ok by (rule gb_ok_weaken) simp
  have "gb_ok rom 256 g" using gb_timer_ok [OF gb_serial_ok [OF gb_div_ok [OF ok0 c(2)] c(2)], of 4] g(1) by (simp add: yields_def)
  moreover have gw: "gb_waits g \<and> LY g = LY gb \<and> lcd_count g = lcd_count gb"
    using gb_waits_timer [OF g(1)] w by (simp add: gb_waits_serial gb_waits_div)
  moreover have "gb_cycles_left g = gb_cycles_left gb" using gw by (simp add: gb_cycles_left_def gb_lines_left_def)
  ultimately show ?thesis using gb_lcd_waits [OF _ _ c g(2), of rom 256] s by (auto split: if_splits)
qed

text \<open>With the display off nothing sets the frame flag.\<close>

definition gb_stuck :: "gb_s \<Rightarrow> bool" where
  "gb_stuck gb \<longleftrightarrow> gb_halt gb \<and> IE gb AND 0x1F = 0 \<and> LCDC gb AND 0x80 = 0 \<and> \<not> gb_frame gb"

lemma gb_step_stuck:
  assumes "gb_stuck gb" "gb_step_cpu gb = Some gb'"
  shows "gb_stuck gb'"
proof -
  have "gb_step_cpu gb = gb_timer 4 (gb_serial 4 (gb_div 4 gb)) \<bind> gb_lcd 4"
    using assms(1) by (intro gb_step_halted) (simp_all add: gb_stuck_def)
  then have "gb_timer 4 (gb_serial 4 (gb_div 4 gb)) \<bind> gb_lcd 4 = Some gb'" using assms(2) by simp
  then obtain g where g: "gb_timer 4 (gb_serial 4 (gb_div 4 gb)) = Some g" "gb_lcd 4 g = Some gb'"
    by (auto simp: bind_eq_Some_conv)
  have "gb_stuck (gb_serial 4 (gb_div 4 gb))"
    using assms(1) by (simp add: gb_stuck_def gb_serial_def gb_div_def Let_def)
  then have "gb_stuck g"
    using g(1) by (auto simp: gb_timer_def gb_stuck_def Let_def split: bind_splits if_splits)
  moreover have "g = gb'" using g(2) \<open>gb_stuck g\<close> by (simp add: gb_lcd_def gb_stuck_def)
  ultimately show ?thesis by simp
qed

lemma gb_frame_loop_stuck:
  assumes "gb_frame_loop gb = Some gb'"
  shows "\<not> gb_stuck gb"
proof (rule gb_frame_loop.raw_induct [of "\<lambda>gb gb'. \<not> gb_stuck gb", OF _ assms], rule notI)
  fix loop :: "gb_s \<Rightarrow> gb_s option" and g g'
  assume IH: "\<And>g g'. loop g = Some g' \<Longrightarrow> \<not> gb_stuck g"
    and body: "(if \<not> gb_frame g then gb_step_cpu g \<bind> loop else Some g) = Some g'" and stuck: "gb_stuck g"
  then have "gb_step_cpu g \<bind> loop = Some g'" by (simp add: gb_stuck_def)
  then obtain h where h: "gb_step_cpu g = Some h" "loop h = Some g'" by (auto simp: bind_eq_Some_conv)
  show False using IH [OF h(2)] gb_step_stuck [OF stuck h(1)] by simp
qed

text \<open>A halted processor with no interrupt enabled and no display never sets the frame flag.\<close>

lemma gb_run_frame_stuck:
  assumes "gb_halt gb" "IE gb AND 0x1F = 0" "LCDC gb AND 0x80 = 0"
  shows "gb_run_frame gb = None"
proof -
  have "gb_stuck (gb\<lparr>gb_frame := False\<rparr>)" using assms by (simp add: gb_stuck_def)
  then show ?thesis
    using gb_frame_loop_stuck [of "gb\<lparr>gb_frame := False\<rparr>"] by (cases "gb_run_frame gb") (auto simp: gb_run_frame_def)
qed

section \<open>Properties\<close>

text \<open>
  C7: A step of the emulator is memory safe and keeps the invariant. From a state whose arrays have
  their sizes, whose cartridge has at most 32 ROM banks and 16 RAM banks and no clock registers, whose
  display line and clocks are in range, a step reads and writes inside of every array, divides by no
  zero, and ends in such a state with the same cartridge contents; the counters stay below a line, a
  divider period and a serial transfer.
\<close>

theorem gb_step_safe:
  assumes "gb_wf gb" "unat (div_count gb) < 256"
  shows "\<exists>gb'. gb_step_cpu gb = Some gb' \<and> gb_wf gb' \<and> unat (div_count gb') < 256 \<and> rom_data gb' = rom_data gb"
  using gb_step_cpu_ok [of "rom_data gb" gb] assms by (auto simp: gb_ok_def yields_def)

theorem gb_step_safe_witness:
  "gb_wf gb_blank \<and> unat (div_count gb_blank) < 256 \<and>
   (\<exists>gb'. gb_step_cpu gb_blank = Some gb' \<and> gb_wf gb' \<and> unat (div_count gb') < 256 \<and> rom_data gb' = rom_data gb_blank)"
proof -
  have "unat (div_count gb_blank) < 256" by (simp add: gb_blank_def)
  then show ?thesis using gb_step_safe [OF gb_blank_wf] gb_blank_wf by simp
qed

text \<open>
  C15: The frame loop returns for a program that waits for the vertical blank. If the processor is
  halted, no interrupt but the vertical blank is enabled, none is pending and the display is on, then
  \<^verbatim>\<open>gb_run_frame\<close> returns, at line 144 with the frame flag set and the invariant kept.
\<close>

theorem gb_run_frame_returns:
  assumes "gb_wf gb" "unat (div_count gb) < 256"
    and "gb_halt gb" "IE gb AND 0x1E = 0" "IF gb AND IE gb AND 0x1F = 0" "LCDC gb AND 0x80 \<noteq> 0"
  shows "\<exists>gb'. gb_run_frame gb = Some gb' \<and> gb_frame gb' \<and> LY gb' = 144 \<and> gb_wf gb'"
proof -
  let ?g = "gb\<lparr>gb_frame := False\<rparr>"
  have "gb_ok (rom_data gb) 256 ?g" "gb_waits ?g"
    using assms by (simp_all add: gb_ok_def gb_waits_def) (simp add: gb_wf_defs)
  then have "yields (gb_frame_loop ?g) (\<lambda>gb'. gb_frame gb' \<and> gb_ok (rom_data gb) 256 gb' \<and> LY gb' = 144)"
    by (intro frame_loop.loop_returns [where J = "\<lambda>gb'. gb_ok (rom_data gb) 256 gb' \<and> gb_waits gb'" and m = gb_cycles_left]
          gb_step_waits) simp_all
  then show ?thesis by (auto simp: gb_run_frame_def yields_def gb_ok_def)
qed

theorem gb_run_frame_returns_witness:
  "\<exists>gb'. gb_run_frame (gb_blank\<lparr>gb_halt := True, IE := 1\<rparr>) = Some gb' \<and> gb_frame gb' \<and> LY gb' = 144 \<and> gb_wf gb'"
proof -
  have "gb_wf (gb_blank\<lparr>gb_halt := True, IE := 1\<rparr>)" using gb_blank_wf by (simp add: gb_wf_defs)
  then show ?thesis by (rule gb_run_frame_returns) (simp_all add: gb_blank_def)
qed

end
