(* ===== verification/Gb_Proc.thy ===== *)
theory Gb_Proc
  imports Gb_Frame
begin

text \<open>
  Programs of the Game Boy processor: decimal arithmetic, the stack, calls and interrupts.
\<close>

section \<open>Decimal adjustment\<close>

definition bcd :: "nat \<Rightarrow> u8" where
  "bcd n = of_nat (16 * (n div 10) + n mod 10)"

text \<open>The adjustment on natural numbers, after an addition and after a subtraction.\<close>

definition daa_add :: "nat \<Rightarrow> bool \<Rightarrow> bool \<Rightarrow> nat" where
  "daa_add a h c = (let a = (if h \<or> 9 < a mod 16 then a + 6 else a) in if c \<or> 159 < a then a + 96 else a)"

definition daa_sub :: "nat \<Rightarrow> bool \<Rightarrow> bool \<Rightarrow> nat" where
  "daa_sub a h c = (let a = (if h then (a + 250) mod 256 else a) in if c then a + 65440 else a)"

lemma unat_and_15: "unat (a AND 0x0F :: u16) = unat a mod 16"
proof -
  have "a AND 0x0F = take_bit 4 a" by (simp add: take_bit_eq_mask mask_eq_exp_minus_1)
  then show ?thesis by (simp only: unsigned_take_bit_eq) (simp add: take_bit_eq_mod)
qed

lemma unat_and_FF: "unat (a AND 0xFF :: u16) = unat a mod 256"
proof -
  have "a AND 0xFF = take_bit 8 a" by (simp add: take_bit_eq_mask mask_eq_exp_minus_1)
  then show ?thesis by (simp only: unsigned_take_bit_eq) (simp add: take_bit_eq_mod)
qed

lemma and_0x100: "(a AND 0x100 = 0x100) = odd (unat (a :: u16) div 256)"
proof -
  have "a AND 2 ^ n = (if bit a n then 2 ^ n else 0)" for n
    by (rule bit_word_eqI) (auto simp: bit_simps)
  from this [of 8] have "a AND 0x100 = (if bit a 8 then 0x100 else 0)" by simp
  then show ?thesis by (simp add: bit_nat [of _ 8])
qed

lemma ucast_of_nat: "(ucast (w :: u16) :: u8) = of_nat (unat w)"
  by (simp add: unsigned_of_nat of_nat_unat)

lemma gb_daa_add:
  assumes "\<not> flag_n gb" and k: "k = daa_add (unat (reg_a gb)) (flag_h gb) (flag_c gb)"
  shows "reg_a (gb_daa gb) = of_nat k" "flag_c (gb_daa gb) \<longleftrightarrow> flag_c gb \<or> odd (k div 256)"
    "flag_z (gb_daa gb) \<longleftrightarrow> (of_nat k :: u8) = 0"
proof -
  define a1 where "a1 = (if flag_h gb \<or> (ucast (reg_a gb) :: u16) AND 0x0F > 9 then ucast (reg_a gb) + 0x06 else ucast (reg_a gb) :: u16)"
  define a where "a = (if flag_c gb \<or> a1 > 0x9F then a1 + 0x60 else a1)"
  have "unat a1 = (if flag_h gb \<or> 9 < unat (reg_a gb) mod 16 then unat (reg_a gb) + 6 else unat (reg_a gb))"
    using unat_less_u8 [of "reg_a gb"] by (auto simp: a1_def word_less_nat_alt unat_and_15 unat_u8_u16 unat_word_ariths simp del: unat_less_u8)
  moreover have "unat (a1 + 0x60) = unat a1 + 96" if "unat a1 < 300" using that by (simp add: unat_word_ariths)
  ultimately have "unat a = k"
    using unat_less_u8 [of "reg_a gb"] by (auto simp: a_def k daa_add_def Let_def word_less_nat_alt simp del: unat_less_u8)
  moreover have "gb_daa gb = (if a AND 0x100 = 0x100 then gb\<lparr>flag_c := True\<rparr> else gb)
      \<lparr>reg_a := ucast a, flag_z := (ucast a = (0 :: u8)), flag_h := False\<rparr>"
    using assms(1) by (simp add: gb_daa_def Let_def a_def a1_def)
  ultimately show "reg_a (gb_daa gb) = of_nat k" "flag_c (gb_daa gb) \<longleftrightarrow> flag_c gb \<or> odd (k div 256)"
    "flag_z (gb_daa gb) \<longleftrightarrow> (of_nat k :: u8) = 0"
    by (simp_all add: and_0x100 ucast_of_nat)
qed

lemma daa_add_digits:
  assumes "t < 19" "k < 20"
  shows "daa_add ((16 * t + k) mod 256) (16 \<le> k) (256 \<le> 16 * t + k) mod 256 = 16 * ((t + k div 10) mod 10) + k mod 10"
    "256 \<le> 16 * t + k \<or> odd (daa_add ((16 * t + k) mod 256) (16 \<le> k) (256 \<le> 16 * t + k) div 256) \<longleftrightarrow> 10 \<le> t + k div 10"
proof -
  have t: "t \<in> set [0, 1, 2, 3, 4, 5, 6, 7, 8, 9, 10, 11, 12, 13, 14, 15, 16, 17, 18]" "k \<in> set [0, 1, 2, 3, 4, 5, 6, 7, 8, 9, 10, 11, 12, 13, 14, 15, 16, 17, 18, 19]"
    using assms by (simp_all add: less_Suc_eq numeral_nat)
  have "list_all (\<lambda>t. list_all (\<lambda>k.
      daa_add ((16 * t + k) mod 256) (16 \<le> k) (256 \<le> 16 * t + k) mod 256 = 16 * ((t + k div 10) mod 10) + k mod 10 \<and>
      (256 \<le> 16 * t + k \<or> odd (daa_add ((16 * t + k) mod 256) (16 \<le> k) (256 \<le> 16 * t + k) div 256) \<longleftrightarrow>
        10 \<le> t + k div 10)) [0, 1, 2, 3, 4, 5, 6, 7, 8, 9, 10, 11, 12, 13, 14, 15, 16, 17, 18, 19])
      [0, 1, 2, 3, 4, 5, 6, 7, 8, 9, 10, 11, 12, 13, 14, 15, 16, 17, 18]"
    by (simp add: daa_add_def)
  then show "daa_add ((16 * t + k) mod 256) (16 \<le> k) (256 \<le> 16 * t + k) mod 256 = 16 * ((t + k div 10) mod 10) + k mod 10"
    "256 \<le> 16 * t + k \<or> odd (daa_add ((16 * t + k) mod 256) (16 \<le> k) (256 \<le> 16 * t + k) div 256) \<longleftrightarrow> 10 \<le> t + k div 10"
    using t unfolding list_all_iff by blast+
qed

text \<open>After a subtraction: \<open>p\<close> and \<open>q\<close> are the differences of the low and the high digits, moved up by 10 and 9.\<close>

lemma gb_daa_sub:
  assumes "flag_n gb" and k: "k = daa_sub (unat (reg_a gb)) (flag_h gb) (flag_c gb)"
  shows "reg_a (gb_daa gb) = of_nat k" "flag_c (gb_daa gb) \<longleftrightarrow> flag_c gb \<or> odd (k mod 65536 div 256)"
    "flag_z (gb_daa gb) \<longleftrightarrow> (of_nat k :: u8) = 0"
proof -
  define a1 where "a1 = (if flag_h gb then (ucast (reg_a gb) - 0x06) AND 0xFF else ucast (reg_a gb) :: u16)"
  define a where "a = (if flag_c gb then a1 - 0x60 else a1)"
  have minus: "x - 0x06 = x + 65530" "x - 0x60 = x + 65440" for x :: u16 by simp_all
  have "(n + 65530) mod 65536 mod 256 = (n + 250) mod (256 :: nat)" for n
    using mod_mod_cancel [of 256 65536 "n + 65530"] mod_add_eq [of n 256 65530] by (simp add: mod_simps)
  then have "unat a1 = (if flag_h gb then (unat (reg_a gb) + 250) mod 256 else unat (reg_a gb))"
    unfolding a1_def minus by (simp add: unat_and_FF unat_word_ariths unat_u8_u16)
  moreover have "unat (a1 + 65440) = (unat a1 + 65440) mod 65536" by (simp add: unat_word_ariths)
  ultimately have "unat a = k mod 65536"
    unfolding a_def minus k daa_sub_def Let_def using unat_less_u16 [of a1] by auto
  moreover have "gb_daa gb = (if a AND 0x100 = 0x100 then gb\<lparr>flag_c := True\<rparr> else gb)
      \<lparr>reg_a := ucast a, flag_z := (ucast a = (0 :: u8)), flag_h := False\<rparr>"
    using assms(1) by (simp add: gb_daa_def Let_def a_def a1_def)
  moreover have "(of_nat (k mod 65536) :: u8) = of_nat k" by (simp add: word_of_nat_eq_iff take_bit_eq_mod mod_mod_cancel)
  ultimately show "reg_a (gb_daa gb) = of_nat k" "flag_c (gb_daa gb) \<longleftrightarrow> flag_c gb \<or> odd (k mod 65536 div 256)"
    "flag_z (gb_daa gb) \<longleftrightarrow> (of_nat k :: u8) = 0"
    by (simp_all add: and_0x100 ucast_of_nat)
qed

lemma daa_sub_digits:
  assumes "p < 20" "q < 19"
  shows "daa_sub ((16 * q + p + 102) mod 256) (p < 10) (16 * q + p < 154) mod 256 = 16 * ((q + p div 10) mod 10) + p mod 10"
    "16 * q + p < 154 \<or> odd (daa_sub ((16 * q + p + 102) mod 256) (p < 10) (16 * q + p < 154) mod 65536 div 256) \<longleftrightarrow>
       q + p div 10 < 10"
proof -
  have t: "q \<in> set [0, 1, 2, 3, 4, 5, 6, 7, 8, 9, 10, 11, 12, 13, 14, 15, 16, 17, 18]" "p \<in> set [0, 1, 2, 3, 4, 5, 6, 7, 8, 9, 10, 11, 12, 13, 14, 15, 16, 17, 18, 19]"
    using assms by (simp_all add: less_Suc_eq numeral_nat)
  have "list_all (\<lambda>q. list_all (\<lambda>p.
      daa_sub ((16 * q + p + 102) mod 256) (p < 10) (16 * q + p < 154) mod 256 = 16 * ((q + p div 10) mod 10) + p mod 10 \<and>
      (16 * q + p < 154 \<or> odd (daa_sub ((16 * q + p + 102) mod 256) (p < 10) (16 * q + p < 154) mod 65536 div 256) \<longleftrightarrow>
        q + p div 10 < 10)) [0, 1, 2, 3, 4, 5, 6, 7, 8, 9, 10, 11, 12, 13, 14, 15, 16, 17, 18, 19]) [0, 1, 2, 3, 4, 5, 6, 7, 8, 9, 10, 11, 12, 13, 14, 15, 16, 17, 18]"
    by (simp add: daa_sub_def)
  then show "daa_sub ((16 * q + p + 102) mod 256) (p < 10) (16 * q + p < 154) mod 256 = 16 * ((q + p div 10) mod 10) + p mod 10"
    "16 * q + p < 154 \<or> odd (daa_sub ((16 * q + p + 102) mod 256) (p < 10) (16 * q + p < 154) mod 65536 div 256) \<longleftrightarrow>
       q + p div 10 < 10"
    using t unfolding list_all_iff by blast+
qed

lemma unat_bcd: "x < 100 \<Longrightarrow> unat (bcd x) = 16 * (x div 10) + x mod 10"
proof -
  assume "x < 100"
  then have "x div 10 < 10" by (simp add: div_less_iff_less_mult)
  then have "16 * (x div 10) + x mod 10 < 256" using mod_less_divisor [of 10 x] by linarith
  then show ?thesis unfolding bcd_def by (rule unat_of_nat_u8)
qed

lemma bcd_eqI:
  assumes "d mod 256 = 16 * (s div 10 mod 10) + s mod 10"
  shows "of_nat d = bcd (s mod 100)"
proof -
  have "s mod 100 div 10 = s div 10 mod 10" "s mod 100 mod 10 = s mod 10"
    using mod_mult2_eq [of s 10 10] by (simp_all add: mod_mod_cancel)
  then have "d mod 256 = 16 * (s mod 100 div 10) + s mod 100 mod 10" using assms by simp
  moreover have "(of_nat d :: u8) = of_nat (d mod 256)" by (simp add: word_of_nat_eq_iff take_bit_eq_mod)
  ultimately show ?thesis by (simp only: bcd_def)
qed

lemma bcd_zero: "s < 100 \<Longrightarrow> bcd s = 0 \<longleftrightarrow> s = 0"
proof -
  assume "s < 100"
  then have "bcd s = 0 \<longleftrightarrow> 16 * (s div 10) + s mod 10 = 0" by (simp add: unat_bcd flip: unat_eq_0)
  also have "\<dots> \<longleftrightarrow> s = 0" by (metis add_is_0 div_mult_mod_eq mult_is_0 numeral_eq_iff zero_neq_numeral div_0 mod_0)
  finally show ?thesis .
qed

text \<open>Digits of a sum.\<close>

lemma bcd_digits: "x < 100 \<Longrightarrow> unat (bcd x) mod 16 = x mod 10" "x < 100 \<Longrightarrow> x div 10 < 10"
proof -
  assume x: "x < 100"
  then show "x div 10 < 10" by (simp add: div_less_iff_less_mult)
  have "x mod 10 < 16" using mod_less_divisor [of 10 x] by linarith
  then show "unat (bcd x) mod 16 = x mod 10" unfolding unat_bcd [OF x] by simp
qed

lemma daa_after_add:
  assumes x: "x < 100" "y < 100" and a: "reg_a gb = bcd x"
    and g: "g = gb_daa (do_alu f (bcd y) gb)" and f: "f = Add \<and> c = 0 \<or> f = Adc \<and> c = of_bool (flag_c gb)"
  shows "reg_a g = bcd ((x + y + c) mod 100)" "flag_c g \<longleftrightarrow> 100 \<le> x + y + c" "flag_z g \<longleftrightarrow> (x + y + c) mod 100 = 0"
proof -
  define t k where "t = x div 10 + y div 10" and "k = x mod 10 + y mod 10 + c"
  let ?h = "do_alu f (bcd y) gb"
  have c: "c \<le> 1" using f by auto
  have tk: "t < 19" "k < 20"
    using bcd_digits(2) [OF x(1)] bcd_digits(2) [OF x(2)] mod_less_divisor [of 10 x] mod_less_divisor [of 10 y] c
    unfolding t_def k_def by linarith+
  have s: "x + y + c = 10 * t + k" by (simp add: t_def k_def)
  have q: "(x + y + c) div 10 = t + k div 10" "(x + y + c) mod 10 = k mod 10" unfolding s by simp_all
  obtain b where b: "c = of_bool b" "spec_alu f (reg_a gb) (bcd y) (flag_c gb) = spec_add (bcd x) (bcd y) b"
    using f a by (elim disjE conjE) (auto intro: that [of False] that [of "flag_c gb"])
  have u: "unat (bcd x + bcd y + of_bool b) = (unat (bcd x) + unat (bcd y) + of_bool b) mod 256"
    by (simp add: unat_word_ariths mod_simps)
  have k: "unat (bcd x) + unat (bcd y) + of_bool b = 16 * t + k"
    by (simp add: unat_bcd x t_def k_def b(1))
  have h: "\<not> flag_n ?h" "flag_h ?h \<longleftrightarrow> 16 \<le> k" "flag_c ?h \<longleftrightarrow> 256 \<le> 16 * t + k" "unat (reg_a ?h) = (16 * t + k) mod 256"
    unfolding k [symmetric] u [symmetric] unfolding k_def b(1) bcd_digits(1) [OF x(1), symmetric] bcd_digits(1) [OF x(2), symmetric]
    by (simp_all add: do_alu_def b(2) spec_add_def Let_def)
  define d where "d = daa_add ((16 * t + k) mod 256) (16 \<le> k) (256 \<le> 16 * t + k)"
  note daa = gb_daa_add [OF h(1), of d, unfolded h(2-4), OF d_def, folded g]
  have "d mod 256 = 16 * ((t + k div 10) mod 10) + k mod 10" unfolding d_def by (rule daa_add_digits [OF tk])
  then have r: "of_nat d = bcd ((x + y + c) mod 100)" using q by (intro bcd_eqI) simp
  then show "reg_a g = bcd ((x + y + c) mod 100)" using daa(1) by simp
  show "flag_z g \<longleftrightarrow> (x + y + c) mod 100 = 0" using daa(3) r by (simp add: bcd_zero)
  have "100 \<le> x + y + c \<longleftrightarrow> 10 \<le> t + k div 10" unfolding q(1) [symmetric] by (simp add: less_eq_div_iff_mult_less_eq)
  then show "flag_c g \<longleftrightarrow> 100 \<le> x + y + c"
    using daa(2) daa_add_digits(2) [OF tk] unfolding d_def by (simp only:)
qed

lemma digits_diff:
  assumes "x1 \<le> 9" "y1 \<le> 9" "x0 \<le> 9" "y0 \<le> 9" "c \<le> (1 :: nat)"
  shows "10 * x1 + x0 + 100 - (10 * y1 + y0 + c) = 10 * (x1 + 9 - y1) + (x0 + 10 - (y0 + c))"
    "16 * x1 + x0 + 256 - (16 * y1 + y0 + c) = 16 * (x1 + 9 - y1) + (x0 + 10 - (y0 + c)) + 102"
    "16 * x1 + x0 < 16 * y1 + y0 + c \<longleftrightarrow> 16 * (x1 + 9 - y1) + (x0 + 10 - (y0 + c)) < 154"
    "x0 < y0 + c \<longleftrightarrow> x0 + 10 - (y0 + c) < 10"
  using assms by linarith+

lemma unat_sub_borrow: "unat (a - v - of_bool b :: u8) = (unat a + 256 - (unat v + of_bool b)) mod 256"
proof -
  have "unat v + of_bool b \<le> unat a + 256" using unat_less_u8 [of v] by (simp add: of_bool_def del: unat_less_u8)
  then have "(of_nat (unat a + 256 - (unat v + of_bool b)) :: u8) = a - v - of_bool b"
    by (simp add: of_nat_diff)
  moreover have "unat (of_nat n :: u8) = n mod 256" for n by (simp add: unat_of_nat take_bit_eq_mod)
  ultimately show ?thesis by metis
qed

lemma daa_after_sub:
  assumes x: "x < 100" "y < 100" and a: "reg_a gb = bcd x"
    and g: "g = gb_daa (do_alu f (bcd y) gb)" and f: "f = Sub \<and> c = 0 \<or> f = Sbc \<and> c = of_bool (flag_c gb)"
  shows "reg_a g = bcd ((x + 100 - (y + c)) mod 100)" "flag_c g \<longleftrightarrow> x < y + c" "flag_z g \<longleftrightarrow> (x + 100 - (y + c)) mod 100 = 0"
proof -
  define q p where "q = x div 10 + 9 - y div 10" and "p = x mod 10 + 10 - (y mod 10 + c)"
  let ?h = "do_alu f (bcd y) gb"
  obtain b where b: "c = of_bool b" "spec_alu f (reg_a gb) (bcd y) (flag_c gb) = spec_sub (bcd x) (bcd y) b"
    using f a by (elim disjE conjE) (auto intro: that [of False] that [of "flag_c gb"])
  have xy: "x div 10 \<le> 9" "y div 10 \<le> 9" "x mod 10 \<le> 9" "y mod 10 \<le> 9" "c \<le> 1"
    using bcd_digits(2) [OF x(1)] bcd_digits(2) [OF x(2)] mod_less_divisor [of 10 x] mod_less_divisor [of 10 y] b(1) by simp_all
  note diff = digits_diff [OF xy, folded q_def p_def]
  have pq: "p < 20" "q < 19" using xy unfolding p_def q_def by simp_all
  have s: "x + 100 - (y + c) = 10 * q + p" using diff(1) by simp
  have k: "(x + 100 - (y + c)) div 10 = q + p div 10" "(x + 100 - (y + c)) mod 10 = p mod 10" unfolding s by simp_all
  have e: "unat (bcd x) + 256 - (unat (bcd y) + of_bool b) = 16 * q + p + 102"
    "unat (bcd x) < unat (bcd y) + of_bool b \<longleftrightarrow> 16 * q + p < 154"
    using diff(2,3) by (simp_all add: unat_bcd x b(1))
  have h: "flag_n ?h" "flag_h ?h \<longleftrightarrow> p < 10" "flag_c ?h \<longleftrightarrow> 16 * q + p < 154" "unat (reg_a ?h) = (16 * q + p + 102) mod 256"
    using diff(4) unfolding e [symmetric] unat_sub_borrow [symmetric] b(1)
    by (simp_all add: do_alu_def b(2) spec_sub_def Let_def bcd_digits(1) [OF x(1)] bcd_digits(1) [OF x(2)])
  define d where "d = daa_sub ((16 * q + p + 102) mod 256) (p < 10) (16 * q + p < 154)"
  note daa = gb_daa_sub [OF h(1), of d, unfolded h(2-4), OF d_def, folded g]
  have "d mod 256 = 16 * ((q + p div 10) mod 10) + p mod 10" unfolding d_def by (rule daa_sub_digits [OF pq])
  then have r: "of_nat d = bcd ((x + 100 - (y + c)) mod 100)" using k by (intro bcd_eqI) simp
  then show "reg_a g = bcd ((x + 100 - (y + c)) mod 100)" using daa(1) by simp
  show "flag_z g \<longleftrightarrow> (x + 100 - (y + c)) mod 100 = 0" using daa(3) r by (simp add: bcd_zero)
  have "x < y + c \<longleftrightarrow> x + 100 - (y + c) < 100" using x xy(5) by linarith
  also have "\<dots> \<longleftrightarrow> q + p div 10 < 10" unfolding k(1) [symmetric] by (simp add: div_less_iff_less_mult)
  finally show "flag_c g \<longleftrightarrow> x < y + c"
    using daa(2) daa_sub_digits(2) [OF pq] unfolding d_def by (simp only:)
qed

text \<open>
  C14: Decimal arithmetic. When the accumulator and the operand hold two decimal digits, the decimal
  adjustment after an addition with or without carry gives the two digits of the sum and the carry out
  of the hundreds, and after a subtraction with or without borrow the two digits of the difference
  modulo 100 and the borrow.
\<close>

theorem daa_decimal:
  assumes "x < 100" "y < 100" "reg_a gb = bcd x"
  shows "(let g = gb_daa (gb_add (bcd y) gb) in
      reg_a g = bcd ((x + y) mod 100) \<and> (flag_c g \<longleftrightarrow> 100 \<le> x + y) \<and> (flag_z g \<longleftrightarrow> (x + y) mod 100 = 0)) \<and>
    (let g = gb_daa (gb_adc (bcd y) gb); s = x + y + of_bool (flag_c gb) in
      reg_a g = bcd (s mod 100) \<and> (flag_c g \<longleftrightarrow> 100 \<le> s) \<and> (flag_z g \<longleftrightarrow> s mod 100 = 0)) \<and>
    (let g = gb_daa (gb_sub (bcd y) gb) in
      reg_a g = bcd ((x + 100 - y) mod 100) \<and> (flag_c g \<longleftrightarrow> x < y) \<and> (flag_z g \<longleftrightarrow> (x + 100 - y) mod 100 = 0)) \<and>
    (let g = gb_daa (gb_sbc (bcd y) gb); s = y + of_bool (flag_c gb) in
      reg_a g = bcd ((x + 100 - s) mod 100) \<and> (flag_c g \<longleftrightarrow> x < s) \<and> (flag_z g \<longleftrightarrow> (x + 100 - s) mod 100 = 0))"
  unfolding gb_add_spec gb_adc_spec gb_sub_spec gb_sbc_spec Let_def
  using daa_after_add [OF assms refl, of Add 0] daa_after_add [OF assms refl, of Adc]
    daa_after_sub [OF assms refl, of Sub 0] daa_after_sub [OF assms refl, of Sbc]
  by simp

theorem daa_decimal_witness:
  "reg_a (gb_daa (gb_add (bcd 75) (gb_blank\<lparr>reg_a := bcd 38\<rparr>))) = 0x13 \<and>
   flag_c (gb_daa (gb_add (bcd 75) (gb_blank\<lparr>reg_a := bcd 38\<rparr>))) \<and>
   reg_a (gb_daa (gb_sub (bcd 75) (gb_blank\<lparr>reg_a := bcd 38\<rparr>))) = 0x63"
  using daa_decimal [of 38 75 "gb_blank\<lparr>reg_a := bcd 38\<rparr>"] by (simp add: Let_def) (simp add: bcd_def)

end
