(* ===== verification/Gb_Stack.thy ===== *)
theory Gb_Stack
  imports Gb_Frame
begin

text \<open>
  The stack of the Game Boy processor: work RAM and high RAM as a byte store, push and pop, calls and
  returns, and the dispatch of interrupts.
\<close>

section \<open>A byte store\<close>

text \<open>What a stack needs of a memory: on its RAM addresses a store is read back and disturbs no other.\<close>

locale byte_store =
  fixes load :: "'s \<Rightarrow> 'a \<Rightarrow> 'v option" and store :: "'s \<Rightarrow> 'a \<Rightarrow> 'v \<Rightarrow> 's option" and ram :: "'s \<Rightarrow> 'a \<Rightarrow> bool"
    and move :: "'s \<Rightarrow> 's"
  assumes store_total: "ram s a \<Longrightarrow> \<exists>s'. store s a v = Some s' \<and> ram s' = ram s"
    and load_same: "ram s a \<Longrightarrow> store s a v = Some s' \<Longrightarrow> load s' a = Some v"
    and load_other: "ram s a \<Longrightarrow> ram s b \<Longrightarrow> a \<noteq> b \<Longrightarrow> store s a v = Some s' \<Longrightarrow> load s' b = load s b"
    and load_move: "load (move s) = load s" and ram_move: "ram (move s) = ram s"
begin

lemma store_two:
  assumes "ram s a" "ram s b" "a \<noteq> b"
  obtains s1 s2 where "store s a v = Some s1" "store (move s1) b w = Some s2" "ram s1 = ram s" "ram s2 = ram s"
    "load s2 a = Some v" "load s2 b = Some w"
proof -
  obtain s1 where s1: "store s a v = Some s1" "ram s1 = ram s" using store_total [OF assms(1)] by blast
  then obtain s2 where s2: "store (move s1) b w = Some s2" "ram s2 = ram s1"
    using store_total [of "move s1" b w] assms(2) by (auto simp: ram_move)
  have "load s2 a = load s1 a" using load_other [OF _ _ _ s2(1)] assms s1(2) by (simp add: load_move ram_move)
  then show ?thesis
    using s1 s2 load_same [OF assms(1) s1(1)] load_same [OF _ s2(1)] assms(2) by (intro that [of s1 s2]) (auto simp: ram_move)
qed

end

section \<open>Work RAM and high RAM\<close>

definition gb_ram :: "gb_s \<Rightarrow> u32 \<Rightarrow> bool" where
  "gb_ram gb addr \<longleftrightarrow>
     length (wram gb) = 0x2000 \<and> length (hram gb) = 0x100 \<and>
     (0xC000 \<le> addr \<and> addr < 0xE000 \<or> 0xFF80 \<le> addr \<and> addr < 0xFFFF)"

lemma gb_ramE:
  assumes "gb_ram gb addr"
  obtains (wram) "addr < 0xE000" "0xC000 \<le> unat addr" "unat addr < 0xE000" "unat (addr - 0xC000) < length (wram gb)"
  | (hram) "\<not> addr < 0xE000" "0xFF80 \<le> unat addr" "unat addr < 0xFFFF" "unat (addr - 0xFF80) < length (hram gb)"
    "\<not> addr < 0xFE00" "\<not> addr < 0xFEA0" "\<not> addr < 0xFF00" "0xFF80 \<le> addr" "addr < 0xFFFF"
proof (cases "addr < 0xE000")
  case True
  then have "0xC000 \<le> unat addr" "unat addr < 0xE000" "length (wram gb) = 0x2000"
    using assms by (auto simp: gb_ram_def word_less_nat_alt word_le_nat_alt)
  then show ?thesis using True by (intro wram) (simp_all add: unat_sub_nat)
next
  case False
  then have a: "0xFF80 \<le> addr" "addr < 0xFFFF" and l: "length (hram gb) = 0x100" using assms by (auto simp: gb_ram_def)
  then have "0xFF80 \<le> unat addr" "unat addr < 0xFFFF" by (simp_all add: word_less_nat_alt word_le_nat_alt)
  then show ?thesis using False a l by (intro hram) (simp_all add: unat_sub_nat word_less_nat_alt)
qed

lemma gb_write_ram:
  assumes "gb_ram gb addr"
  shows "gb_write gb addr v = Some (if addr < 0xE000 then gb\<lparr>wram := (wram gb)[unat (addr - 0xC000) := v]\<rparr>
    else gb\<lparr>hram := (hram gb)[unat (addr - 0xFF80) := v]\<rparr>)"
  using assms
proof (cases rule: gb_ramE)
  case wram
  have d: "addr - 0xD000 + 0x1000 = addr - 0xC000" by simp
  show ?thesis
    unfolding gb_write_def Let_def d using wram by (cases "unat addr < 0xD000") (simp_all add: page_le page_eq)
next
  case hram
  then show ?thesis by (simp add: gb_write_def gb_high_write_def Let_def page_le page_eq)
qed

lemma gb_read_ram:
  assumes "gb_ram gb addr"
  shows "gb_read gb addr = Some (if addr < 0xE000 then wram gb ! unat (addr - 0xC000) else hram gb ! unat (addr - 0xFF80))"
  using assms
proof (cases rule: gb_ramE)
  case wram
  have d: "addr - 0xD000 + 0x1000 = addr - 0xC000" by simp
  show ?thesis
    unfolding gb_read_def Let_def d using wram by (cases "unat addr < 0xD000") (simp_all add: page_le page_eq)
next
  case hram
  then show ?thesis by (simp add: gb_read_def gb_high_read_def Let_def page_le page_eq)
qed

interpretation gb_store: byte_store gb_read gb_write gb_ram "\<lambda>gb. gb\<lparr>reg_sp := reg_sp gb - 1\<rparr>"
proof
  fix gb addr b v gb'
  assume a: "gb_ram gb addr"
  show "\<exists>gb'. gb_write gb addr v = Some gb' \<and> gb_ram gb' = gb_ram gb"
    by (simp add: gb_write_ram [OF a] gb_ram_def fun_eq_iff)
  assume w: "gb_write gb addr v = Some gb'"
  then have a': "gb_ram gb' addr" and b': "gb_ram gb b \<Longrightarrow> gb_ram gb' b" using a by (auto simp: gb_write_ram gb_ram_def)
  have i: "addr < 0xE000 \<Longrightarrow> unat (addr - 0xC000) < length (wram gb)"
    "\<not> addr < 0xE000 \<Longrightarrow> unat (addr - 0xFF80) < length (hram gb)"
    by (use a in \<open>cases rule: gb_ramE; simp\<close>)+
  show "gb_read gb' addr = Some v"
    using w i unfolding gb_read_ram [OF a'] gb_write_ram [OF a] by (auto split: if_splits)
  assume b: "gb_ram gb b" "addr \<noteq> b"
  have ne: "unat (addr - k) \<noteq> unat (b - k)" for k
  proof -
    have "addr - k \<noteq> b - k" using b(2) by simp
    then show ?thesis by (simp only: word_unat_eq_iff not_False_eq_True)
  qed
  show "gb_read gb' b = gb_read gb b"
    using w ne unfolding gb_read_ram [OF b' [OF b(1)]] gb_read_ram [OF b(1)] gb_write_ram [OF a]
    by (auto split: if_splits simp: nth_list_update)
next
  fix gb
  show "gb_read (gb\<lparr>reg_sp := reg_sp gb - 1\<rparr>) = gb_read gb" by (simp add: fun_eq_iff)
  show "gb_ram (gb\<lparr>reg_sp := reg_sp gb - 1\<rparr>) = gb_ram gb" by (simp add: fun_eq_iff gb_ram_def)
qed

section \<open>Push and pop\<close>

text \<open>The two bytes below the stack pointer are RAM.\<close>

definition gb_stack_room :: "gb_s \<Rightarrow> bool" where
  "gb_stack_room gb \<longleftrightarrow> gb_ram gb (ucast (reg_sp gb - 1)) \<and> gb_ram gb (ucast (reg_sp gb - 2))"

lemma ucast_u16_inj: "(ucast (v :: u16) :: u32) = ucast w \<longleftrightarrow> v = w"
  by (metis hl32 word_unat_eq_iff)

lemma gb_write_ram_frame:
  "gb_ram gb addr \<Longrightarrow> gb_write gb addr v = Some g \<Longrightarrow> g = gb\<lparr>wram := wram g, hram := hram g\<rparr>"
  by (auto simp: gb_write_ram split: if_splits)

lemma gb_sp_frame: "reg_sp (gb\<lparr>reg_sp := sp, wram := w, hram := h\<rparr>) = sp"
  by simp

lemma gb_push_two:
  assumes "gb_stack_room gb"
  obtains g1 g where "gb_push hi gb = Some g1" "gb_push lo g1 = Some g"
    "gb_read g (ucast (reg_sp gb - 2)) = Some lo" "gb_read g (ucast (reg_sp gb - 1)) = Some hi"
    "g1 = gb\<lparr>reg_sp := reg_sp gb - 1, wram := wram g1, hram := hram g1\<rparr>"
    "g = gb\<lparr>reg_sp := reg_sp gb - 2, wram := wram g, hram := hram g\<rparr>" "gb_ram g = gb_ram gb"
proof -
  let ?g = "gb\<lparr>reg_sp := reg_sp gb - 1\<rparr>"
  have ram: "gb_ram ?g (ucast (reg_sp gb - 1))" "gb_ram ?g (ucast (reg_sp gb - 2))"
    using assms by (simp_all add: gb_stack_room_def gb_store.ram_move)
  moreover have "(ucast (reg_sp gb - 1) :: u32) \<noteq> ucast (reg_sp gb - 2)" by (simp add: ucast_u16_inj)
  ultimately obtain g1 g where g: "gb_write ?g (ucast (reg_sp gb - 1)) hi = Some g1"
    "gb_write (g1\<lparr>reg_sp := reg_sp g1 - 1\<rparr>) (ucast (reg_sp gb - 2)) lo = Some g" "gb_ram g1 = gb_ram ?g" "gb_ram g = gb_ram ?g"
    "gb_read g (ucast (reg_sp gb - 1)) = Some hi" "gb_read g (ucast (reg_sp gb - 2)) = Some lo"
    by (rule gb_store.store_two)
  have g1: "g1 = ?g\<lparr>wram := wram g1, hram := hram g1\<rparr>" using ram(1) g(1) by (rule gb_write_ram_frame)
  then have sp1: "reg_sp g1 = reg_sp gb - 1" by (metis gb_sp_frame)
  have "gb_ram (g1\<lparr>reg_sp := reg_sp g1 - 1\<rparr>) (ucast (reg_sp gb - 2))"
    using ram(2) by (simp add: gb_store.ram_move g(3))
  then have "g = g1\<lparr>reg_sp := reg_sp g1 - 1, wram := wram g, hram := hram g\<rparr>" using g(2) gb_write_ram_frame by blast
  then have "g = gb\<lparr>reg_sp := reg_sp gb - 2, wram := wram g, hram := hram g\<rparr>"
    by (subst (asm) g1) (simp add: sp1)
  then show ?thesis
    using g g1 sp1 by (intro that [of g1 g]) (simp_all add: gb_push_def Let_def gb_store.ram_move)
qed

text \<open>A state whose stack has the same two bytes on top as another's.\<close>

definition same_stack :: "gb_s \<Rightarrow> gb_s \<Rightarrow> bool" where
  "same_stack g h \<longleftrightarrow>
     reg_sp h = reg_sp g \<and> gb_read h (ucast (reg_sp g)) = gb_read g (ucast (reg_sp g)) \<and>
     gb_read h (ucast (reg_sp g + 1)) = gb_read g (ucast (reg_sp g + 1))"

lemma gb_pop_two:
  assumes "same_stack g h" "gb_read g (ucast (reg_sp g)) = Some lo" "gb_read g (ucast (reg_sp g + 1)) = Some hi"
  shows "gb_pop h = Some (lo, h\<lparr>reg_sp := reg_sp g + 1\<rparr>)"
    "gb_pop (h\<lparr>reg_sp := reg_sp g + 1\<rparr>) = Some (hi, h\<lparr>reg_sp := reg_sp g + 2\<rparr>)"
  using assms by (simp_all add: gb_pop_def same_stack_def)

lemma gb_ret_same:
  assumes "same_stack g h" "gb_read g (ucast (reg_sp g)) = Some lo" "gb_read g (ucast (reg_sp g + 1)) = Some hi"
  shows "gb_ret h = Some (h\<lparr>reg_sp := reg_sp g + 2, reg_pc := pair16 hi lo\<rparr>)"
  using gb_pop_two [OF assms] by (simp add: gb_ret_def gb_pop16_def)

lemma pair16_split: "pair16 (hi8 w) (lo8 w) = w"
  unfolding lo8_def u16_low_byte by (rule bit_word_eqI) (auto simp: pair16_def hi8_def bit_simps)

lemma gb_push_pc_two:
  assumes "gb_stack_room gb"
  obtains g where "gb_push_pc gb = Some g"
    "gb_read g (ucast (reg_sp gb - 2)) = Some (lo8 (reg_pc gb))" "gb_read g (ucast (reg_sp gb - 1)) = Some (hi8 (reg_pc gb))"
    "g = gb\<lparr>reg_sp := reg_sp gb - 2, wram := wram g, hram := hram g\<rparr>" "gb_ram g = gb_ram gb"
proof -
  obtain g1 g where g: "gb_push (hi8 (reg_pc gb)) gb = Some g1" "gb_push (lo8 (reg_pc gb)) g1 = Some g"
    "gb_read g (ucast (reg_sp gb - 2)) = Some (lo8 (reg_pc gb))" "gb_read g (ucast (reg_sp gb - 1)) = Some (hi8 (reg_pc gb))"
    "g1 = gb\<lparr>reg_sp := reg_sp gb - 1, wram := wram g1, hram := hram g1\<rparr>"
    "g = gb\<lparr>reg_sp := reg_sp gb - 2, wram := wram g, hram := hram g\<rparr>" "gb_ram g = gb_ram gb"
    using assms by (rule gb_push_two)
  have "reg_pc g1 = reg_pc gb" by (subst g(5)) simp
  then show ?thesis using g by (intro that [of g]) (simp_all add: gb_push_pc_def)
qed

lemma gb_imm16_total:
  assumes "gb_wf gb"
  obtains target where "gb_imm16 gb = Some (target, gb\<lparr>reg_pc := reg_pc gb + 2\<rparr>)"
proof -
  obtain lo hi where "gb_read gb (ucast (reg_pc gb)) = Some lo" "gb_read gb (ucast (reg_pc gb + 1)) = Some hi"
    using gb_read_total [OF assms] by blast
  then show ?thesis by (intro that [of "pair16 hi lo"]) (simp add: gb_imm16_def gb_fetch_def)
qed

lemma gb_read_IF: "gb_ram gb addr \<Longrightarrow> gb_read (gb\<lparr>reg_pc := pc, IF := v\<rparr>) addr = gb_read gb addr"
  by (simp add: gb_read_ram gb_ram_def)

definition push_opcode :: "stk \<Rightarrow> u8" where
  "push_opcode s = (case s of S_BC \<Rightarrow> 0xC5 | S_DE \<Rightarrow> 0xD5 | S_HL \<Rightarrow> 0xE5 | S_AF \<Rightarrow> 0xF5)"

definition pop_opcode :: "stk \<Rightarrow> u8" where
  "pop_opcode s = (case s of S_BC \<Rightarrow> 0xC1 | S_DE \<Rightarrow> 0xD1 | S_HL \<Rightarrow> 0xE1 | S_AF \<Rightarrow> 0xF1)"

lemma stk_opcodes: "decode (push_opcode s) = Push s" "decode (pop_opcode s) = Pop s"
  by (cases s; simp add: push_opcode_def pop_opcode_def decode_defs)+

lemma stk_set_bytes: "stk_bytes s gb = (hi, lo) \<Longrightarrow> stk_bytes s (stk_set s hi lo h) = (hi, lo)"
  by (cases s; cases "flag_z gb"; cases "flag_n gb"; cases "flag_h gb"; cases "flag_c gb") auto

lemma stk_set_sp: "reg_sp (stk_set s hi lo h) = reg_sp h"
  by (cases s) simp_all

section \<open>Interrupts\<close>

lemma and_power_bit: "(p :: u8) AND 2 ^ n \<noteq> 0 \<longleftrightarrow> bit p n"
  by (simp add: and_exp_eq_0_iff_not_bit)

lemmas and_bits = and_power_bit [of _ 0, simplified] and_power_bit [of _ 1, simplified]
  and_power_bit [of _ 2, simplified] and_power_bit [of _ 3, simplified] and_power_bit [of _ 4, simplified]

lemma xor_power: "bit v n \<Longrightarrow> (v :: u8) XOR 2 ^ n = unset_bit n v"
  by (rule bit_word_eqI) (auto simp: bit_simps)

lemma gb_vector_bit:
  assumes "n < 5" "bit (IF gb) n" "bit (IE gb) n" "\<forall>m<n. \<not> (bit (IF gb) m \<and> bit (IE gb) m)"
  shows "gb_vector gb = gb\<lparr>reg_pc := 0x40 + 8 * of_nat n, IF := unset_bit n (IF gb)\<rparr>"
proof -
  define p where "p = IF gb AND IE gb"
  have p: "bit p n" "m < n \<Longrightarrow> \<not> bit p m" for m using assms(2-4) by (auto simp: p_def bit_and_iff)
  consider "n = 0" | "n = Suc 0" | "n = 2" | "n = 3" | "n = 4" using assms(1) by linarith
  then have "gb_vector gb = gb\<lparr>reg_pc := 0x40 + 8 * of_nat n, IF := IF gb XOR 2 ^ n\<rparr>"
    unfolding gb_vector_def Let_def p_def [symmetric] and_bits
    using p(1) p(2) [of 0] p(2) [of "Suc 0"] p(2) [of 2] p(2) [of 3] by cases simp_all
  then show ?thesis by (simp only: xor_power [OF assms(2)])
qed

lemma gb_pending:
  assumes "n < 5" "bit (IF gb) n" "bit (IE gb) n"
  shows "IF gb AND IE gb AND 0x1F \<noteq> 0"
proof
  assume "IF gb AND IE gb AND 0x1F = 0"
  then have "\<not> bit (IF gb AND IE gb AND mask 5) n" by (simp add: mask_numeral)
  then show False using assms by (simp add: bit_simps)
qed

lemma gb_blank_sp: "reg_sp gb_blank = 0xFFFE" "reg_pc gb_blank = 0x100"
  by (simp_all add: gb_blank_def)

lemma gb_blank_stack: "gb_stack_room gb_blank"
  using gb_blank_wf by (simp add: gb_stack_room_def gb_ram_def gb_blank_sp gb_wf_defs)

section \<open>Properties\<close>

text \<open>
  C20: A call returns. With RAM below the stack pointer, CALL jumps to its operand with two bytes
  pushed; in any later state that has the stack pointer and these two bytes as the call left them, RET
  continues behind the operand of the call with the stack pointer restored.
\<close>

theorem call_returns:
  assumes "gb_wf gb" "gb_stack_room gb"
  shows "\<exists>target g. gb_imm16 gb = Some (target, gb\<lparr>reg_pc := reg_pc gb + 2\<rparr>) \<and>
    gb_switch 0xCD gb = Some (g, 0) \<and> reg_pc g = target \<and> reg_sp g = reg_sp gb - 2 \<and>
    (\<forall>h. same_stack g h \<longrightarrow>
      gb_switch 0xC9 h = Some (h\<lparr>reg_sp := reg_sp gb, reg_pc := reg_pc gb + 2\<rparr>, 0))"
proof -
  obtain target where t: "gb_imm16 gb = Some (target, gb\<lparr>reg_pc := reg_pc gb + 2\<rparr>)"
    using assms(1) by (rule gb_imm16_total)
  let ?gb = "gb\<lparr>reg_pc := reg_pc gb + 2\<rparr>"
  have "gb_stack_room ?gb" using assms(2) by (simp add: gb_stack_room_def gb_ram_def)
  then obtain g where g: "gb_push_pc ?gb = Some g"
    "gb_read g (ucast (reg_sp ?gb - 2)) = Some (lo8 (reg_pc ?gb))" "gb_read g (ucast (reg_sp ?gb - 1)) = Some (hi8 (reg_pc ?gb))"
    "g = ?gb\<lparr>reg_sp := reg_sp ?gb - 2, wram := wram g, hram := hram g\<rparr>" "gb_ram g = gb_ram ?gb"
    by (rule gb_push_pc_two)
  have sp: "reg_sp g = reg_sp gb - 2" by (subst g(4)) simp
  let ?g = "g\<lparr>reg_pc := target\<rparr>"
  have "gb_switch 0xCD gb = Some (?g, 0)"
    using t g(1) by (simp add: gb_switch_exec decode_defs gb_call_def gb_done_def)
  moreover have "gb_switch 0xC9 h = Some (h\<lparr>reg_sp := reg_sp gb, reg_pc := reg_pc gb + 2\<rparr>, 0)" if "same_stack ?g h" for h
    using gb_ret_same [OF that, of "lo8 (reg_pc ?gb)" "hi8 (reg_pc ?gb)"] g(2-3) sp
    by (simp add: gb_switch_exec decode_defs gb_done_def pair16_split)
  ultimately show ?thesis using t sp by (intro exI [of _ target] exI [of _ ?g]) simp
qed

theorem call_returns_witness:
  "\<exists>target g. gb_imm16 gb_blank = Some (target, gb_blank\<lparr>reg_pc := reg_pc gb_blank + 2\<rparr>) \<and>
    gb_switch 0xCD gb_blank = Some (g, 0) \<and> reg_pc g = target \<and> reg_sp g = 0xFFFC \<and>
    (\<forall>h. same_stack g h \<longrightarrow> gb_switch 0xC9 h = Some (h\<lparr>reg_sp := 0xFFFE, reg_pc := 0x102\<rparr>, 0))"
  using call_returns [OF gb_blank_wf gb_blank_stack] by (simp add: gb_blank_sp)

text \<open>
  A push is undone by its pop. With RAM below the stack pointer, PUSH of a register pair moves the
  stack pointer by two, and in any later state that has the stack pointer and the two bytes as the push
  left them, POP of the same pair restores the pair (the flags too, for AF) and the stack pointer.
\<close>

theorem push_pop:
  assumes "gb_stack_room gb"
  shows "\<exists>g. gb_switch (push_opcode s) gb = Some (g, 0) \<and> reg_sp g = reg_sp gb - 2 \<and>
    (\<forall>h. same_stack g h \<longrightarrow>
      (\<exists>h'. gb_switch (pop_opcode s) h = Some (h', 0) \<and> reg_sp h' = reg_sp gb \<and> stk_bytes s h' = stk_bytes s gb))"
proof -
  obtain hi lo where b: "stk_bytes s gb = (hi, lo)" by fastforce
  obtain g1 g where g: "gb_push hi gb = Some g1" "gb_push lo g1 = Some g"
    "gb_read g (ucast (reg_sp gb - 2)) = Some lo" "gb_read g (ucast (reg_sp gb - 1)) = Some hi"
    "g = gb\<lparr>reg_sp := reg_sp gb - 2, wram := wram g, hram := hram g\<rparr>" "gb_ram g = gb_ram gb"
    using assms by (rule gb_push_two)
  have sp: "reg_sp g = reg_sp gb - 2" by (subst g(5)) simp
  have push: "gb_switch (push_opcode s) gb = Some (g, 0)" using b g(1,2) by (simp add: gb_switch_exec stk_opcodes gb_done_def)
  have "\<exists>h'. gb_switch (pop_opcode s) h = Some (h', 0) \<and> reg_sp h' = reg_sp gb \<and> stk_bytes s h' = stk_bytes s gb"
    if "same_stack g h" for h
    using gb_pop_two [OF that, of lo hi] g(3,4) sp stk_set_bytes [OF b]
    by (simp add: gb_switch_exec stk_opcodes gb_done_def b stk_set_sp)
  then show ?thesis using push sp by blast
qed

theorem push_pop_witness:
  "\<exists>g. gb_switch (push_opcode S_AF) gb_blank = Some (g, 0) \<and> reg_sp g = 0xFFFC \<and>
    (\<forall>h. same_stack g h \<longrightarrow> (\<exists>h'. gb_switch (pop_opcode S_AF) h = Some (h', 0) \<and> reg_sp h' = 0xFFFE \<and>
      stk_bytes S_AF h' = stk_bytes S_AF gb_blank))"
  using push_pop [OF gb_blank_stack, of S_AF] by (simp add: gb_blank_sp)

text \<open>
  C19: An interrupt is dispatched and returns. With interrupts enabled and RAM below the stack pointer,
  the pending enabled interrupt of the lowest number \<open>n\<close> is served: execution continues at
  \<open>0x40 + 8 * n\<close>, exactly its request bit is cleared, interrupts are off and the processor is no longer
  halted. In any later state with the same two bytes on the stack, RETI continues where the interrupt hit,
  with the stack pointer restored and interrupts on.
\<close>

theorem interrupt_dispatch:
  assumes "gb_stack_room gb" "gb_ime gb" "n < 5" "bit (IF gb) n" "bit (IE gb) n"
    "\<forall>m<n. \<not> (bit (IF gb) m \<and> bit (IE gb) m)"
  shows "\<exists>g. gb_interrupts gb = Some g \<and> reg_pc g = 0x40 + 8 * of_nat n \<and> IF g = unset_bit n (IF gb) \<and>
    IE g = IE gb \<and> \<not> gb_ime g \<and> \<not> gb_halt g \<and>
    (\<forall>h. same_stack g h \<longrightarrow>
      gb_switch 0xD9 h = Some (h\<lparr>reg_sp := reg_sp gb, reg_pc := reg_pc gb, gb_ime := True\<rparr>, 0))"
proof -
  let ?gb = "gb\<lparr>gb_halt := False, gb_ime := False\<rparr>"
  have "gb_stack_room ?gb" using assms(1) by (simp add: gb_stack_room_def gb_ram_def)
  then obtain g where g: "gb_push_pc ?gb = Some g"
    "gb_read g (ucast (reg_sp ?gb - 2)) = Some (lo8 (reg_pc ?gb))" "gb_read g (ucast (reg_sp ?gb - 1)) = Some (hi8 (reg_pc ?gb))"
    "g = ?gb\<lparr>reg_sp := reg_sp ?gb - 2, wram := wram g, hram := hram g\<rparr>" "gb_ram g = gb_ram ?gb"
    by (rule gb_push_pc_two)
  have r: "reg_sp g = reg_sp gb - 2" "IF g = IF gb" "IE g = IE gb" "\<not> gb_ime g" "\<not> gb_halt g"
    by (subst g(4), simp)+
  have v: "gb_vector g = g\<lparr>reg_pc := 0x40 + 8 * of_nat n, IF := unset_bit n (IF g)\<rparr>" (is "_ = ?g")
    using assms(3-6) by (intro gb_vector_bit) (simp_all add: r)
  have i: "gb_interrupts gb = Some ?g"
    using assms(2) gb_pending [OF assms(3-5)] g(1) v by (simp add: gb_interrupts_def Let_def)
  have ram: "gb_ram g (ucast (reg_sp gb - 2))" "gb_ram g (ucast (reg_sp gb - 1))"
    using \<open>gb_stack_room ?gb\<close> by (simp_all add: gb_stack_room_def g(5))
  have "gb_switch 0xD9 h = Some (h\<lparr>reg_sp := reg_sp gb, reg_pc := reg_pc gb, gb_ime := True\<rparr>, 0)" if "same_stack ?g h" for h
    using gb_ret_same [OF that, of "lo8 (reg_pc gb)" "hi8 (reg_pc gb)"] g(2,3) r(1)
    by (simp add: gb_read_IF [OF ram(1)] gb_read_IF [OF ram(2)] gb_switch_exec decode_defs gb_done_def pair16_split)
  then show ?thesis using i r by (intro exI [of _ ?g]) simp
qed

theorem interrupt_dispatch_witness:
  "\<exists>g. gb_interrupts (gb_blank\<lparr>gb_ime := True, IF := 0x0C, IE := 0x1E\<rparr>) = Some g \<and> reg_pc g = 0x50 \<and> IF g = 0x08 \<and>
    IE g = 0x1E \<and> \<not> gb_ime g \<and> \<not> gb_halt g \<and>
    (\<forall>h. same_stack g h \<longrightarrow> gb_switch 0xD9 h = Some (h\<lparr>reg_sp := 0xFFFE, reg_pc := 0x100, gb_ime := True\<rparr>, 0))"
proof -
  let ?gb = "gb_blank\<lparr>gb_ime := True, IF := 0x0C, IE := 0x1E\<rparr>"
  have room: "gb_stack_room ?gb" using gb_blank_stack by (simp add: gb_stack_room_def gb_ram_def)
  have none: "\<forall>m<2. \<not> (bit (IF ?gb) m \<and> bit (IE ?gb) m)" by (auto simp: less_2_cases_iff)
  have "bit (IF ?gb) 2" "bit (IE ?gb) 2" by simp_all
  then show ?thesis
    using interrupt_dispatch [OF room _ _ _ _ none] by (simp add: gb_blank_sp)
qed

end
