(* ===== verification/Libz_Socket.thy ===== *)
theory Libz_Socket
  imports Libz_Net Libz_Cstring
begin

text \<open>
  Sockets (\<^verbatim>\<open>src/libz/socket/socket.c\<close>): building and handling of ARP, ICMP, TCP and UDP frames, the
  TCP connection state, accepting, receiving, connecting, resolving and binding. A frame that a routine
  sends is appended to a list; the frames that arrive are given as the contents of the receive
  buffer. The local arrays \<^verbatim>\<open>data\<close> of the routines are not initialised, so their contents are arguments.
\<close>

section \<open>Sockets\<close>

abbreviation (input) TCP_STATE_LISTEN :: u32 where "TCP_STATE_LISTEN \<equiv> 1"
abbreviation (input) TCP_STATE_SYNSENT :: u32 where "TCP_STATE_SYNSENT \<equiv> 2"
abbreviation (input) TCP_STATE_SYNRECEIVED :: u32 where "TCP_STATE_SYNRECEIVED \<equiv> 3"
abbreviation (input) TCP_STATE_ESTABLISHED :: u32 where "TCP_STATE_ESTABLISHED \<equiv> 4"
abbreviation (input) TCP_STATE_FINWAIT1 :: u32 where "TCP_STATE_FINWAIT1 \<equiv> 5"
abbreviation (input) TCP_STATE_FINWAIT2 :: u32 where "TCP_STATE_FINWAIT2 \<equiv> 6"
abbreviation (input) TCP_STATE_CLOSING :: u32 where "TCP_STATE_CLOSING \<equiv> 8"
abbreviation (input) TCP_STATE_LASTACK :: u32 where "TCP_STATE_LASTACK \<equiv> 9"
abbreviation (input) TCP_STATE_CLOSED :: u32 where "TCP_STATE_CLOSED \<equiv> 11"
abbreviation (input) TCP_FLAGS1_FIN :: u8 where "TCP_FLAGS1_FIN \<equiv> 0x01"
abbreviation (input) TCP_FLAGS1_SYN :: u8 where "TCP_FLAGS1_SYN \<equiv> 0x02"
abbreviation (input) TCP_FLAGS1_PSH :: u8 where "TCP_FLAGS1_PSH \<equiv> 0x08"
abbreviation (input) TCP_FLAGS1_ACK :: u8 where "TCP_FLAGS1_ACK \<equiv> 0x10"
abbreviation (input) SOCKET_MTUSIZE :: u32 where "SOCKET_MTUSIZE \<equiv> 1518"

text \<open>
  The union \<^verbatim>\<open>info\<close>: the UDP port overlays the first two bytes of the member \<^verbatim>\<open>state\<close> of the TCP
  structure, the low half of a little-endian word.
\<close>

record socket =
  resolved :: u32
  haddress :: "u8 list"
  paddress :: "u8 list"
  tcp_state :: u32
  tcp_seq :: u32
  tcp_ack :: u32
  tcp_port :: "u8 list"

definition udp_port :: "socket \<Rightarrow> u8 list" where
  "udp_port s = [ucast (tcp_state s), ucast (drop_bit 8 (tcp_state s))]"

definition set_udp_port :: "u8 list \<Rightarrow> socket \<Rightarrow> socket option" where
  "set_udp_port p s =
     do { p0 \<leftarrow> rd p 0; p1 \<leftarrow> rd p 1;
          Some (s\<lparr>tcp_state := (tcp_state s AND 0xFFFF0000) OR push_bit 8 (ucast p1) OR ucast p0\<rparr>) }"

definition socket_init :: "socket \<Rightarrow> socket" where
  "socket_init s = s\<lparr>resolved := 0\<rparr>"

section \<open>Building frames\<close>

definition buildarp ::
  "u8 list \<Rightarrow> u32 \<Rightarrow> socket \<Rightarrow> socket \<Rightarrow> socket \<Rightarrow> u16 \<Rightarrow> u8 list \<Rightarrow> u8 list \<Rightarrow> u8 list \<Rightarrow> u8 list \<Rightarrow> (u32 \<times> u8 list) option" where
  "buildarp odata ocount local remote router operation sha sip tha tip =
     do { (eh, d) \<leftarrow> ethernet_putheader odata 0 0x0806 (haddress local) (haddress router);
          (ah, d) \<leftarrow> arp_putheader d (unat ethernet_hlen) 1 6 0x0800 4 operation;
          let length = ucast ethernet_hlen + ucast arp_hlen;
          (n, d) \<leftarrow> buffer_write d 0 ocount sha 6 length;
          let length = length + n;
          (n, d) \<leftarrow> buffer_write d 0 ocount sip 4 length;
          let length = length + n;
          (n, d) \<leftarrow> buffer_write d 0 ocount tha 6 length;
          let length = length + n;
          (n, d) \<leftarrow> buffer_write d 0 ocount tip 4 length;
          Some (length + n, d) }"

definition buildicmp ::
  "u8 list \<Rightarrow> u32 \<Rightarrow> socket \<Rightarrow> socket \<Rightarrow> socket \<Rightarrow> u8 \<Rightarrow> u8 \<Rightarrow> u32 \<Rightarrow> u8 list \<Rightarrow> (u32 \<times> u8 list) option" where
  "buildicmp odata ocount local remote router type code count buffer =
     do { (eh, d) \<leftarrow> ethernet_putheader odata 0 0x0800 (haddress local) (haddress router);
          (ih, d) \<leftarrow> ipv4_putheader d (unat ethernet_hlen) (paddress local) (paddress remote) 0x01 (ucast (4 + count));
          ilen \<leftarrow> ipv4_hlen d ih;
          (ch, d) \<leftarrow> icmp_putheader d (unat ethernet_hlen + unat ilen) type code;
          let length = ucast ethernet_hlen + ucast ilen + ucast icmp_hlen;
          (n, d) \<leftarrow> buffer_write d 0 ocount buffer count length;
          checksum \<leftarrow> icmp_calculatechecksum d ch (ucast icmp_hlen + count);
          d \<leftarrow> buffer_copy d (ch + 2) (le16 checksum) 2;
          Some (length + n, d) }"

definition buildtcp ::
  "u8 list \<Rightarrow> u32 \<Rightarrow> socket \<Rightarrow> socket \<Rightarrow> socket \<Rightarrow> u16 \<Rightarrow> u32 \<Rightarrow> u32 \<Rightarrow> u8 list \<Rightarrow> (u32 \<times> u8 list) option" where
  "buildtcp odata ocount local remote router flags window count buffer =
     do { (eh, d) \<leftarrow> ethernet_putheader odata 0 0x0800 (haddress local) (haddress router);
          (ih, d) \<leftarrow> ipv4_putheader d (unat ethernet_hlen) (paddress local) (paddress remote) 0x06 (ucast (20 + count));
          ilen \<leftarrow> ipv4_hlen d ih;
          (th, d) \<leftarrow> tcp_putheader d (unat ethernet_hlen + unat ilen) (tcp_port local) (tcp_port remote) flags
            (tcp_seq remote) (tcp_ack remote) window;
          tlen \<leftarrow> tcp_hlen d th;
          let length = ucast ethernet_hlen + ucast ilen + ucast tlen;
          (n, d) \<leftarrow> buffer_write d 0 ocount buffer count length;
          checksum \<leftarrow> tcp_checksum d th (paddress local) (paddress remote) (tlen + ucast count);
          d \<leftarrow> buffer_copy d (th + 16) (le16 checksum) 2;
          Some (length + n, d) }"

definition buildudp ::
  "u8 list \<Rightarrow> u32 \<Rightarrow> socket \<Rightarrow> socket \<Rightarrow> socket \<Rightarrow> u32 \<Rightarrow> u8 list \<Rightarrow> (u32 \<times> u8 list) option" where
  "buildudp odata ocount local remote router count buffer =
     do { (eh, d) \<leftarrow> ethernet_putheader odata 0 0x0800 (haddress local) (haddress router);
          (ih, d) \<leftarrow> ipv4_putheader d (unat ethernet_hlen) (paddress local) (paddress remote) 0x11 (ucast (8 + count));
          ilen \<leftarrow> ipv4_hlen d ih;
          (uh, d) \<leftarrow> udp_putheader d (unat ethernet_hlen + unat ilen) (udp_port local) (udp_port remote) count;
          let length = ucast ethernet_hlen + ucast ilen + ucast udp_hlen;
          (n, d) \<leftarrow> buffer_write d 0 ocount buffer count length;
          checksum \<leftarrow> udp_checksum d uh (paddress local) (paddress remote) (udp_hlen + ucast count);
          d \<leftarrow> buffer_copy d (uh + 6) (le16 checksum) 2;
          Some (length + n, d) }"

text \<open>\<^verbatim>\<open>send(descriptor, data, build(...))\<close>: the frame is the first bytes of the array.\<close>

type_synonym frames = "u8 list list"

definition send :: "(u32 \<times> u8 list) option \<Rightarrow> frames \<Rightarrow> frames option" where
  "send built sent = do { (count, d) \<leftarrow> built; Some (sent @ [take (unat count) d]) }"

section \<open>Handling frames\<close>

text \<open>
  The local socket \<^verbatim>\<open>answer\<close> of \<^verbatim>\<open>handlearp\<close> before it is filled in. Every member of it that is
  read has been assigned by then, so its first contents do not matter.
\<close>

definition blank :: socket where
  "blank = \<lparr>resolved = 0, haddress = replicate 6 0, paddress = replicate 4 0, tcp_state = 0, tcp_seq = 0, tcp_ack = 0,
     tcp_port = replicate 2 0\<rparr>"

definition handlearp ::
  "u8 list \<Rightarrow> socket \<Rightarrow> socket \<Rightarrow> u8 list \<Rightarrow> nat \<Rightarrow> nat \<Rightarrow> frames \<Rightarrow> (socket \<times> frames) option" where
  "handlearp stk local remote b h p sent =
     do { operation \<leftarrow> net_load16 b (h + 6);
          if operation = 1 then
            do { hl \<leftarrow> net_load8 b (h + 4); pl \<leftarrow> net_load8 b (h + 5);
                 m \<leftarrow> buffer_match (drop (p + unat hl + unat pl + unat hl) b) (paddress local) 4;
                 if m \<noteq> 0 then
                   do { ha \<leftarrow> buffer_copy (haddress blank) 0 (drop p b) 6;
                        pa \<leftarrow> buffer_copy (paddress blank) 0 (drop (p + unat hl) b) 4;
                        let answer = (socket_init blank)\<lparr>haddress := ha, paddress := pa\<rparr>;
                        sent \<leftarrow> send (buildarp stk SOCKET_MTUSIZE local answer answer 2 (haddress local) (paddress local)
                          (drop p b) (drop (p + unat hl) b)) sent;
                        Some (remote, sent) }
                 else Some (remote, sent) }
          else if operation = 2 then
            do { ha \<leftarrow> buffer_copy (haddress remote) 0 (drop p b) 6;
                 Some (remote\<lparr>haddress := ha, resolved := 1\<rparr>, sent) }
          else Some (remote, sent) }"

definition handleicmp ::
  "u8 list \<Rightarrow> socket \<Rightarrow> socket \<Rightarrow> socket \<Rightarrow> u8 list \<Rightarrow> nat \<Rightarrow> nat \<Rightarrow> u32 \<Rightarrow> frames \<Rightarrow> frames option" where
  "handleicmp stk local remote router b h p psize sent =
     do { type \<leftarrow> net_load8 b h;
          if type = 8 then send (buildicmp stk SOCKET_MTUSIZE local remote router 0 0 psize (drop p b)) sent
          else Some sent }"

text \<open>The acknowledgement that most branches of \<^verbatim>\<open>handletcp\<close> send.\<close>

definition sendtcp :: "u8 list \<Rightarrow> socket \<Rightarrow> socket \<Rightarrow> socket \<Rightarrow> u8 \<Rightarrow> frames \<Rightarrow> (socket \<times> frames) option" where
  "sendtcp stk local remote router flags sent =
     do { sent \<leftarrow> send (buildtcp stk SOCKET_MTUSIZE local remote router (ucast flags) 4096 0 []) sent; Some (remote, sent) }"

text \<open>
  The whole header is read first. The flags lie behind both numbers and the length byte, which the
  caller has read, so this adds no access beyond a receive array that holds a header.
\<close>

definition handletcp ::
  "u8 list \<Rightarrow> socket \<Rightarrow> socket \<Rightarrow> socket \<Rightarrow> u8 list \<Rightarrow> nat \<Rightarrow> u32 \<Rightarrow> frames \<Rightarrow> (socket \<times> frames) option" where
  "handletcp stk local remote router b h psize sent =
     do { flags \<leftarrow> rd b (h + 13);
          seqno \<leftarrow> net_load32 b (h + 4);
          ackno \<leftarrow> net_load32 b (h + 8);
          let state = tcp_state remote;
          if state = TCP_STATE_LISTEN then
            (if flags = TCP_FLAGS1_SYN then
               sendtcp stk local (remote\<lparr>tcp_state := TCP_STATE_SYNRECEIVED, tcp_ack := seqno + 1\<rparr>) router
                 (TCP_FLAGS1_ACK OR TCP_FLAGS1_SYN) sent
             else Some (remote, sent))
          else if state = TCP_STATE_SYNSENT then
            (if flags = TCP_FLAGS1_SYN OR TCP_FLAGS1_ACK then
               sendtcp stk local (remote\<lparr>tcp_state := TCP_STATE_ESTABLISHED, tcp_seq := ackno, tcp_ack := seqno + 1\<rparr>) router
                 TCP_FLAGS1_ACK sent
             else if flags = TCP_FLAGS1_SYN then
               sendtcp stk local (remote\<lparr>tcp_state := TCP_STATE_SYNRECEIVED, tcp_ack := seqno + 1\<rparr>) router TCP_FLAGS1_ACK sent
             else Some (remote, sent))
          else if state = TCP_STATE_SYNRECEIVED then
            Some (if flags = TCP_FLAGS1_ACK then remote\<lparr>tcp_state := TCP_STATE_ESTABLISHED, tcp_seq := ackno\<rparr> else remote, sent)
          else if state = TCP_STATE_ESTABLISHED then
            (if flags = TCP_FLAGS1_ACK \<or> flags = TCP_FLAGS1_PSH OR TCP_FLAGS1_ACK then
               (let remote = remote\<lparr>tcp_seq := ackno, tcp_ack := seqno + psize\<rparr> in
                if psize \<noteq> 0 then sendtcp stk local remote router TCP_FLAGS1_ACK sent else Some (remote, sent))
             else if flags = TCP_FLAGS1_FIN OR TCP_FLAGS1_ACK \<or> flags = TCP_FLAGS1_FIN OR TCP_FLAGS1_PSH OR TCP_FLAGS1_ACK then
               sendtcp stk local (remote\<lparr>tcp_state := TCP_STATE_CLOSED, tcp_seq := ackno, tcp_ack := seqno + psize + 1\<rparr>) router
                 TCP_FLAGS1_ACK sent
             else Some (remote, sent))
          else if state = TCP_STATE_FINWAIT1 then
            (if flags = TCP_FLAGS1_ACK then Some (remote\<lparr>tcp_state := TCP_STATE_FINWAIT2, tcp_seq := ackno\<rparr>, sent)
             else if flags = TCP_FLAGS1_FIN then
               sendtcp stk local (remote\<lparr>tcp_state := TCP_STATE_CLOSING, tcp_ack := seqno + 1\<rparr>) router TCP_FLAGS1_ACK sent
             else Some (remote, sent))
          else if state = TCP_STATE_FINWAIT2 then
            Some (if flags = TCP_FLAGS1_FIN then remote\<lparr>tcp_state := TCP_STATE_CLOSED\<rparr> else remote, sent)
          else if state = TCP_STATE_CLOSING \<or> state = TCP_STATE_LASTACK then
            Some (if flags = TCP_FLAGS1_ACK then remote\<lparr>tcp_state := TCP_STATE_CLOSED, tcp_seq := ackno\<rparr> else remote, sent)
          else Some (remote, sent) }"

definition handleudp :: "u32 \<Rightarrow> u32" where
  "handleudp psize = psize"

definition socket_handle_arp ::
  "u8 list \<Rightarrow> socket \<Rightarrow> socket \<Rightarrow> u8 list \<Rightarrow> frames \<Rightarrow> (socket \<times> frames) option" where
  "socket_handle_arp stk local remote b sent =
     do { type \<leftarrow> net_load16 b 12;
          if type = 0x0806 then
            handlearp stk local remote b (unat ethernet_hlen) (unat ethernet_hlen + unat arp_hlen) sent
          else Some (remote, sent) }"

definition socket_handle_icmp ::
  "u8 list \<Rightarrow> socket \<Rightarrow> socket \<Rightarrow> socket \<Rightarrow> u8 list \<Rightarrow> frames \<Rightarrow> frames option" where
  "socket_handle_icmp stk local remote router b sent =
     do { type \<leftarrow> net_load16 b 12;
          if type = 0x0800 then
            do { let ih = unat ethernet_hlen;
                 ilen \<leftarrow> ipv4_hlen b ih; itot \<leftarrow> ipv4_len b ih; protocol \<leftarrow> net_load8 b (ih + 9);
                 if protocol = 0x01 then
                   handleicmp stk local remote router b (ih + unat ilen) (ih + unat ilen + unat icmp_hlen)
                     (ucast itot - (ucast ilen + ucast icmp_hlen)) sent
                 else Some sent }
          else Some sent }"

definition socket_handle_tcp ::
  "u8 list \<Rightarrow> socket \<Rightarrow> socket \<Rightarrow> socket \<Rightarrow> u8 list \<Rightarrow> u32 \<Rightarrow> u8 list \<Rightarrow> frames \<Rightarrow>
   (u32 \<times> u8 list \<times> socket \<times> frames) option" where
  "socket_handle_tcp stk local remote router b outputcount output sent =
     do { type \<leftarrow> net_load16 b 12;
          if type = 0x0800 then
            do { let ih = unat ethernet_hlen;
                 ilen \<leftarrow> ipv4_hlen b ih; itot \<leftarrow> ipv4_len b ih; protocol \<leftarrow> net_load8 b (ih + 9);
                 if protocol = 0x06 then
                   do { let th = ih + unat ilen;
                        tlen \<leftarrow> tcp_hlen b th;
                        tp \<leftarrow> net_load16 b (th + 2); port \<leftarrow> net_load16 (tcp_port local) 0;
                        if tp = port then
                          do { let p = th + unat tlen;
                               let psize = ucast itot - (ucast ilen + ucast tlen);
                               (remote, sent) \<leftarrow> handletcp stk local remote router b th psize sent;
                               (n, output) \<leftarrow>
                                 (if psize \<noteq> 0 then buffer_write output 0 outputcount (drop p b) psize 0 else Some (0, output));
                               Some (n, output, remote, sent) }
                        else Some (0, output, remote, sent) }
                 else Some (0, output, remote, sent) }
          else Some (0, output, remote, sent) }"

definition socket_handle_udp ::
  "socket \<Rightarrow> u8 list \<Rightarrow> u32 \<Rightarrow> u8 list \<Rightarrow> (u32 \<times> u8 list) option" where
  "socket_handle_udp local b outputcount output =
     do { type \<leftarrow> net_load16 b 12;
          if type = 0x0800 then
            do { let ih = unat ethernet_hlen;
                 ilen \<leftarrow> ipv4_hlen b ih; itot \<leftarrow> ipv4_len b ih; protocol \<leftarrow> net_load8 b (ih + 9);
                 if protocol = 0x11 then
                   do { let uh = ih + unat ilen;
                        tp \<leftarrow> net_load16 b (uh + 2); port \<leftarrow> net_load16 (udp_port local) 0;
                        if tp = port then
                          do { let psize = ucast itot - (ucast ilen + ucast udp_hlen);
                               if handleudp psize \<noteq> 0 then buffer_write output 0 outputcount (drop (uh + unat udp_hlen) b) psize 0
                               else Some (0, output) }
                        else Some (0, output) }
                 else Some (0, output) }
          else Some (0, output) }"

section \<open>Sending and accepting\<close>

definition socket_send_tcp ::
  "u8 list \<Rightarrow> socket \<Rightarrow> socket \<Rightarrow> socket \<Rightarrow> u32 \<Rightarrow> u8 list \<Rightarrow> frames \<Rightarrow> (u32 \<times> frames) option" where
  "socket_send_tcp stk local remote router psize pdata sent =
     (if tcp_state remote = TCP_STATE_ESTABLISHED then
        do { sent \<leftarrow> send (buildtcp stk SOCKET_MTUSIZE local remote router (ucast (TCP_FLAGS1_PSH OR TCP_FLAGS1_ACK)) 4096 psize pdata) sent;
             Some (psize, sent) }
      else Some (0, sent))"

definition socket_send_udp ::
  "u8 list \<Rightarrow> socket \<Rightarrow> socket \<Rightarrow> socket \<Rightarrow> u32 \<Rightarrow> u8 list \<Rightarrow> frames \<Rightarrow> (u32 \<times> frames) option" where
  "socket_send_udp stk local remote router psize pdata sent =
     do { sent \<leftarrow> send (buildudp stk SOCKET_MTUSIZE local remote router psize pdata) sent; Some (psize, sent) }"

text \<open>
  The accepting routines return a pointer into \<^verbatim>\<open>remotes\<close>: \<open>Some i\<close> for \<^verbatim>\<open>&remotes[i]\<close>, \<open>None\<close> for null,
  with the array as they leave it.
\<close>

definition socket_accept_arp :: "socket list \<Rightarrow> u8 list \<Rightarrow> nat option option" where
  "socket_accept_arp remotes b =
     do { type \<leftarrow> net_load16 b 12; Some (if type = 0x0806 then Some 0 else None) }"

text \<open>The loops over the remotes, from index \<open>i\<close> on; \<open>th\<close> and \<open>uh\<close> are the places of the headers.\<close>

primrec accept_tcp_loop :: "nat \<Rightarrow> nat \<Rightarrow> socket list \<Rightarrow> u8 list \<Rightarrow> nat \<Rightarrow> (nat option \<times> socket list) option" where
  "accept_tcp_loop 0 i remotes b th = Some (None, remotes)"
| "accept_tcp_loop (Suc n) i remotes b th =
     do { remote \<leftarrow> rd remotes i;
          if resolved remote \<noteq> 0 then
            do { mh \<leftarrow> buffer_match (haddress remote) (drop 6 b) 6;
                 if mh = 0 then accept_tcp_loop n (i + 1) remotes b th
                 else do {
                   mp \<leftarrow> buffer_match (paddress remote) (drop (unat ethernet_hlen + 12) b) 4;
                   if mp = 0 then accept_tcp_loop n (i + 1) remotes b th
                   else do {
                     mq \<leftarrow> buffer_match (tcp_port remote) (drop th b) 2;
                     if mq = 0 then accept_tcp_loop n (i + 1) remotes b th
                     else Some (Some i, remotes) } } }
          else
            do { ha \<leftarrow> buffer_copy (haddress remote) 0 (drop 6 b) 6;
                 pa \<leftarrow> buffer_copy (paddress remote) 0 (drop (unat ethernet_hlen + 12) b) 4;
                 po \<leftarrow> buffer_copy (tcp_port remote) 0 (drop th b) 2;
                 seqno \<leftarrow> net_load32 b (th + 4);
                 Some (Some i, remotes[i := remote\<lparr>haddress := ha, paddress := pa, tcp_port := po, tcp_ack := seqno, resolved := 1\<rparr>]) } }"

definition socket_accept_tcp :: "socket \<Rightarrow> socket list \<Rightarrow> u32 \<Rightarrow> u8 list \<Rightarrow> (nat option \<times> socket list) option" where
  "socket_accept_tcp local remotes nremotes b =
     do { type \<leftarrow> net_load16 b 12;
          if type = 0x0800 then
            do { let ih = unat ethernet_hlen;
                 ilen \<leftarrow> ipv4_hlen b ih; protocol \<leftarrow> net_load8 b (ih + 9);
                 if protocol = 0x06 then
                   do { let th = ih + unat ilen;
                        tp \<leftarrow> net_load16 b (th + 2); port \<leftarrow> net_load16 (tcp_port local) 0;
                        if tp = port then accept_tcp_loop (unat nremotes) 0 remotes b th else Some (None, remotes) }
                 else Some (None, remotes) }
          else Some (None, remotes) }"

primrec accept_udp_loop :: "nat \<Rightarrow> nat \<Rightarrow> socket list \<Rightarrow> u8 list \<Rightarrow> nat \<Rightarrow> (nat option \<times> socket list) option" where
  "accept_udp_loop 0 i remotes b uh = Some (None, remotes)"
| "accept_udp_loop (Suc n) i remotes b uh =
     do { remote \<leftarrow> rd remotes i;
          if resolved remote \<noteq> 0 then
            do { mh \<leftarrow> buffer_match (haddress remote) (drop 6 b) 6;
                 if mh = 0 then accept_udp_loop n (i + 1) remotes b uh
                 else do {
                   mp \<leftarrow> buffer_match (paddress remote) (drop (unat ethernet_hlen + 12) b) 4;
                   if mp = 0 then accept_udp_loop n (i + 1) remotes b uh
                   else do {
                     mq \<leftarrow> buffer_match (udp_port remote) (drop uh b) 2;
                     if mq = 0 then accept_udp_loop n (i + 1) remotes b uh
                     else Some (Some i, remotes) } } }
          else
            do { ha \<leftarrow> buffer_copy (haddress remote) 0 (drop 6 b) 6;
                 pa \<leftarrow> buffer_copy (paddress remote) 0 (drop (unat ethernet_hlen + 12) b) 4;
                 remote \<leftarrow> set_udp_port (drop uh b) (remote\<lparr>haddress := ha, paddress := pa\<rparr>);
                 Some (Some i, remotes[i := remote\<lparr>resolved := 1\<rparr>]) } }"

definition socket_accept_udp :: "socket \<Rightarrow> socket list \<Rightarrow> u32 \<Rightarrow> u8 list \<Rightarrow> (nat option \<times> socket list) option" where
  "socket_accept_udp local remotes nremotes b =
     do { type \<leftarrow> net_load16 b 12;
          if type = 0x0800 then
            do { let ih = unat ethernet_hlen;
                 ilen \<leftarrow> ipv4_hlen b ih; protocol \<leftarrow> net_load8 b (ih + 9);
                 if protocol = 0x11 then
                   do { let uh = ih + unat ilen;
                        tp \<leftarrow> net_load16 b (uh + 2); port \<leftarrow> net_load16 (udp_port local) 0;
                        if tp = port then accept_udp_loop (unat nremotes) 0 remotes b uh else Some (None, remotes) }
                 else Some (None, remotes) }
          else Some (None, remotes) }"

section \<open>Receiving\<close>

text \<open>
  The loops around \<^verbatim>\<open>channel_poll_any\<close>. Their first list has the contents of the receive array after
  each successful poll; at its end the poll returns 0. The result has the arrays that were not taken.
\<close>

definition receive_arp ::
  "u8 list \<Rightarrow> socket \<Rightarrow> u8 list \<Rightarrow> socket list \<Rightarrow> frames \<Rightarrow> (socket list \<times> frames) option" where
  "receive_arp stk local b remotes sent =
     do { i \<leftarrow> socket_accept_arp remotes b;
          case i of None \<Rightarrow> Some (remotes, sent)
          | Some i \<Rightarrow> do { remote \<leftarrow> rd remotes i;
                           (remote, sent) \<leftarrow> socket_handle_arp stk local remote b sent;
                           Some (remotes[i := remote], sent) } }"

text \<open>The flag of the result tells whether \<^verbatim>\<open>socket_receive\<close> returns.\<close>

definition receive_tcp ::
  "u8 list \<Rightarrow> socket \<Rightarrow> u32 \<Rightarrow> socket \<Rightarrow> u32 \<Rightarrow> u8 list \<Rightarrow> socket list \<Rightarrow> u8 list \<Rightarrow> frames \<Rightarrow>
   (bool \<times> u32 \<times> u8 list \<times> socket list \<times> frames) option" where
  "receive_tcp stk local nremotes router count b remotes buffer sent =
     do { (i, remotes) \<leftarrow> socket_accept_tcp local remotes nremotes b;
          case i of None \<Rightarrow> Some (False, 0, buffer, remotes, sent)
          | Some i \<Rightarrow> do { remote \<leftarrow> rd remotes i;
                           (payloadcount, buffer, remote, sent) \<leftarrow>
                             socket_handle_tcp stk local remote router b count buffer sent;
                           Some (payloadcount \<noteq> 0 \<or> tcp_state remote = TCP_STATE_CLOSED, payloadcount, buffer,
                             remotes[i := remote], sent) } }"

definition receive_udp ::
  "socket \<Rightarrow> u32 \<Rightarrow> u32 \<Rightarrow> u8 list \<Rightarrow> socket list \<Rightarrow> u8 list \<Rightarrow> (u32 \<times> u8 list \<times> socket list) option" where
  "receive_udp local nremotes count b remotes buffer =
     do { (i, remotes) \<leftarrow> socket_accept_udp local remotes nremotes b;
          case i of None \<Rightarrow> Some (0, buffer, remotes)
          | Some i \<Rightarrow> do { (payloadcount, buffer) \<leftarrow> socket_handle_udp local b count buffer;
                           Some (payloadcount, buffer, remotes) } }"

primrec socket_receive ::
  "u8 list \<Rightarrow> socket \<Rightarrow> u32 \<Rightarrow> socket \<Rightarrow> u32 \<Rightarrow> u8 list list \<Rightarrow> socket list \<Rightarrow> u8 list \<Rightarrow> frames \<Rightarrow>
   (u32 \<times> u8 list \<times> socket list \<times> u8 list list \<times> frames) option" where
  "socket_receive stk local nremotes router count [] remotes buffer sent = Some (0, buffer, remotes, [], sent)"
| "socket_receive stk local nremotes router count (b # bs) remotes buffer sent =
     do { (remotes, sent) \<leftarrow> receive_arp stk local b remotes sent;
          (stop, n, buffer, remotes, sent) \<leftarrow> receive_tcp stk local nremotes router count b remotes buffer sent;
          if stop then Some (n, buffer, remotes, bs, sent)
          else do { (n, buffer, remotes) \<leftarrow> receive_udp local nremotes count b remotes buffer;
                    if n \<noteq> 0 then Some (n, buffer, remotes, bs, sent)
                    else socket_receive stk local nremotes router count bs remotes buffer sent } }"

section \<open>Listening, connecting, resolving and binding\<close>

primrec listen_loop :: "nat \<Rightarrow> nat \<Rightarrow> u32 \<Rightarrow> socket list \<Rightarrow> socket list option" where
  "listen_loop 0 i state remotes = Some remotes"
| "listen_loop (Suc n) i state remotes =
     do { remote \<leftarrow> rd remotes i; listen_loop n (i + 1) state (remotes[i := remote\<lparr>tcp_state := state\<rparr>]) }"

definition socket_listen_tcp :: "socket \<Rightarrow> socket list \<Rightarrow> u32 \<Rightarrow> (socket \<times> socket list) option" where
  "socket_listen_tcp local remotes nremotes =
     do { let local = local\<lparr>tcp_state := TCP_STATE_LISTEN\<rparr>;
          remotes \<leftarrow> listen_loop (unat nremotes) 0 (tcp_state local) remotes;
          Some (local, remotes) }"

text \<open>The array \<^verbatim>\<open>buffer\<close> of the connecting loop is local to it; what it receives is dropped.\<close>

primrec connect_loop ::
  "u8 list \<Rightarrow> u8 list \<Rightarrow> socket \<Rightarrow> socket \<Rightarrow> u8 list list \<Rightarrow> socket \<Rightarrow> frames \<Rightarrow> (socket \<times> u8 list list \<times> frames) option" where
  "connect_loop stk buffer local router [] remote sent = Some (remote, [], sent)"
| "connect_loop stk buffer local router (b # bs) remote sent =
     do { (remote, sent) \<leftarrow> socket_handle_arp stk local remote b sent;
          (n, buffer', remote, sent) \<leftarrow> socket_handle_tcp stk local remote router b SOCKET_MTUSIZE buffer sent;
          if tcp_state remote = TCP_STATE_ESTABLISHED then Some (remote, bs, sent)
          else connect_loop stk buffer local router bs remote sent }"

definition socket_connect_tcp ::
  "u8 list \<Rightarrow> u8 list \<Rightarrow> socket \<Rightarrow> socket \<Rightarrow> socket \<Rightarrow> u8 list list \<Rightarrow> frames \<Rightarrow> (socket \<times> u8 list list \<times> frames) option" where
  "socket_connect_tcp stk buffer local remote router bs sent =
     do { (remote, sent) \<leftarrow> sendtcp stk local (remote\<lparr>tcp_state := TCP_STATE_SYNSENT, tcp_ack := 0\<rparr>) router TCP_FLAGS1_SYN sent;
          connect_loop stk buffer local router bs remote sent }"

primrec resolve_loop ::
  "u8 list \<Rightarrow> socket \<Rightarrow> u8 list list \<Rightarrow> socket \<Rightarrow> frames \<Rightarrow> (socket \<times> u8 list list \<times> frames) option" where
  "resolve_loop stk local [] remote sent = Some (remote, [], sent)"
| "resolve_loop stk local (b # bs) remote sent =
     do { (remote, sent) \<leftarrow> socket_handle_arp stk local remote b sent;
          if resolved remote \<noteq> 0 then Some (remote, bs, sent) else resolve_loop stk local bs remote sent }"

definition socket_resolveremote ::
  "u8 list \<Rightarrow> socket \<Rightarrow> socket \<Rightarrow> u8 list list \<Rightarrow> frames \<Rightarrow> (socket \<times> u8 list list \<times> frames) option" where
  "socket_resolveremote stk local remote bs sent =
     do { ha \<leftarrow> buffer_copy (haddress remote) 0 [0xFF, 0xFF, 0xFF, 0xFF, 0xFF, 0xFF] 6;
          let multicast = remote\<lparr>haddress := ha\<rparr>;
          sent \<leftarrow> send (buildarp stk SOCKET_MTUSIZE local remote multicast 1 (haddress local) (paddress local)
            (haddress remote) (paddress remote)) sent;
          resolve_loop stk local bs remote sent }"

text \<open>
  \<^verbatim>\<open>call_read_all\<close> reads the address of the network interface into \<^verbatim>\<open>haddress\<close>; the argument
  \<open>ha\<close> is that member after the call.
\<close>

definition socket_resolvelocal :: "u8 list \<Rightarrow> socket \<Rightarrow> socket" where
  "socket_resolvelocal ha s = s\<lparr>haddress := ha, resolved := 1\<rparr>"

function convert_loop :: "u8 list \<Rightarrow> u32 \<Rightarrow> u32 \<Rightarrow> u32 \<Rightarrow> u32 \<Rightarrow> u8 list \<Rightarrow> (u32 \<times> u8 list) option" where
  "convert_loop buffer len i start n address =
     (if i < len then
        do { c \<leftarrow> rd buffer (unat i);
             if c = ch CHR ''.'' \<or> c = 0 then
               do { v \<leftarrow> cstring_read_value (drop (unat start) buffer) (i - start) 10;
                    address \<leftarrow> wr address (unat n) (ucast v);
                    convert_loop buffer len (i + 1) (i + 1) (n + 1) address }
             else convert_loop buffer len (i + 1) start n address }
      else Some (n, address))"
  by pat_completeness auto
termination
  by (relation "measure (\<lambda>(buffer, len, i, _). unat len - unat i)") (auto simp: counter_decreases)

definition convert :: "u8 list \<Rightarrow> u8 list \<Rightarrow> (u32 \<times> u8 list) option" where
  "convert address buffer =
     do { len \<leftarrow> cstring_length_zero buffer; convert_loop buffer len 0 0 0 address }"

definition socket_bind_ipv4 :: "socket \<Rightarrow> u8 list \<Rightarrow> socket option" where
  "socket_bind_ipv4 s address = do { pa \<leftarrow> buffer_copy (paddress s) 0 address 4; Some (s\<lparr>paddress := pa\<rparr>) }"

definition socket_bind_ipv4s :: "u8 list \<Rightarrow> socket \<Rightarrow> u8 list \<Rightarrow> socket option" where
  "socket_bind_ipv4s a s address =
     do { (n, a) \<leftarrow> convert a address; if n = 4 then socket_bind_ipv4 s a else Some s }"

definition socket_bind_tcp :: "socket \<Rightarrow> u8 list \<Rightarrow> u32 \<Rightarrow> u32 \<Rightarrow> socket option" where
  "socket_bind_tcp s port sq ack =
     do { po \<leftarrow> buffer_copy (tcp_port s) 0 port 2;
          Some (s\<lparr>tcp_port := po, tcp_state := TCP_STATE_CLOSED, tcp_seq := sq, tcp_ack := ack\<rparr>) }"

definition socket_bind_tcps :: "u8 list \<Rightarrow> socket \<Rightarrow> u8 list \<Rightarrow> u32 \<Rightarrow> u32 \<Rightarrow> socket option" where
  "socket_bind_tcps p s port sq ack =
     do { len \<leftarrow> cstring_length port; v \<leftarrow> cstring_read_value port len 10;
          p \<leftarrow> net_save16 p 0 (ucast v); socket_bind_tcp s p sq ack }"

definition socket_bind_tcpv :: "u8 list \<Rightarrow> socket \<Rightarrow> u16 \<Rightarrow> u32 \<Rightarrow> u32 \<Rightarrow> socket option" where
  "socket_bind_tcpv p s port sq ack = do { p \<leftarrow> net_save16 p 0 port; socket_bind_tcp s p sq ack }"

definition socket_bind_udp :: "socket \<Rightarrow> u8 list \<Rightarrow> socket option" where
  "socket_bind_udp s port = set_udp_port port s"

definition socket_bind_udps :: "u8 list \<Rightarrow> socket \<Rightarrow> u8 list \<Rightarrow> socket option" where
  "socket_bind_udps p s port =
     do { len \<leftarrow> cstring_length port; v \<leftarrow> cstring_read_value port len 10;
          p \<leftarrow> net_save16 p 0 (ucast v); socket_bind_udp s p }"

definition socket_bind_udpv :: "u8 list \<Rightarrow> socket \<Rightarrow> u16 \<Rightarrow> socket option" where
  "socket_bind_udpv p s port = do { p \<leftarrow> net_save16 p 0 port; socket_bind_udp s p }"

section \<open>The frames on the wire\<close>

definition socket_ok :: "socket \<Rightarrow> bool" where
  "socket_ok s \<longleftrightarrow> length (haddress s) = 6 \<and> length (paddress s) = 4 \<and> length (tcp_port s) = 2"

lemma ipv4_block:
  assumes "h + 20 \<le> length b" "length sip = 4" "length tip = 4"
  shows "\<exists>cs. length cs = 2 \<and>
    ipv4_putheader b h sip tip protocol len = Some (h, blit b h (ipv4_bytes sip tip (ucast protocol) (ucast len) cs))"
proof -
  let ?z = "ipv4_bytes sip tip (ucast protocol) (ucast len) [0, 0]"
  define c where "c = (of_nat (65535 - folded (block_sum (blit b h ?z) h 20)) :: u16)"
  have "blit (blit b h ?z) (h + 10) (le16 c) = blit b h (blit ?z 10 (le16 c))"
    using assms by (intro blit_inner) (simp_all add: ipv4_bytes_def)
  also have "blit ?z 10 (le16 c) = ipv4_bytes sip tip (ucast protocol) (ucast len) (le16 c)"
    by (simp add: ipv4_bytes_def blit_def be16_def)
  finally show ?thesis
    using ipv4_initheader_ok [OF assms, of "ucast protocol" "ucast len"]
    by (intro exI [of _ "le16 c"]) (simp add: ipv4_putheader_def c_def [symmetric])
qed

text \<open>An Ethernet frame with an IPv4 packet, and the TCP segment in it.\<close>

definition ip_frame :: "socket \<Rightarrow> socket \<Rightarrow> socket \<Rightarrow> u8 \<Rightarrow> u8 list \<Rightarrow> u8 list \<Rightarrow> u8 list" where
  "ip_frame local remote router protocol cs packet =
     haddress router @ haddress local @ be16 0x0800 @
     ipv4_bytes (paddress local) (paddress remote) (ucast protocol) (of_nat (length packet)) cs @ packet"

definition tcp_packet :: "socket \<Rightarrow> socket \<Rightarrow> u8 \<Rightarrow> u32 \<Rightarrow> u8 list \<Rightarrow> u8 list \<Rightarrow> u8 list" where
  "tcp_packet local remote flags window cs payload =
     tcp_port local @ tcp_port remote @ be32 (tcp_seq remote) @ be32 (tcp_ack remote) @ [0x50, flags] @
     be16 (ucast window) @ cs @ [0, 0] @ payload"

lemma length_ip_frame:
  "socket_ok local \<Longrightarrow> socket_ok remote \<Longrightarrow> socket_ok router \<Longrightarrow> length cs = 2 \<Longrightarrow>
   length (ip_frame local remote router protocol cs packet) = 34 + length packet"
  by (simp add: ip_frame_def ipv4_bytes_def socket_ok_def)

lemma length_tcp_packet:
  "socket_ok local \<Longrightarrow> socket_ok remote \<Longrightarrow> length cs = 2 \<Longrightarrow>
   length (tcp_packet local remote flags window cs payload) = 20 + length payload"
  by (simp add: tcp_packet_def socket_ok_def)

lemma ipv4_hlen_block:
  "h + 20 \<le> length b \<Longrightarrow> length sip = 4 \<Longrightarrow> length tip = 4 \<Longrightarrow> length cs = 2 \<Longrightarrow>
   ipv4_hlen (blit b h (ipv4_bytes sip tip protocol count cs)) h = Some 20"
  by (simp add: ipv4_hlen_def net_load8_def nth_blit ipv4_bytes_def)

text \<open>What every builder of an IPv4 packet does first.\<close>

lemma ip_headers_ok:
  assumes ok: "socket_ok local" "socket_ok remote" "socket_ok router" and stk: "length stk = 1518"
  shows "\<exists>cs. length cs = 2 \<and>
    (\<forall>k :: u8 list \<Rightarrow> u16 \<Rightarrow> (u32 \<times> u8 list) option. do { (eh, d) \<leftarrow> ethernet_putheader stk 0 0x0800 (haddress local) (haddress router);
         (ih, d) \<leftarrow> ipv4_putheader d (unat ethernet_hlen) (paddress local) (paddress remote) protocol len;
         ilen \<leftarrow> ipv4_hlen d ih;
         k d ilen } =
    k (blit stk 0 (haddress router @ haddress local @ be16 0x0800 @
        ipv4_bytes (paddress local) (paddress remote) (ucast protocol) (ucast len) cs)) 20)"
proof -
  let ?eth = "haddress router @ haddress local @ be16 0x0800"
  have l: "length (haddress local) = 6" "length (haddress router) = 6" "length (paddress local) = 4"
    "length (paddress remote) = 4" using ok by (simp_all add: socket_ok_def)
  have l1: "length (blit stk 0 ?eth) = 1518" using stk l by simp
  obtain cs where cs: "length cs = 2" "ipv4_putheader (blit stk 0 ?eth) 14 (paddress local) (paddress remote) protocol len =
      Some (14, blit (blit stk 0 ?eth) 14 (ipv4_bytes (paddress local) (paddress remote) (ucast protocol) (ucast len) cs))"
    using ipv4_block [of 14 "blit stk 0 ?eth" "paddress local" "paddress remote" protocol len] l1 l by auto
  define ip where "ip = ipv4_bytes (paddress local) (paddress remote) (ucast protocol) (ucast len) cs"
  have hl: "ipv4_hlen (blit (blit stk 0 ?eth) 14 ip) 14 = Some 20"
    unfolding ip_def using l1 l cs(1) by (intro ipv4_hlen_block) simp_all
  have "blit (blit stk 0 ?eth) 14 ip = blit stk 0 (?eth @ ip)"
    using stk l cs(1) by (intro blit_blit_append) (simp_all add: ip_def ipv4_bytes_def)
  moreover have "ethernet_putheader stk 0 0x0800 (haddress local) (haddress router) = Some (0, blit stk 0 ?eth)"
    using ethernet_initheader_ok [of 0 stk "haddress local" "haddress router"] stk l by (simp add: ethernet_putheader_def)
  ultimately show ?thesis
    using cs hl by (intro exI [of _ cs]) (simp add: ip_def [symmetric] ethernet_hlen_def)
qed

lemma unat_chunk: "n \<le> 1518 \<Longrightarrow> unat (of_nat n :: u32) = n" "n \<le> 1518 \<Longrightarrow> unat (of_nat n :: u16) = n"
  by (simp_all add: unat_of_nat take_bit_eq_mod)

lemma ucast_of_nat_u16: "ucast (of_nat n :: u32) = (of_nat n :: u16)"
  by (simp add: word_unat_eq_iff unsigned_ucast_eq unsigned_of_nat)

lemma chunk_widen: "n \<le> 1518 \<Longrightarrow> ucast (of_nat n :: u16) = (of_nat n :: u32)"
  using unat_chunk [of n] by (simp add: word_unat_eq_iff unsigned_ucast_eq take_bit_eq_mod)

lemma ucast_ucast_u8: "ucast (ucast (v :: u8) :: u16) = v"
  by (rule bit_word_eqI) (simp add: bit_simps)

lemma append_payload:
  assumes "length d = 1518" "length payload \<le> 1518 - k" "k < 1518"
  shows "buffer_write d 0 SOCKET_MTUSIZE payload (of_nat (length payload)) (of_nat k) =
    Some (of_nat (length payload), blit d k payload)"
proof -
  have n: "unat (of_nat (length payload) :: u32) = length payload" "unat (of_nat k :: u32) = k"
    using assms by (auto intro!: unat_of_nat_u32)
  have c: "clip (of_nat (length payload)) SOCKET_MTUSIZE (of_nat k) = of_nat (length payload)"
    using assms n unat_clip [of "of_nat (length payload)" SOCKET_MTUSIZE "of_nat k"] by (simp add: word_unat_eq_iff)
  have "(of_nat (length payload) = (0 :: u32)) \<longleftrightarrow> payload = []" using n(1) by auto
  then show ?thesis
    using buffer_write_ok [of 0 SOCKET_MTUSIZE d "of_nat (length payload)" payload "of_nat k"] assms n c
    by (auto simp: Let_def)
qed

lemma buildtcp_ok:
  assumes ok: "socket_ok local" "socket_ok remote" "socket_ok router"
    and stk: "length stk = 1518" and pl: "length payload \<le> 1464"
  shows "\<exists>ics tcs. length ics = 2 \<and> length tcs = 2 \<and>
    buildtcp stk SOCKET_MTUSIZE local remote router (ucast flags) window (of_nat (length payload)) payload =
      Some (of_nat (54 + length payload),
        blit stk 0 (ip_frame local remote router 6 ics (tcp_packet local remote flags window tcs payload)))"
proof -
  let ?n = "length payload"
  have l: "length (haddress local) = 6" "length (haddress router) = 6" "length (paddress local) = 4"
    "length (paddress remote) = 4" "length (tcp_port local) = 2" "length (tcp_port remote) = 2"
    using ok by (simp_all add: socket_ok_def)
  have len: "ucast (20 + of_nat ?n :: u32) = (of_nat (20 + ?n) :: u16)"
    using ucast_of_nat_u16 [of "20 + ?n"] by simp
  have wide: "20 + ?n \<le> 1518" using pl by simp
  obtain ics where ics: "length ics = 2" and hd: "\<And>k :: u8 list \<Rightarrow> u16 \<Rightarrow> (u32 \<times> u8 list) option. do {
         (eh, d) \<leftarrow> ethernet_putheader stk 0 0x0800 (haddress local) (haddress router);
         (ih, d) \<leftarrow> ipv4_putheader d (unat ethernet_hlen) (paddress local) (paddress remote) 6 (of_nat (20 + ?n));
         ilen \<leftarrow> ipv4_hlen d ih; k d ilen } =
       k (blit stk 0 (haddress router @ haddress local @ be16 0x0800 @
        ipv4_bytes (paddress local) (paddress remote) (ucast (6 :: u8)) (ucast (of_nat (20 + ?n) :: u16)) ics)) 20"
    using ip_headers_ok [OF ok stk, of 6 "of_nat (20 + ?n)"] by blast
  define hb where "hb = haddress router @ haddress local @ be16 0x0800 @
    ipv4_bytes (paddress local) (paddress remote) (ucast (6 :: u8)) (of_nat (20 + ?n)) ics"
  define tb where "tb = tcp_bytes (tcp_port local) (tcp_port remote) (ucast flags) (tcp_seq remote) (tcp_ack remote) window"
  have lh: "length hb = 34" "length tb = 20" using l ics by (simp_all add: hb_def tb_def ipv4_bytes_def tcp_bytes_def)
  have at: "blit (blit stk 0 hb) 34 tb = blit stk 0 (hb @ tb)" 
    using stk lh by (intro blit_blit_append) simp_all
  have at': "blit (blit stk 0 (hb @ tb)) 54 payload = blit stk 0 ((hb @ tb) @ payload)"
    using stk lh pl by (intro blit_blit_append) simp_all
  have tp: "tcp_putheader (blit stk 0 hb) 34 (tcp_port local) (tcp_port remote) (ucast flags) (tcp_seq remote) (tcp_ack remote) window =
      Some (34, blit stk 0 (hb @ tb))" "tcp_hlen (blit stk 0 (hb @ tb)) 34 = Some 20"
    using tcp_putheader_ok [of 34 "blit stk 0 hb" "tcp_port local" "tcp_port remote" "ucast flags" "tcp_seq remote" "tcp_ack remote" window]
      stk l lh(1) by (simp_all add: tb_def [symmetric] at)
  define d where "d = blit stk 0 (hb @ tb @ payload)"
  have ld: "length d = 1518" using stk lh pl by (simp add: d_def)
  have w: "buffer_write (blit stk 0 (hb @ tb)) 0 SOCKET_MTUSIZE payload (of_nat ?n) 54 = Some (of_nat ?n, d)"
    using append_payload [of "blit stk 0 (hb @ tb)" payload 54] stk lh pl by (simp add: d_def at')
  have tl: "unat (20 + of_nat ?n :: u16) = 20 + ?n" using unat_chunk(2) [of "20 + ?n"] pl by simp
  then have "34 + unat (20 + of_nat ?n :: u16) + unat (20 + of_nat ?n :: u16) mod 2 \<le> length d"
    using pl ld by (simp only:) presburger
  then obtain r where "transport_sum d 34 (paddress local) (paddress remote) 6 (20 + of_nat ?n) = Some r"
    using transport_sum_ok [of "paddress local" "paddress remote"] l by blast
  then obtain c where c: "tcp_checksum d 34 (paddress local) (paddress remote) (20 + of_nat ?n) = Some c"
    by (simp add: tcp_checksum_def)
  have fin: "blit d 50 (le16 c) = blit stk 0 (ip_frame local remote router 6 ics (tcp_packet local remote flags window (le16 c) payload))"
  proof -
    have "blit d 50 (le16 c) = blit stk 0 (blit (hb @ tb @ payload) 50 (le16 c))"
      using blit_inner [of 0 "hb @ tb @ payload" stk 50 "le16 c"] stk lh pl by (simp add: d_def)
    also have "blit (hb @ tb @ payload) 50 (le16 c) = hb @ blit tb 16 (le16 c) @ payload"
      using lh by (simp add: blit_def)
    also have "blit tb 16 (le16 c) = tcp_port local @ tcp_port remote @ be32 (tcp_seq remote) @ be32 (tcp_ack remote) @
        [0x50, flags] @ be16 (ucast window) @ le16 c @ [0, 0]"
      using l by (simp add: tb_def tcp_bytes_def blit_def ucast_ucast_u8)
    finally show ?thesis using l by (simp add: ip_frame_def tcp_packet_def hb_def)
  qed
  have cp: "buffer_copy d 50 (le16 c) 2 = Some (blit d 50 (le16 c))" using ld by simp
  show ?thesis
    unfolding buildtcp_def len hd chunk_widen [OF wide] hb_def [symmetric]
    using ics tp w c cp fin by (intro exI [of _ ics] exI [of _ "le16 c"]) (simp add: ethernet_hlen_def ucast_of_nat_u16 Let_def)
qed

section \<open>The segments that arrive\<close>

text \<open>
  What the routines read of a receive array that holds a TCP segment of \<open>local\<close>: the addresses, the
  ports, the numbers, the flags and the payload.
\<close>

definition tcp_arrives ::
  "u8 list \<Rightarrow> socket \<Rightarrow> u8 list \<Rightarrow> u32 \<Rightarrow> u32 \<Rightarrow> u8 \<Rightarrow> u8 list \<Rightarrow> bool" where
  "tcp_arrives b local tp sq ak flags payload \<longleftrightarrow>
     54 + length payload \<le> length b \<and> length payload \<le> 1464 \<and>
     seg b 6 6 = haddress local \<and> net_load16 b 12 = Some 0x0800 \<and> ipv4_hlen b 14 = Some 20 \<and>
     ipv4_len b 14 = Some (of_nat (40 + length payload)) \<and> net_load8 b 23 = Some 6 \<and>
     seg b 26 4 = paddress local \<and> seg b 34 2 = tcp_port local \<and> net_load16 b 36 = net_load16 tp 0 \<and>
     net_load32 b 38 = Some sq \<and> net_load32 b 42 = Some ak \<and> tcp_hlen b 34 = Some 20 \<and>
     rd b 47 = Some flags \<and> seg b 54 (length payload) = payload"

lemma tcp_frame_arrives:
  assumes ok: "socket_ok local" "socket_ok remote" "socket_ok router" and cs: "length ics = 2" "length tcs = 2"
    and pl: "length payload \<le> 1464"
  shows "tcp_arrives (ip_frame local remote router 6 ics (tcp_packet local remote flags window tcs payload) @ rest)
    local (tcp_port remote) (tcp_seq remote) (tcp_ack remote) flags payload"
proof -
  have l: "length (haddress local) = 6" "length (haddress router) = 6" "length (paddress local) = 4"
    "length (paddress remote) = 4" "length (tcp_port local) = 2" "length (tcp_port remote) = 2"
    using ok by (simp_all add: socket_ok_def)
  let ?n = "length payload"
  define b where "b = ip_frame local remote router 6 ics (tcp_packet local remote flags window tcs payload) @ rest"
  have "of_nat (length (tcp_packet local remote flags window tcs payload)) + 20 = (of_nat (40 + ?n) :: u32)"
    by (simp add: length_tcp_packet [OF ok(1,2) cs(2)])
  then have tot: "ucast (of_nat (length (tcp_packet local remote flags window tcs payload)) + 20 :: u32) = (of_nat (40 + ?n) :: u16)"
    by (simp only: ucast_of_nat_u16)
  have b: "b = haddress router @ haddress local @ be16 0x0800 @ [0x45, 0] @ be16 (of_nat (40 + ?n)) @ [0, 0, 0, 0, 64, 6] @ ics @
      paddress local @ paddress remote @ tcp_port local @ tcp_port remote @ be32 (tcp_seq remote) @ be32 (tcp_ack remote) @
      [0x50, flags] @ be16 (ucast window) @ tcs @ [0, 0] @ payload @ rest"
    unfolding b_def ip_frame_def ipv4_bytes_def tot by (simp add: tcp_packet_def del: of_nat_add)
  have lb: "54 + ?n \<le> length b" using l cs by (simp add: b)
  have s: "seg b 6 6 = haddress local" "seg b 12 2 = be16 0x0800" "seg b 14 1 = [0x45]" "seg b 16 2 = be16 (of_nat (40 + ?n))"
    "seg b 23 1 = [6]" "seg b 26 4 = paddress local" "seg b 34 2 = tcp_port local" "seg b 36 2 = tcp_port remote"
    "seg b 38 4 = be32 (tcp_seq remote)" "seg b 42 4 = be32 (tcp_ack remote)" "seg b 46 1 = [0x50]" "seg b 47 1 = [flags]"
    "seg b 54 ?n = payload"
    using l cs by (simp_all add: b seg_def)
  have t: "net_load16 b 36 = net_load16 (tcp_port remote) 0"
  proof -
    obtain p0 p1 where p: "tcp_port remote = [p0, p1]" using l by (auto simp: numeral_2_eq_2 length_Suc_conv)
    have "[b ! 36, b ! 37] = [p0, p1]" using s(8) seg_two [of 36 b] lb p by simp
    then show ?thesis using lb p by (simp add: net_load16_def)
  qed
  have "net_load8 b 14 = Some 0x45" "net_load8 b 23 = Some 6" "net_load8 b 46 = Some 0x50" "net_load8 b 47 = Some flags"
    using lb s by (auto intro!: net8.load)
  moreover have "net_load16 b 12 = Some 0x0800" "net_load16 b 16 = Some (of_nat (40 + ?n))"
    using lb s by (auto intro!: net16.load)
  moreover have "net_load32 b 38 = Some (tcp_seq remote)" "net_load32 b 42 = Some (tcp_ack remote)"
    using lb s by (auto intro!: net32.load)
  ultimately show ?thesis
    using lb pl s t unfolding b_def [symmetric]
    by (simp add: tcp_arrives_def ipv4_hlen_def ipv4_len_def tcp_hlen_def net_load8_def)
qed

text \<open>Handling an arrived segment: the state machine runs on its fields, and its payload is delivered.\<close>

lemma psize_ok:
  assumes "n \<le> 1464"
  shows "ucast (of_nat (40 + n) :: u16) - (ucast (20 :: u16) + ucast (20 :: u16)) = (of_nat n :: u32)"
  using chunk_widen [of "40 + n"] assms by simp

lemma socket_handle_tcp_ok:
  assumes a: "tcp_arrives b peer (tcp_port local) sq ak flags payload"
    and p: "socket_ok local" and room: "length payload \<le> unat oc" "unat oc \<le> length out"
    and h: "handletcp stk local remote router b 34 (of_nat (length payload)) sent = Some (remote', sent')"
  shows "socket_handle_tcp stk local remote router b oc out sent =
    Some (of_nat (length payload), blit out 0 payload, remote', sent')"
proof -
  let ?n = "length payload"
  have n: "?n \<le> 1464" "unat (of_nat ?n :: u32) = ?n" using a unat_chunk [of ?n] by (simp_all add: tcp_arrives_def)
  have port: "\<exists>v. net_load16 (tcp_port local) 0 = Some v" using p by (simp add: net_load16_def socket_ok_def)
  have w: "buffer_write out 0 oc (drop 54 b) (of_nat ?n) 0 = Some (of_nat ?n, blit out 0 payload)" if "payload \<noteq> []"
  proof -
    have "unat (clip (of_nat ?n) oc 0) = ?n" using room n by (simp add: unat_clip)
    then have c: "clip (of_nat ?n) oc 0 = of_nat ?n" by (rule unat_eq_of_nat)
    have "(of_nat ?n :: u32) \<noteq> 0" using that n(2) by auto
    moreover have "take ?n (drop 54 b) = payload" "unat (of_nat ?n :: u32) \<le> length (drop 54 b)"
      using a n by (auto simp: tcp_arrives_def seg_def)
    ultimately show ?thesis
      using buffer_write_ok [of 0 oc out "of_nat ?n" "drop 54 b" 0] room c n by (simp add: Let_def)
  qed
  have "of_nat ?n = (0 :: u32) \<longleftrightarrow> payload = []" using n(2) by auto
  then show ?thesis
    using a port w h psize_ok [OF n(1)]
    by (cases "payload = []") (auto simp: socket_handle_tcp_def tcp_arrives_def ethernet_hlen_def Let_def)
qed

text \<open>The frame of a segment without payload, as the state machine sends it.\<close>

lemma take_blit_frame: "length f \<le> length stk \<Longrightarrow> take (length f) (blit stk 0 f) = f"
  by (simp add: blit_def)

lemma send_buildtcp:
  assumes ok: "socket_ok local" "socket_ok remote" "socket_ok router" "length stk = 1518" "length payload \<le> 1464"
  shows "\<exists>f. send (buildtcp stk SOCKET_MTUSIZE local remote router (ucast flags) 4096 (of_nat (length payload)) payload) sent =
      Some (sent @ [f]) \<and>
    (\<forall>rest. tcp_arrives (f @ rest) local (tcp_port remote) (tcp_seq remote) (tcp_ack remote) flags payload)"
proof -
  obtain ics tcs where cs: "length ics = 2" "length tcs = 2" and built:
    "buildtcp stk SOCKET_MTUSIZE local remote router (ucast flags) 4096 (of_nat (length payload)) payload =
      Some (of_nat (54 + length payload),
        blit stk 0 (ip_frame local remote router 6 ics (tcp_packet local remote flags 4096 tcs payload)))"
    using buildtcp_ok [OF ok] by blast
  define f where "f = ip_frame local remote router 6 ics (tcp_packet local remote flags 4096 tcs payload)"
  have "length f = 54 + length payload"
    using cs ok by (simp add: f_def length_ip_frame length_tcp_packet)
  moreover have "unat (of_nat (54 + length payload) :: u32) = 54 + length payload"
    using ok(5) by (intro unat_chunk) simp
  ultimately have "send (Some (of_nat (54 + length payload), blit stk 0 f)) sent = Some (sent @ [f])"
    using take_blit_frame [of f stk] ok by (simp add: send_def del: of_nat_add)
  then show ?thesis
    using tcp_frame_arrives [OF ok(1-3) cs ok(5)] unfolding built f_def by blast
qed

lemma sendtcp_ok:
  assumes "socket_ok local" "socket_ok remote" "socket_ok router" "length stk = 1518"
  shows "\<exists>f. sendtcp stk local remote router flags sent = Some (remote, sent @ [f]) \<and>
    (\<forall>rest. tcp_arrives (f @ rest) local (tcp_port remote) (tcp_seq remote) (tcp_ack remote) flags [])"
  using send_buildtcp [OF assms, of "[]" flags sent] by (auto simp: sendtcp_def)

text \<open>A TCP segment is no ARP message and no UDP datagram.\<close>

lemma tcp_not_other:
  assumes "tcp_arrives b peer tp sq ak flags payload"
  shows "receive_arp stk local b remotes sent = Some (remotes, sent)"
    "receive_udp local nremotes count b remotes buffer = Some (0, buffer, remotes)"
    "socket_handle_arp stk local remote b sent = Some (remote, sent)"
  using assms by (simp_all add: tcp_arrives_def receive_arp_def socket_accept_arp_def receive_udp_def
      socket_accept_udp_def socket_handle_arp_def ethernet_hlen_def Let_def)

text \<open>The record of a peer, and how \<^verbatim>\<open>socket_accept_tcp\<close> finds or fills it.\<close>

definition records :: "socket \<Rightarrow> socket \<Rightarrow> bool" where
  "records r s \<longleftrightarrow> haddress r = haddress s \<and> paddress r = paddress s \<and> tcp_port r = tcp_port s"

definition learn :: "socket \<Rightarrow> u32 \<Rightarrow> socket \<Rightarrow> socket" where
  "learn peer sq r = (if resolved r \<noteq> 0 then r
     else r\<lparr>haddress := haddress peer, paddress := paddress peer, tcp_port := tcp_port peer, tcp_ack := sq, resolved := 1\<rparr>)"

lemma copy_field:
  "length xs = unat n \<Longrightarrow> seg b i (unat n) = f \<Longrightarrow> i + unat n \<le> length b \<Longrightarrow>
   buffer_copy xs 0 (drop i b) n = Some f"
  by (auto simp: seg_def blit_def)

lemma match_field:
  "length xs = unat n \<Longrightarrow> seg b i (unat n) = f \<Longrightarrow> i + unat n \<le> length b \<Longrightarrow>
   buffer_match xs (drop i b) n = Some (if xs = f then 1 else 0)"
  by (simp add: seg_def buffer_match_eq)

lemma accept_one:
  assumes a: "tcp_arrives b peer (tcp_port local) sq ak flags payload" and ok: "socket_ok local" "socket_ok remote"
    and r: "resolved remote \<noteq> 0 \<longrightarrow> records remote peer"
  shows "socket_accept_tcp local [remote] 1 b = Some (Some 0, [learn peer sq remote])"
proof -
  have f: "seg b 6 6 = haddress peer" "seg b 26 4 = paddress peer" "seg b 34 2 = tcp_port peer" "54 \<le> length b"
    using a by (auto simp: tcp_arrives_def)
  have l: "length (haddress remote) = 6" "length (paddress remote) = 4" "length (tcp_port remote) = 2"
    using ok by (simp_all add: socket_ok_def)
  have "buffer_copy (haddress remote) 0 (drop 6 b) 6 = Some (haddress peer)"
    "buffer_copy (paddress remote) 0 (drop 26 b) 4 = Some (paddress peer)"
    "buffer_copy (tcp_port remote) 0 (drop 34 b) 2 = Some (tcp_port peer)"
    using f l by (intro copy_field; simp)+
  moreover have "buffer_match (haddress remote) (drop 6 b) 6 = Some (if haddress remote = haddress peer then 1 else 0)"
    "buffer_match (paddress remote) (drop 26 b) 4 = Some (if paddress remote = paddress peer then 1 else 0)"
    "buffer_match (tcp_port remote) (drop 34 b) 2 = Some (if tcp_port remote = tcp_port peer then 1 else 0)"
    using f l by (intro match_field; simp)+
  moreover have "\<exists>v. net_load16 (tcp_port local) 0 = Some v" using ok by (simp add: net_load16_def socket_ok_def)
  ultimately show ?thesis
    using a r by (auto simp: socket_accept_tcp_def tcp_arrives_def ethernet_hlen_def Let_def learn_def records_def)
qed

text \<open>Receiving one segment from the single peer of a socket.\<close>

lemma receive_segment:
  assumes a: "tcp_arrives b peer (tcp_port local) sq ak flags payload" and ok: "socket_ok local" "socket_ok remote"
    and r: "resolved remote \<noteq> 0 \<longrightarrow> records remote peer"
    and room: "length payload \<le> unat count" "unat count \<le> length buffer"
    and h: "handletcp stk local (learn peer sq remote) router b 34 (of_nat (length payload)) sent = Some (remote', sent')"
    and open': "tcp_state remote' \<noteq> TCP_STATE_CLOSED"
  shows "socket_receive stk local 1 router count (b # bs) [remote] buffer sent =
    (if payload \<noteq> [] then Some (of_nat (length payload), blit buffer 0 payload, [remote'], bs, sent')
     else socket_receive stk local 1 router count bs [remote'] buffer sent')"
proof -
  have "unat (of_nat (length payload) :: u32) = length payload"
    using a by (intro unat_chunk) (simp add: tcp_arrives_def)
  then have "of_nat (length payload) = (0 :: u32) \<longleftrightarrow> payload = []" by auto
  then have "receive_tcp stk local 1 router count b [remote] buffer sent =
      Some (payload \<noteq> [], of_nat (length payload), blit buffer 0 payload, [remote'], sent')"
    using accept_one [OF a ok r] socket_handle_tcp_ok [OF a ok(1) room h] open' by (simp add: receive_tcp_def)
  then show ?thesis by (simp add: tcp_not_other [OF a])
qed

section \<open>Two ends of a connection\<close>

text \<open>
  \<open>cs\<close> is the record that the client \<open>cl\<close> keeps of the server \<open>sl\<close>, and \<open>sc\<close> the record that the
  server keeps of the client. In an established connection what one end sends next is what the other
  end expects next.
\<close>

definition in_sync :: "socket \<Rightarrow> socket \<Rightarrow> socket \<Rightarrow> socket \<Rightarrow> bool" where
  "in_sync cl cs sl sc \<longleftrightarrow>
     socket_ok cl \<and> socket_ok cs \<and> socket_ok sl \<and> socket_ok sc \<and>
     tcp_state cs = TCP_STATE_ESTABLISHED \<and> tcp_state sc = TCP_STATE_ESTABLISHED \<and>
     tcp_seq cs = tcp_ack sc \<and> tcp_ack cs = tcp_seq sc \<and>
     tcp_port cs = tcp_port sl \<and> tcp_port sc = tcp_port cl \<and>
     (resolved cs \<noteq> 0 \<longrightarrow> records cs sl) \<and> (resolved sc \<noteq> 0 \<longrightarrow> records sc cl)"

lemma socket_ok_update [simp]:
  "socket_ok (s\<lparr>tcp_state := st\<rparr>) = socket_ok s" "socket_ok (s\<lparr>tcp_seq := q\<rparr>) = socket_ok s"
  "socket_ok (s\<lparr>tcp_ack := a\<rparr>) = socket_ok s" "socket_ok (s\<lparr>resolved := v\<rparr>) = socket_ok s"
  by (simp_all add: socket_ok_def)

lemma learn_simps [simp]:
  "socket_ok peer \<Longrightarrow> socket_ok r \<Longrightarrow> socket_ok (learn peer sq r)"
  "tcp_state (learn peer sq r) = tcp_state r" "tcp_seq (learn peer sq r) = tcp_seq r"
  by (simp_all add: learn_def socket_ok_def)

lemma learn_port: "tcp_port r = tcp_port peer \<or> resolved r = 0 \<Longrightarrow> tcp_port (learn peer sq r) = tcp_port peer"
  by (auto simp: learn_def)

lemma learn_records: "(resolved r \<noteq> 0 \<longrightarrow> records r peer) \<Longrightarrow> records (learn peer sq r) peer"
  by (auto simp: learn_def records_def)

lemma records_update [simp]:
  "records (s\<lparr>tcp_state := st\<rparr>) t = records s t" "records (s\<lparr>tcp_seq := q\<rparr>) t = records s t"
  "records (s\<lparr>tcp_ack := a\<rparr>) t = records s t"
  by (simp_all add: records_def)

text \<open>The state machine on an arrived segment, in the states of opening and of data transfer.\<close>

lemma handle_listen:
  assumes "tcp_arrives b peer tp sq ak TCP_FLAGS1_SYN payload" "tcp_state remote = TCP_STATE_LISTEN"
  shows "handletcp stk local remote router b 34 psize sent =
    sendtcp stk local (remote\<lparr>tcp_state := TCP_STATE_SYNRECEIVED, tcp_ack := sq + 1\<rparr>) router (TCP_FLAGS1_ACK OR TCP_FLAGS1_SYN) sent"
  using assms by (simp add: handletcp_def tcp_arrives_def)

lemma handle_synsent:
  assumes "tcp_arrives b peer tp sq ak (TCP_FLAGS1_ACK OR TCP_FLAGS1_SYN) payload" "tcp_state remote = TCP_STATE_SYNSENT"
  shows "handletcp stk local remote router b 34 psize sent =
    sendtcp stk local (remote\<lparr>tcp_state := TCP_STATE_ESTABLISHED, tcp_seq := ak, tcp_ack := sq + 1\<rparr>) router TCP_FLAGS1_ACK sent"
  using assms by (simp add: handletcp_def tcp_arrives_def)

lemma handle_synreceived:
  assumes "tcp_arrives b peer tp sq ak TCP_FLAGS1_ACK payload" "tcp_state remote = TCP_STATE_SYNRECEIVED"
  shows "handletcp stk local remote router b 34 psize sent =
    Some (remote\<lparr>tcp_state := TCP_STATE_ESTABLISHED, tcp_seq := ak\<rparr>, sent)"
  using assms by (simp add: handletcp_def tcp_arrives_def)

lemma handle_established:
  assumes "tcp_arrives b peer tp sq ak flags payload" "tcp_state remote = TCP_STATE_ESTABLISHED"
    and "flags = TCP_FLAGS1_ACK \<or> flags = TCP_FLAGS1_PSH OR TCP_FLAGS1_ACK"
  shows "handletcp stk local remote router b 34 psize sent =
    (let remote = remote\<lparr>tcp_seq := ak, tcp_ack := sq + psize\<rparr> in
     if psize \<noteq> 0 then sendtcp stk local remote router TCP_FLAGS1_ACK sent else Some (remote, sent))"
  using assms by (auto simp: handletcp_def tcp_arrives_def)

text \<open>
  One chunk: the client sends it, the server receives the frame and acknowledges it, and the client
  receives the acknowledgement. \<open>rest\<close> is what the receive arrays hold behind a frame.
\<close>

definition exchange ::
  "u8 list \<Rightarrow> u8 list \<Rightarrow> u8 list \<Rightarrow> u32 \<Rightarrow> socket \<Rightarrow> socket \<Rightarrow> socket \<Rightarrow> socket \<Rightarrow> u8 list \<Rightarrow>
   socket \<times> socket \<times> u8 list \<Rightarrow> (socket \<times> socket \<times> u8 list) option" where
  "exchange stk rest buffer count cl cr sl sr chunk = (\<lambda>(cs, sc, got).
     do { (n, sent) \<leftarrow> socket_send_tcp stk cl cs cr (of_nat (length chunk)) chunk [];
          (m, out, scs, _, acks) \<leftarrow> socket_receive stk sl 1 sr count (map (\<lambda>f. f @ rest) sent) [sc] buffer [];
          (k, _, css, _, _) \<leftarrow> socket_receive stk cl 1 cr count (map (\<lambda>f. f @ rest) acks) [cs] buffer [];
          cs \<leftarrow> rd css 0; sc \<leftarrow> rd scs 0;
          Some (cs, sc, got @ take (unat m) out) })"

primrec transfer ::
  "u8 list \<Rightarrow> u8 list \<Rightarrow> u8 list \<Rightarrow> u32 \<Rightarrow> socket \<Rightarrow> socket \<Rightarrow> socket \<Rightarrow> socket \<Rightarrow> u8 list list \<Rightarrow>
   socket \<times> socket \<times> u8 list \<Rightarrow> (socket \<times> socket \<times> u8 list) option" where
  "transfer stk rest buffer count cl cr sl sr [] st = Some st"
| "transfer stk rest buffer count cl cr sl sr (chunk # chunks) st =
     do { st \<leftarrow> exchange stk rest buffer count cl cr sl sr chunk st;
          transfer stk rest buffer count cl cr sl sr chunks st }"

lemma exchange_ok:
  assumes sync: "in_sync cl cs sl sc" and ok: "socket_ok cr" "socket_ok sr" "length stk = 1518"
    and chunk: "chunk \<noteq> []" "length chunk \<le> 1464" "length chunk \<le> unat count" "unat count \<le> length buffer"
  shows "\<exists>cs' sc'. exchange stk rest buffer count cl cr sl sr chunk (cs, sc, got) = Some (cs', sc', got @ chunk) \<and>
    in_sync cl cs' sl sc' \<and> tcp_seq cs' = tcp_seq cs + of_nat (length chunk) \<and> tcp_seq sc' = tcp_seq sc"
proof -
  let ?n = "of_nat (length chunk) :: u32" and ?fl = "TCP_FLAGS1_PSH OR TCP_FLAGS1_ACK"
  have n: "unat ?n = length chunk" using chunk(2) by (intro unat_chunk) simp
  then have n0: "?n \<noteq> 0" using chunk(1) by auto
  have s: "socket_ok cl" "socket_ok cs" "socket_ok sl" "socket_ok sc" "tcp_state cs = TCP_STATE_ESTABLISHED"
    "tcp_state sc = TCP_STATE_ESTABLISHED" "tcp_seq cs = tcp_ack sc" "tcp_ack cs = tcp_seq sc" "tcp_port cs = tcp_port sl"
    "tcp_port sc = tcp_port cl" "resolved cs \<noteq> 0 \<longrightarrow> records cs sl" "resolved sc \<noteq> 0 \<longrightarrow> records sc cl"
    using sync by (simp_all add: in_sync_def)
  obtain f where f: "send (buildtcp stk SOCKET_MTUSIZE cl cs cr (ucast ?fl) 4096 ?n chunk) [] = Some [f]"
    "tcp_arrives (f @ rest) cl (tcp_port sl) (tcp_seq cs) (tcp_ack cs) ?fl chunk"
    using send_buildtcp [OF s(1,2) ok(1,3) chunk(2), of ?fl "[]"] s(9) by auto
  define sc' where "sc' = (learn cl (tcp_seq cs) sc)\<lparr>tcp_seq := tcp_ack cs, tcp_ack := tcp_seq cs + ?n\<rparr>"
  have sc': "socket_ok sc'" "tcp_port sc' = tcp_port cl" "tcp_state sc' = TCP_STATE_ESTABLISHED" "records sc' cl"
    "tcp_seq sc' = tcp_ack cs" "tcp_ack sc' = tcp_seq cs + ?n"
    using s learn_port [of sc cl "tcp_seq cs"] learn_records [of sc cl] by (simp_all add: sc'_def)
  obtain g where g: "sendtcp stk sl sc' sr TCP_FLAGS1_ACK [] = Some (sc', [g])"
    "tcp_arrives (g @ rest) sl (tcp_port cl) (tcp_ack cs) (tcp_seq cs + ?n) TCP_FLAGS1_ACK []"
    using sendtcp_ok [OF s(3) sc'(1) ok(2,3), of TCP_FLAGS1_ACK "[]"] sc' by auto
  have "handletcp stk sl (learn cl (tcp_seq cs) sc) sr (f @ rest) 34 ?n [] = Some (sc', [g])"
    using handle_established [OF f(2), of "learn cl (tcp_seq cs) sc"] s(6) n0 g(1) by (simp add: sc'_def)
  then have server: "socket_receive stk sl 1 sr count [f @ rest] [sc] buffer [] = Some (?n, blit buffer 0 chunk, [sc'], [], [g])"
    using receive_segment [OF f(2) s(3,4,12) chunk(3,4)] sc'(3) chunk(1) by simp
  define cs' where "cs' = (learn sl (tcp_ack cs) cs)\<lparr>tcp_seq := tcp_seq cs + ?n, tcp_ack := tcp_ack cs\<rparr>"
  have cs': "socket_ok cs'" "tcp_port cs' = tcp_port sl" "tcp_state cs' = TCP_STATE_ESTABLISHED" "records cs' sl"
    "tcp_seq cs' = tcp_seq cs + ?n" "tcp_ack cs' = tcp_ack cs"
    using s learn_port [of cs sl "tcp_ack cs"] learn_records [of cs sl] by (simp_all add: cs'_def)
  have "handletcp stk cl (learn sl (tcp_ack cs) cs) cr (g @ rest) 34 0 [] = Some (cs', [])"
    using handle_established [OF g(2), of "learn sl (tcp_ack cs) cs"] s(5) by (simp add: cs'_def)
  then have client: "socket_receive stk cl 1 cr count [g @ rest] [cs] buffer [] = Some (0, buffer, [cs'], [], [])"
    using receive_segment [OF g(2) s(1,2,11), of count buffer stk cr "[]" cs' "[]" "[]"] cs'(3) chunk(4) by simp
  have "exchange stk rest buffer count cl cr sl sr chunk (cs, sc, got) = Some (cs', sc', got @ chunk)"
    using f(1) server client s(5) n chunk by (simp add: exchange_def socket_send_tcp_def blit_def del: socket_receive.simps)
  moreover have "in_sync cl cs' sl sc'" using s cs' sc' by (simp add: in_sync_def)
  ultimately show ?thesis using cs' sc' s(8) by auto
qed

text \<open>The two sides of the handshake: the connecting end, given the other end's number \<open>q\<close>, and the listening end.\<close>

lemma connect_ok:
  assumes ok: "socket_ok cl" "socket_ok cs" "socket_ok cr" "length stk = 1518" "length cbuf = 1518"
  shows "\<exists>syn ack. (\<forall>rest. tcp_arrives (syn @ rest) cl (tcp_port cs) (tcp_seq cs) 0 TCP_FLAGS1_SYN []) \<and>
    (\<forall>rest. tcp_arrives (ack @ rest) cl (tcp_port cs) (tcp_seq cs + 1) (q + 1) TCP_FLAGS1_ACK []) \<and>
    (\<forall>b peer. tcp_arrives b peer (tcp_port cl) q (tcp_seq cs + 1) (TCP_FLAGS1_ACK OR TCP_FLAGS1_SYN) [] \<longrightarrow>
      socket_connect_tcp stk cbuf cl cs cr [b] [] =
        Some (cs\<lparr>tcp_state := TCP_STATE_ESTABLISHED, tcp_seq := tcp_seq cs + 1, tcp_ack := q + 1\<rparr>, [], [syn, ack]))"
proof -
  define c1 where "c1 = cs\<lparr>tcp_state := TCP_STATE_SYNSENT, tcp_ack := 0\<rparr>"
  define c2 where "c2 = c1\<lparr>tcp_state := TCP_STATE_ESTABLISHED, tcp_seq := tcp_seq cs + 1, tcp_ack := q + 1\<rparr>"
  have ok': "socket_ok c1" "socket_ok c2" "tcp_state c1 = TCP_STATE_SYNSENT" "tcp_state c2 = TCP_STATE_ESTABLISHED"
    using ok by (simp_all add: c1_def c2_def)
  obtain syn where syn: "sendtcp stk cl c1 cr TCP_FLAGS1_SYN [] = Some (c1, [syn])"
    "\<And>rest. tcp_arrives (syn @ rest) cl (tcp_port cs) (tcp_seq cs) 0 TCP_FLAGS1_SYN []"
    using sendtcp_ok [OF ok(1) ok'(1) ok(3,4), of TCP_FLAGS1_SYN "[]"] by (auto simp: c1_def)
  obtain ack where ack: "sendtcp stk cl c2 cr TCP_FLAGS1_ACK [syn] = Some (c2, [syn, ack])"
    "\<And>rest. tcp_arrives (ack @ rest) cl (tcp_port cs) (tcp_seq cs + 1) (q + 1) TCP_FLAGS1_ACK []"
    using sendtcp_ok [OF ok(1) ok'(2) ok(3,4), of TCP_FLAGS1_ACK "[syn]"] by (auto simp: c1_def c2_def)
  have "socket_connect_tcp stk cbuf cl cs cr [b] [] = Some (c2, [], [syn, ack])"
    if a: "tcp_arrives b peer (tcp_port cl) q (tcp_seq cs + 1) (TCP_FLAGS1_ACK OR TCP_FLAGS1_SYN) []" for b peer
  proof -
    have "handletcp stk cl c1 cr b 34 (of_nat (length [])) [syn] = Some (c2, [syn, ack])"
      using handle_synsent [OF a ok'(3)] ack(1) by (simp add: c2_def)
    then have "socket_handle_tcp stk cl c1 cr b SOCKET_MTUSIZE cbuf [syn] = Some (0, cbuf, c2, [syn, ack])"
      using socket_handle_tcp_ok [OF a ok(1)] ok(5) by simp
    then show ?thesis
      using syn(1) tcp_not_other(3) [OF a] ok'(4) by (simp add: socket_connect_tcp_def c1_def [symmetric])
  qed
  moreover have "c2 = cs\<lparr>tcp_state := TCP_STATE_ESTABLISHED, tcp_seq := tcp_seq cs + 1, tcp_ack := q + 1\<rparr>"
    by (simp add: c1_def c2_def)
  ultimately show ?thesis using syn(2) ack(2) by metis
qed

lemma listen_ok:
  assumes ok: "socket_ok sl" "socket_ok sc" "socket_ok sr" "socket_ok cl" "length stk = 1518" "unat count \<le> length buffer"
    and fresh: "tcp_state sc = TCP_STATE_LISTEN" "resolved sc = 0"
  shows "\<exists>synack s2. (\<forall>rest. tcp_arrives (synack @ rest) sl (tcp_port cl) (tcp_seq sc) (q + 1) (TCP_FLAGS1_ACK OR TCP_FLAGS1_SYN) []) \<and>
    socket_ok s2 \<and> records s2 cl \<and> tcp_state s2 = TCP_STATE_ESTABLISHED \<and> tcp_seq s2 = tcp_seq sc + 1 \<and> tcp_ack s2 = q + 1 \<and>
    (\<forall>b b' a0. tcp_arrives b cl (tcp_port sl) q a0 TCP_FLAGS1_SYN [] \<and>
      tcp_arrives b' cl (tcp_port sl) (q + 1) (tcp_seq sc + 1) TCP_FLAGS1_ACK [] \<longrightarrow>
      socket_receive stk sl 1 sr count [b, b'] [sc] buffer [] = Some (0, buffer, [s2], [], [synack]))"
proof -
  define s1 where "s1 = (learn cl q sc)\<lparr>tcp_state := TCP_STATE_SYNRECEIVED, tcp_ack := q + 1\<rparr>"
  define s2 where "s2 = s1\<lparr>tcp_state := TCP_STATE_ESTABLISHED, tcp_seq := tcp_seq sc + 1\<rparr>"
  have s1: "socket_ok s1" "tcp_port s1 = tcp_port cl" "records s1 cl" "tcp_state s1 = TCP_STATE_SYNRECEIVED"
    "tcp_seq s1 = tcp_seq sc" "tcp_ack s1 = q + 1" "resolved s1 = 1"
    using ok fresh by (simp_all add: s1_def learn_def socket_ok_def records_def)
  obtain synack where sa: "sendtcp stk sl s1 sr (TCP_FLAGS1_ACK OR TCP_FLAGS1_SYN) [] = Some (s1, [synack])"
    "\<And>rest. tcp_arrives (synack @ rest) sl (tcp_port cl) (tcp_seq sc) (q + 1) (TCP_FLAGS1_ACK OR TCP_FLAGS1_SYN) []"
    using sendtcp_ok [OF ok(1) s1(1) ok(3,5), of "TCP_FLAGS1_ACK OR TCP_FLAGS1_SYN" "[]"] s1 by auto
  have "socket_receive stk sl 1 sr count [b, b'] [sc] buffer [] = Some (0, buffer, [s2], [], [synack])"
    if a: "tcp_arrives b cl (tcp_port sl) q a0 TCP_FLAGS1_SYN []"
      and a': "tcp_arrives b' cl (tcp_port sl) (q + 1) (tcp_seq sc + 1) TCP_FLAGS1_ACK []" for b b' a0
  proof -
    have "handletcp stk sl (learn cl q sc) sr b 34 (of_nat (length [])) [] = Some (s1, [synack])"
      using handle_listen [OF a, of "learn cl q sc"] sa(1) fresh by (simp add: s1_def)
    moreover have "handletcp stk sl (learn cl (q + 1) s1) sr b' 34 (of_nat (length [])) [synack] = Some (s2, [synack])"
      using handle_synreceived [OF a' s1(4)] s1(7) by (simp add: learn_def s2_def)
    ultimately show ?thesis
      using receive_segment [OF a ok(1,2) _ _ ok(6)] receive_segment [OF a' ok(1) s1(1) _ _ ok(6)] s1 fresh
      by (simp add: s2_def)
  qed
  moreover have "socket_ok s2 \<and> records s2 cl \<and> tcp_state s2 = TCP_STATE_ESTABLISHED \<and> tcp_seq s2 = tcp_seq sc + 1 \<and> tcp_ack s2 = q + 1"
    using s1 by (simp add: s2_def)
  ultimately show ?thesis using sa(2) by blast
qed

text \<open>Two sockets for the examples.\<close>

definition demo_client :: socket where
  "demo_client = \<lparr>resolved = 1, haddress = [2, 0, 0, 0, 0, 1], paddress = [10, 0, 5, 1], tcp_state = 4, tcp_seq = 100, tcp_ack = 200,
     tcp_port = [4, 1]\<rparr>"

definition demo_server :: socket where
  "demo_server = \<lparr>resolved = 1, haddress = [2, 0, 0, 0, 0, 2], paddress = [10, 0, 5, 2], tcp_state = 4, tcp_seq = 100, tcp_ack = 200,
     tcp_port = [0, 80]\<rparr>"

section \<open>Address resolution\<close>

definition arp_frame :: "socket \<Rightarrow> socket \<Rightarrow> u16 \<Rightarrow> u8 list \<Rightarrow> u8 list \<Rightarrow> u8 list \<Rightarrow> u8 list \<Rightarrow> u8 list" where
  "arp_frame local router operation sha sip tha tip =
     haddress router @ haddress local @ be16 0x0806 @ be16 1 @ be16 0x0800 @ [6, 4] @ be16 operation @
     take 6 sha @ take 4 sip @ take 6 tha @ take 4 tip"

lemma put_field:
  assumes "length stk = 1518" "k = length xs" "n \<le> length f" "k + n < 1518"
  shows "buffer_write (blit stk 0 xs) 0 SOCKET_MTUSIZE f (of_nat n) (of_nat k) = Some (of_nat n, blit stk 0 (xs @ take n f))"
proof -
  have "length (take n f) = n" using assms by simp
  moreover have "buffer_write (blit stk 0 xs) 0 SOCKET_MTUSIZE f (of_nat n) (of_nat k) =
      buffer_write (blit stk 0 xs) 0 SOCKET_MTUSIZE (take n f) (of_nat n) (of_nat k)"
    using assms unat_chunk(1) [of n] by (simp add: buffer_write_ok clip_le min_absorb1 Let_def unat_clip)
  moreover have "blit (blit stk 0 xs) k (take n f) = blit stk 0 (xs @ take n f)"
    using assms by (intro blit_blit_append) simp_all
  ultimately show ?thesis using append_payload [of "blit stk 0 xs" "take n f" k] assms by simp
qed

lemma send_buildarp:
  assumes ok: "socket_ok local" "socket_ok router" "length stk = 1518"
    and l: "6 \<le> length sha" "4 \<le> length sip" "6 \<le> length tha" "4 \<le> length tip"
  shows "send (buildarp stk SOCKET_MTUSIZE local remote router operation sha sip tha tip) sent =
    Some (sent @ [arp_frame local router operation sha sip tha tip])"
proof -
  let ?e = "haddress router @ haddress local @ be16 0x0806" and ?a = "be16 1 @ be16 0x0800 @ [6, 4] @ be16 operation"
  have h: "length (haddress local) = 6" "length (haddress router) = 6" using ok by (simp_all add: socket_ok_def)
  have e: "ethernet_putheader stk 0 0x0806 (haddress local) (haddress router) = Some (0, blit stk 0 ?e)"
    using ethernet_initheader_ok [of 0 stk "haddress local" "haddress router"] ok h by (simp add: ethernet_putheader_def)
  have "blit (blit stk 0 ?e) 14 ?a = blit stk 0 (?e @ ?a)" using ok h by (intro blit_blit_append) simp_all
  then have a: "arp_putheader (blit stk 0 ?e) 14 1 6 0x0800 4 operation = Some (14, blit stk 0 (?e @ ?a))"
    using arp_initheader_ok [of 14 "blit stk 0 ?e"] ok h by (simp add: arp_putheader_def)
  define x where "x = ?e @ ?a"
  have x: "length x = 22" using h by (simp add: x_def)
  have w: "buffer_write (blit stk 0 x) 0 SOCKET_MTUSIZE sha 6 22 = Some (6, blit stk 0 (x @ take 6 sha))"
    "buffer_write (blit stk 0 (x @ take 6 sha)) 0 SOCKET_MTUSIZE sip 4 28 = Some (4, blit stk 0 (x @ take 6 sha @ take 4 sip))"
    "buffer_write (blit stk 0 (x @ take 6 sha @ take 4 sip)) 0 SOCKET_MTUSIZE tha 6 32 =
      Some (6, blit stk 0 (x @ take 6 sha @ take 4 sip @ take 6 tha))"
    "buffer_write (blit stk 0 (x @ take 6 sha @ take 4 sip @ take 6 tha)) 0 SOCKET_MTUSIZE tip 4 38 =
      Some (4, blit stk 0 (x @ take 6 sha @ take 4 sip @ take 6 tha @ take 4 tip))"
    using put_field [of stk 22 x 6 sha] put_field [of stk 28 "x @ take 6 sha" 4 sip]
      put_field [of stk 32 "x @ take 6 sha @ take 4 sip" 6 tha]
      put_field [of stk 38 "x @ take 6 sha @ take 4 sip @ take 6 tha" 4 tip] ok x l by simp_all
  have f: "x @ take 6 sha @ take 4 sip @ take 6 tha @ take 4 tip = arp_frame local router operation sha sip tha tip"
    by (simp add: x_def arp_frame_def)
  have "length (arp_frame local router operation sha sip tha tip) = 42" using h l by (simp add: arp_frame_def)
  then have "take 42 (blit stk 0 (arp_frame local router operation sha sip tha tip)) = arp_frame local router operation sha sip tha tip"
    using take_blit_frame [of "arp_frame local router operation sha sip tha tip" stk] ok by simp
  then show ?thesis
    using e a w unfolding x_def [symmetric] f by (simp add: send_def buildarp_def ethernet_hlen_def arp_hlen_def Let_def)
qed

text \<open>What \<^verbatim>\<open>handlearp\<close> reads of a receive array that holds an ARP message.\<close>

lemma arp_frame_fields:
  fixes operation :: u16 and rest :: "u8 list"
  assumes "socket_ok local" "socket_ok router" "6 \<le> length sha" "4 \<le> length sip" "6 \<le> length tha" "4 \<le> length tip"
  defines "b \<equiv> arp_frame local router operation sha sip tha tip @ rest"
  shows "42 \<le> length b" "net_load16 b 12 = Some 0x0806" "net_load16 b 20 = Some operation" "net_load8 b 18 = Some 6"
    "net_load8 b 19 = Some 4" "seg b 22 6 = take 6 sha" "seg b 28 4 = take 4 sip" "seg b 38 4 = take 4 tip"
proof -
  have h: "length (haddress local) = 6" "length (haddress router) = 6" using assms by (simp_all add: socket_ok_def)
  show lb: "42 \<le> length b" using h assms by (simp add: b_def arp_frame_def)
  have s: "seg b 12 2 = be16 0x0806" "seg b 20 2 = be16 operation" "seg b 18 1 = [6]" "seg b 19 1 = [4]"
    using h by (simp_all add: b_def arp_frame_def seg_def)
  show "seg b 22 6 = take 6 sha" "seg b 28 4 = take 4 sip" "seg b 38 4 = take 4 tip"
    using h assms by (simp_all add: b_def arp_frame_def seg_def)
  show "net_load16 b 12 = Some 0x0806" "net_load16 b 20 = Some operation" using lb s by (auto intro!: net16.load)
  show "net_load8 b 18 = Some 6" "net_load8 b 19 = Some 4" using lb s by (auto intro!: net8.load)
qed

section \<open>Properties\<close>

text \<open>
  C4: the three-way handshake. A server listens and knows nothing of the client; the client calls
  \<^verbatim>\<open>socket_connect_tcp\<close>. There are three frames such that, whatever the receive arrays hold behind
  them, the client sends the first, takes the second and sends the third, and \<^verbatim>\<open>socket_receive\<close> of the
  server takes the first, sends the second and takes the third. Both ends are then established, the
  server has recorded the client's addresses and port, each end has counted its own SYN, and each
  expects the number that the other will send.
\<close>

theorem tcp_handshake:
  assumes "socket_ok cl" "socket_ok cs" "socket_ok sl0" "socket_ok sc0" "socket_ok cr" "socket_ok sr"
    and "length stk = 1518" "length cbuf = 1518" "unat count \<le> length buffer"
    and "socket_listen_tcp sl0 [sc0] 1 = Some (sl, [sc])"
    and "resolved sc0 = 0" "tcp_port cs = tcp_port sl0" "resolved cs \<noteq> 0 \<longrightarrow> records cs sl0"
  shows "\<exists>syn synack ack cs' sc'. (\<forall>rest.
      socket_connect_tcp stk cbuf cl cs cr [synack @ rest] [] = Some (cs', [], [syn, ack]) \<and>
      socket_receive stk sl 1 sr count [syn @ rest, ack @ rest] [sc] buffer [] = Some (0, buffer, [sc'], [], [synack])) \<and>
    in_sync cl cs' sl sc' \<and> records sc' cl \<and>
    tcp_seq cs' = tcp_seq cs + 1 \<and> tcp_seq sc' = tcp_seq sc0 + 1"
proof -
  have ls: "sl = sl0\<lparr>tcp_state := TCP_STATE_LISTEN\<rparr>" "sc = sc0\<lparr>tcp_state := TCP_STATE_LISTEN\<rparr>"
    using assms(10) by (auto simp: socket_listen_tcp_def eval_nat_numeral)
  have ok: "socket_ok sl" "socket_ok sc" "tcp_port cs = tcp_port sl" "tcp_state sc = TCP_STATE_LISTEN" "resolved sc = 0"
    "tcp_seq sc = tcp_seq sc0" using assms ls by simp_all
  define cs' where "cs' = cs\<lparr>tcp_state := TCP_STATE_ESTABLISHED, tcp_seq := tcp_seq cs + 1, tcp_ack := tcp_seq sc + 1\<rparr>"
  obtain syn ack where c: "\<And>rest. tcp_arrives (syn @ rest) cl (tcp_port sl) (tcp_seq cs) 0 TCP_FLAGS1_SYN []"
    "\<And>rest. tcp_arrives (ack @ rest) cl (tcp_port sl) (tcp_seq cs + 1) (tcp_seq sc + 1) TCP_FLAGS1_ACK []"
    "\<And>b peer. tcp_arrives b peer (tcp_port cl) (tcp_seq sc) (tcp_seq cs + 1) (TCP_FLAGS1_ACK OR TCP_FLAGS1_SYN) [] \<Longrightarrow>
      socket_connect_tcp stk cbuf cl cs cr [b] [] = Some (cs', [], [syn, ack])"
    using connect_ok [OF assms(1,2,5,7,8), of "tcp_seq sc"] unfolding cs'_def ok(3) by blast
  obtain synack sc' where s: "\<And>rest. tcp_arrives (synack @ rest) sl (tcp_port cl) (tcp_seq sc) (tcp_seq cs + 1) (TCP_FLAGS1_ACK OR TCP_FLAGS1_SYN) []"
    "socket_ok sc'" "records sc' cl" "tcp_state sc' = TCP_STATE_ESTABLISHED" "tcp_seq sc' = tcp_seq sc + 1" "tcp_ack sc' = tcp_seq cs + 1"
    "\<And>b b' a0. tcp_arrives b cl (tcp_port sl) (tcp_seq cs) a0 TCP_FLAGS1_SYN [] \<Longrightarrow>
      tcp_arrives b' cl (tcp_port sl) (tcp_seq cs + 1) (tcp_seq sc + 1) TCP_FLAGS1_ACK [] \<Longrightarrow>
      socket_receive stk sl 1 sr count [b, b'] [sc] buffer [] = Some (0, buffer, [sc'], [], [synack])"
    using listen_ok [OF ok(1,2) assms(6,1,7,9) ok(4,5), of "tcp_seq cs"] by blast
  have "in_sync cl cs' sl sc'"
    using assms(1,2,13) ok s by (auto simp: in_sync_def cs'_def records_def ls(1))
  then show ?thesis
    using c(3) [OF s(1)] s(7) [OF c(1,2)] s ok(6)
    by (intro exI [of _ syn] exI [of _ synack] exI [of _ ack] exI [of _ cs'] exI [of _ sc'])
       (simp add: cs'_def del: socket_receive.simps)
qed

theorem tcp_handshake_witness:
  "\<exists>syn synack ack cs' sc'. (\<forall>rest.
      socket_connect_tcp (replicate 1518 0) (replicate 1518 0) demo_client demo_server demo_server [synack @ rest] [] =
        Some (cs', [], [syn, ack]) \<and>
      socket_receive (replicate 1518 0) (demo_server\<lparr>tcp_state := TCP_STATE_LISTEN\<rparr>) 1 demo_client 8 [syn @ rest, ack @ rest]
        [demo_client\<lparr>resolved := 0, tcp_state := TCP_STATE_LISTEN\<rparr>] (replicate 8 0) [] =
        Some (0, replicate 8 0, [sc'], [], [synack])) \<and>
    in_sync demo_client cs' (demo_server\<lparr>tcp_state := TCP_STATE_LISTEN\<rparr>) sc' \<and> records sc' demo_client \<and>
    tcp_seq cs' = tcp_seq demo_server + 1 \<and> tcp_seq sc' = tcp_seq (demo_client\<lparr>resolved := 0\<rparr>) + 1"
  by (rule tcp_handshake [of demo_client demo_server demo_server "demo_client\<lparr>resolved := 0\<rparr>" demo_server demo_client
        "replicate 1518 0" "replicate 1518 0" 8 "replicate 8 0" "demo_server\<lparr>tcp_state := TCP_STATE_LISTEN\<rparr>"
        "demo_client\<lparr>resolved := 0, tcp_state := TCP_STATE_LISTEN\<rparr>"])
     (simp_all add: demo_client_def demo_server_def socket_ok_def socket_listen_tcp_def records_def)

text \<open>
  C5: a byte stream is delivered. Over an established connection whose ends agree, a client that
  sends any list of chunks of 1 to 1464 bytes, each received by the server and acknowledged before the
  next, delivers exactly the concatenation of the chunks, in order; no call fails, the ends still agree,
  and the client's sequence number has advanced, modulo 2^32, by the number of bytes.
\<close>

theorem tcp_stream_delivered:
  assumes "in_sync cl cs sl sc" "socket_ok cr" "socket_ok sr" "length stk = 1518" "unat count \<le> length buffer"
    and "\<forall>chunk \<in> set chunks. chunk \<noteq> [] \<and> length chunk \<le> 1464 \<and> length chunk \<le> unat count"
  shows "\<exists>cs' sc'. transfer stk rest buffer count cl cr sl sr chunks (cs, sc, got) = Some (cs', sc', got @ concat chunks) \<and>
    in_sync cl cs' sl sc' \<and> tcp_seq cs' = tcp_seq cs + of_nat (length (concat chunks)) \<and> tcp_seq sc' = tcp_seq sc"
  using assms(1,6)
proof (induction chunks arbitrary: cs sc got)
  case (Cons chunk chunks)
  obtain c s where one: "exchange stk rest buffer count cl cr sl sr chunk (cs, sc, got) = Some (c, s, got @ chunk)"
    "in_sync cl c sl s" "tcp_seq c = tcp_seq cs + of_nat (length chunk)" "tcp_seq s = tcp_seq sc"
    using exchange_ok [OF Cons.prems(1) assms(2-4), of chunk count buffer rest got] Cons.prems(2) assms(5) by auto
  obtain c' s' where "transfer stk rest buffer count cl cr sl sr chunks (c, s, got @ chunk) = Some (c', s', (got @ chunk) @ concat chunks)"
    "in_sync cl c' sl s'" "tcp_seq c' = tcp_seq c + of_nat (length (concat chunks))" "tcp_seq s' = tcp_seq s"
    using Cons.IH [OF one(2), of "got @ chunk"] Cons.prems(2) by auto
  then show ?case using one by (simp add: ac_simps)
qed simp

theorem tcp_stream_delivered_witness:
  "\<exists>cs' sc'. transfer (replicate 1518 0) [7] (replicate 8 0) 8 demo_client demo_client
      demo_server demo_client [[1, 2, 3], [4, 5]]
      (demo_server, demo_client\<lparr>tcp_seq := 200, tcp_ack := 100\<rparr>, []) = Some (cs', sc', [1, 2, 3, 4, 5])"
proof -
  have "in_sync demo_client demo_server demo_server (demo_client\<lparr>tcp_seq := 200, tcp_ack := 100\<rparr>)"
    by (simp add: in_sync_def demo_client_def demo_server_def socket_ok_def records_def)
  then have "\<exists>cs' sc'. transfer (replicate 1518 0) [7] (replicate 8 0) 8 demo_client demo_client
      demo_server demo_client [[1, 2, 3], [4, 5]] (demo_server, demo_client\<lparr>tcp_seq := 200, tcp_ack := 100\<rparr>, []) =
      Some (cs', sc', [] @ concat [[1, 2, 3], [4, 5]]) \<and>
    in_sync demo_client cs' demo_server sc' \<and> tcp_seq cs' = tcp_seq demo_server + of_nat (length (concat [[1, 2, 3], [4, 5 :: u8]])) \<and>
    tcp_seq sc' = tcp_seq (demo_client\<lparr>tcp_seq := 200, tcp_ack := 100\<rparr>)"
    by (rule tcp_stream_delivered) (simp_all add: demo_client_def socket_ok_def)
  then show ?thesis by (auto simp del: transfer.simps)
qed

text \<open>
  C25: address resolution. \<^verbatim>\<open>socket_resolveremote\<close> sends one request to the broadcast address; the socket that has the
  protocol address asked for answers it, and no other socket does; and the answer, whatever the receive
  array holds behind it, makes the requester record the hardware address of the one that answered.
\<close>

theorem arp_resolves:
  assumes "socket_ok local" "socket_ok remote" "socket_ok peer" "length stk = 1518"
  shows "\<exists>request reply. take 6 request = replicate 6 0xFF \<and> (\<forall>rest sent.
      socket_handle_arp stk peer other (request @ rest) sent =
        Some (other, if paddress peer = paddress remote then sent @ [reply] else sent) \<and>
      socket_resolveremote stk local remote [reply @ rest] [] =
        Some (remote\<lparr>haddress := haddress peer, resolved := 1\<rparr>, [], [request]))"
proof -
  let ?all = "[0xFF, 0xFF, 0xFF, 0xFF, 0xFF, 0xFF] :: u8 list"
  have l: "length (haddress x) = 6" "length (paddress x) = 4" if "socket_ok x" for x using that by (simp_all add: socket_ok_def)
  define mc where "mc = remote\<lparr>haddress := ?all\<rparr>"
  define answer where "answer = blank\<lparr>haddress := haddress local, paddress := paddress local\<rparr>"
  have ok: "socket_ok mc" "socket_ok answer" using assms by (simp_all add: mc_def answer_def blank_def socket_ok_def)
  define request where "request = arp_frame local mc 1 (haddress local) (paddress local) (haddress remote) (paddress remote)"
  define reply where "reply = arp_frame peer answer 2 (haddress peer) (paddress peer) (haddress local) (paddress local)"
  note rq = arp_frame_fields [OF assms(1) ok(1), where operation = 1 and sha = "haddress local" and sip = "paddress local"
      and tha = "haddress remote" and tip = "paddress remote", folded request_def]
  note rp = arp_frame_fields [OF assms(3) ok(2), where operation = 2 and sha = "haddress peer" and sip = "paddress peer"
      and tha = "haddress local" and tip = "paddress local", folded reply_def]
  have "socket_handle_arp stk peer other (request @ rest) sent =
      Some (other, if paddress peer = paddress remote then sent @ [reply] else sent)" for rest sent
  proof -
    let ?b = "request @ rest"
    have f: "seg ?b 22 6 = haddress local" "seg ?b 28 4 = paddress local" "seg ?b 38 4 = paddress remote" "42 \<le> length ?b"
      using rq [where rest = rest] l assms by simp_all
    have cp: "buffer_copy (haddress blank) 0 (drop 22 ?b) 6 = Some (haddress local)"
      "buffer_copy (paddress blank) 0 (drop 28 ?b) 4 = Some (paddress local)"
      using f by (intro copy_field; simp add: blank_def)+
    have m: "buffer_match (drop 38 ?b) (paddress peer) 4 = Some (if paddress peer = paddress remote then 1 else 0)"
      using f l [OF assms(3)] by (auto simp: buffer_match_eq seg_def)
    have "arp_frame peer answer 2 (haddress peer) (paddress peer) (drop 22 ?b) (drop 28 ?b) = reply"
      using f l assms by (simp add: reply_def arp_frame_def seg_def)
    then have "send (buildarp stk SOCKET_MTUSIZE peer answer answer 2 (haddress peer) (paddress peer) (drop 22 ?b) (drop 28 ?b)) sent =
        Some (sent @ [reply])"
      using send_buildarp [OF assms(3) ok(2) assms(4)] l [OF assms(3)] f(4) by simp
    moreover have "(socket_init blank)\<lparr>haddress := haddress local, paddress := paddress local\<rparr> = answer"
      by (simp add: answer_def socket_init_def blank_def)
    ultimately show ?thesis
      using rq [where rest = rest] l assms cp m
      by (simp add: socket_handle_arp_def handlearp_def ethernet_hlen_def arp_hlen_def Let_def)
  qed
  moreover have "socket_resolveremote stk local remote [reply @ rest] [] =
      Some (remote\<lparr>haddress := haddress peer, resolved := 1\<rparr>, [], [request])" for rest
  proof -
    have "buffer_copy (haddress remote) 0 (drop 22 (reply @ rest)) 6 = Some (haddress peer)"
      using rp [where rest = rest] l assms by (intro copy_field) simp_all
    then have "socket_handle_arp stk local remote (reply @ rest) [request] = Some (remote\<lparr>haddress := haddress peer, resolved := 1\<rparr>, [request])"
      using rp [where rest = rest] l assms by (simp add: socket_handle_arp_def handlearp_def ethernet_hlen_def arp_hlen_def Let_def)
    moreover have "buffer_copy (haddress remote) 0 ?all 6 = Some ?all"
      using l [OF assms(2)] by (simp add: blit_def)
    ultimately show ?thesis
      using send_buildarp [OF assms(1) ok(1) assms(4), of "haddress local" "paddress local" "haddress remote" "paddress remote" remote 1 "[]"] l assms
      by (simp add: socket_resolveremote_def mc_def [symmetric] request_def [symmetric] Let_def)
  qed
  moreover have "take 6 request = replicate 6 0xFF"
    by (simp add: request_def arp_frame_def mc_def numeral_eq_Suc)
  ultimately show ?thesis by blast
qed

theorem arp_resolves_witness:
  "\<exists>request reply. take 6 request = replicate 6 0xFF \<and> (\<forall>rest sent.
      socket_handle_arp (replicate 1518 0) demo_server blank (request @ rest) sent =
        Some (blank, if paddress demo_server = paddress demo_server then sent @ [reply] else sent) \<and>
      socket_resolveremote (replicate 1518 0) demo_client demo_server [reply @ rest] [] =
        Some (demo_server\<lparr>haddress := haddress demo_server, resolved := 1\<rparr>, [], [request]))"
  by (rule arp_resolves) (simp_all add: demo_client_def demo_server_def socket_ok_def)

text \<open>
  C24: a datagram forges a connection. The UDP port of a socket shares its storage with the TCP state,
  so a socket that listens for TCP also takes UDP datagrams for port 256, the bytes of the state LISTEN,
  and recording the source port of such a datagram overwrites the TCP state of the record. One empty
  datagram from port 1024 to port 256 leaves the record ESTABLISHED, without a handshake and without
  an answer.
\<close>

theorem udp_forges_connection:
  assumes "socket_ok local0" "socket_ok remote0" "socket_listen_tcp local0 [remote0] 1 = Some (local, [remote])"
    and "resolved remote0 = 0" "42 \<le> length b"
    and "net_load16 b 12 = Some 0x0800" "ipv4_hlen b 14 = Some 20" "ipv4_len b 14 = Some 28" "net_load8 b 23 = Some 0x11"
    and "seg b 34 4 = [4, 0, 1, 0]"
  shows "\<exists>remote'. socket_receive stk local 1 router count [b] [remote] buffer [] = Some (0, buffer, [remote'], [], []) \<and>
    tcp_state remote' = TCP_STATE_ESTABLISHED \<and> resolved remote' = 1 \<and>
    haddress remote' = seg b 6 6 \<and> paddress remote' = seg b 26 4"
proof -
  have ls: "local = local0\<lparr>tcp_state := TCP_STATE_LISTEN\<rparr>" "remote = remote0\<lparr>tcp_state := TCP_STATE_LISTEN\<rparr>"
    using assms(3) by (auto simp: socket_listen_tcp_def eval_nat_numeral)
  have p: "b ! 34 = 4" "b ! 35 = 0" "b ! 36 = 1" "b ! 37 = 0"
    using assms(10) seg_four [of 34 b] assms(5) by simp_all
  have port: "net_load16 (udp_port local) 0 = Some 0x0100" "net_load16 b 36 = Some 0x0100"
    using p assms(5) by (simp_all add: ls udp_port_def net_load16_def)
  have "buffer_copy (haddress remote) 0 (drop 6 b) 6 = Some (seg b 6 6)" "buffer_copy (paddress remote) 0 (drop 26 b) 4 = Some (seg b 26 4)"
    using assms(1,2,5) by (intro copy_field; simp add: ls socket_ok_def)+
  moreover have "set_udp_port (drop 34 b) s = Some (s\<lparr>tcp_state := (tcp_state s AND 0xFFFF0000) OR 4\<rparr>)" for s
    using p assms(5) by (simp add: set_udp_port_def)
  ultimately show ?thesis
    using assms port
    by (simp add: receive_arp_def socket_accept_arp_def receive_tcp_def socket_accept_tcp_def receive_udp_def socket_accept_udp_def
        socket_handle_udp_def handleudp_def ethernet_hlen_def udp_hlen_def Let_def ls)
qed

theorem udp_forges_connection_witness:
  "\<exists>remote'. socket_receive [] (demo_server\<lparr>tcp_state := TCP_STATE_LISTEN\<rparr>) 1 demo_server 0
      [replicate 12 0 @ [8, 0, 0x45, 0, 0, 28, 0, 0, 0, 0, 64, 0x11] @ replicate 10 0 @ [4, 0, 1, 0] @ replicate 4 0]
      [demo_client\<lparr>resolved := 0, tcp_state := TCP_STATE_LISTEN\<rparr>] [] [] = Some (0, [], [remote'], [], []) \<and>
    tcp_state remote' = TCP_STATE_ESTABLISHED"
  using udp_forges_connection [of demo_server "demo_client\<lparr>resolved := 0\<rparr>" "demo_server\<lparr>tcp_state := TCP_STATE_LISTEN\<rparr>"
      "demo_client\<lparr>resolved := 0, tcp_state := TCP_STATE_LISTEN\<rparr>"
      "replicate 12 0 @ [8, 0, 0x45, 0, 0, 28, 0, 0, 0, 0, 64, 0x11] @ replicate 10 0 @ [4, 0, 1, 0] @ replicate 4 0"
      "[]" demo_server 0 "[]"]
  by (simp add: demo_client_def demo_server_def socket_ok_def socket_listen_tcp_def net_load16_def net_load8_def ipv4_hlen_def
      ipv4_len_def nth_append seg_def del: socket_receive.simps) blast

text \<open>
  C30: a short total length makes the TCP handler read out of bounds. A frame whose IPv4 total length
  is smaller than the two headers gives a payload size that wraps to almost 2^32; with the 4096 byte
  output that the callers pass, the copy leaves the 1518 byte receive array, in every state of the
  connection.
\<close>

theorem tcp_short_length_overreads:
  assumes "length b = 1518" "4096 \<le> length out" "socket_ok local"
    and "net_load16 b 12 = Some 0x0800" "ipv4_hlen b 14 = Some 20" "ipv4_len b 14 = Some itot" "itot < 40"
    and "net_load8 b 23 = Some 6" "tcp_hlen b 34 = Some 20" "net_load16 b 36 = net_load16 (tcp_port local) 0"
  shows "socket_handle_tcp stk local remote router b 4096 out sent = None"
proof -
  define psize where "psize = (ucast itot - (ucast (20 :: u16) + ucast (20 :: u16)) :: u32)"
  have u: "unat (ucast itot :: u32) < 40" using assms(7) by (simp add: word_less_nat_alt unsigned_ucast_eq take_bit_eq_mod)
  then have "unat psize = unat (ucast itot :: u32) + 4294967296 - 40"
    unfolding psize_def by (simp add: unat_sub_if')
  then have big: "4096 < psize" using u by (simp add: word_less_nat_alt)
  have "buffer_write out 0 4096 (drop 54 b) psize 0 = None"
    using big assms(1) by (simp add: buffer_write_def buffer_copy_eq)
  moreover have "psize \<noteq> 0" using big by auto
  moreover have "\<exists>v. net_load16 (tcp_port local) 0 = Some v" using assms(3) by (simp add: net_load16_def socket_ok_def)
  moreover have "ucast itot - 40 = psize" "ucast itot \<noteq> (40 :: u32)" using u by (auto simp: psize_def)
  ultimately show ?thesis
    using assms(4-6,8-10)
    by (cases "handletcp stk local remote router b 34 psize sent")
       (auto simp: socket_handle_tcp_def ethernet_hlen_def Let_def)
qed

theorem tcp_short_length_overreads_witness:
  "socket_handle_tcp [] demo_client demo_client demo_client
     (replicate 12 0 @ [8, 0, 0x45, 0, 0, 39, 0, 0, 0, 0, 64, 6] @ replicate 10 0 @ [0, 0, 4, 1] @ replicate 8 0 @ [0x50] @ replicate 1471 0)
     4096 (replicate 4096 0) [] = None"
  by (rule tcp_short_length_overreads [where itot = 39])
     (simp_all add: demo_client_def socket_ok_def net_load16_def net_load8_def ipv4_hlen_def ipv4_len_def tcp_hlen_def nth_append)
end
