(* ===== verification/Gb_Host.thy ===== *)
theory Gb_Host
  imports Gb_Frame Libz_Keys
begin

text \<open>
  The host program around the Game Boy emulator: the picture on the screen (\<^verbatim>\<open>video_render\<close> with the
  geometry of \<^verbatim>\<open>onvideomode\<close>), the real time clock, the initialisation and the event loop of \<^verbatim>\<open>run\<close>
  (\<^verbatim>\<open>src/src/gameboy/gameboy.c\<close>, \<^verbatim>\<open>video.c\<close> and \<^verbatim>\<open>cpu.c\<close>).
\<close>

section \<open>The picture on the screen\<close>

text \<open>The colour of a pixel: all three palettes of \<^verbatim>\<open>video.c\<close> are the same grey scale.\<close>

definition shade_colour :: "u8 \<Rightarrow> u32" where
  "shade_colour p = [0x00FFFFFF, 0x00A0A0A0, 0x00606060, 0x00000000] ! (unat p mod 4)"

lemma palette_index: "pixel_ok p \<Longrightarrow> unat (drop_bit 4 (p AND 0x30)) < 3 \<and> unat (p AND 3) = unat p mod 4"
  by (rule u8_exhaust [of "\<lambda>p. pixel_ok p \<longrightarrow> unat (drop_bit 4 (p AND 0x30)) < 3 \<and> unat (p AND 3) = unat p mod 4", THEN mp])
     (simp_all add: pixel_ok_def)

lemma palette_colour:
  assumes "pixel_ok p"
  shows "do { pal \<leftarrow> rd video_palette (unat (drop_bit 4 (p AND 0x30))); rd pal (unat (p AND 3)) } = Some (shade_colour p)"
  using palette_index [OF assms] by (simp add: video_palette_def shade_colour_def)

lemma concat_row:
  assumes "list_all (\<lambda>row. length row = n) rows" "r < length rows" "c < n"
  shows "n * r + c < length (concat rows)" "concat rows ! (n * r + c) = rows ! r ! c"
proof -
  have *: "n * r + c < length (concat rows) \<and> concat rows ! (n * r + c) = rows ! r ! c"
    using assms
  proof (induction rows arbitrary: r)
    case (Cons row rows)
    then show ?case by (cases r) (auto simp: nth_append)
  qed simp
  show "n * r + c < length (concat rows)" "concat rows ! (n * r + c) = rows ! r ! c" using * by blast+
qed

lemma render_row_spec:
  assumes "length target < 4294967296" "unat ytarget + unat offx + unat totw \<le> length target"
    and "length (concat fb) < 4294967296" "0 < unat totw \<Longrightarrow> scalew \<noteq> 0"
    and src: "\<And>i. i < unat totw \<Longrightarrow> unat ysource + i div unat scalew < length (concat fb) \<and>
      pixel_ok (concat fb ! (unat ysource + i div unat scalew))"
  shows "yields (render_row fb ytarget ysource scalew totw offx x target)
    (\<lambda>t. length t = length target \<and> (\<forall>k. t ! k =
      (if unat ytarget + unat offx + unat x \<le> k \<and> k < unat ytarget + unat offx + unat totw
       then shade_colour (concat fb ! (unat ysource + (k - (unat ytarget + unat offx)) div unat scalew)) else target ! k)))"
  using assms(1,2)
proof (induction "unat totw - unat x" arbitrary: x target)
  case 0
  then have "\<not> x < totw" by (simp add: word_less_nat_alt)
  then show ?case using 0 by (subst render_row.simps) auto
next
  case (Suc n)
  let ?b = "unat ytarget + unat offx" and ?i = "unat x"
  have x: "x < totw" "?i < unat totw" using Suc.hyps(2) by (simp_all add: word_less_nat_alt)
  then have x1: "unat (x + 1) = ?i + 1" by (simp add: unat_inc_u32)
  have scale: "scalew \<noteq> 0" by (rule assms(4)) (use x(2) in linarith)
  have source: "unat (ysource + x div scalew) = unat ysource + ?i div unat scalew"
    using src [OF x(2)] assms(3) by (simp add: unat_word_ariths unat_div)
  have "unat (x + offx) = ?i + unat offx" using x(2) Suc.prems by (intro unat_add_u32) linarith
  then have dest: "unat (ytarget + (x + offx)) = ?b + ?i" using x(2) Suc.prems by (subst unat_add_u32) linarith+
  let ?p = "concat fb ! (unat ysource + ?i div unat scalew)"
  have step: "render_row fb ytarget ysource scalew totw offx x target =
      render_row fb ytarget ysource scalew totw offx (x + 1) (target[?b + ?i := shade_colour ?p])"
    using x scale src [OF x(2)] Suc.prems palette_colour [of ?p]
    by (subst render_row.simps) (simp add: source dest bind_assoc [symmetric] del: bind_assoc)
  have "yields (render_row fb ytarget ysource scalew totw offx (x + 1) (target[?b + ?i := shade_colour ?p]))
    (\<lambda>t. length t = length (target[?b + ?i := shade_colour ?p]) \<and> (\<forall>k. t ! k =
      (if ?b + unat (x + 1) \<le> k \<and> k < ?b + unat totw
       then shade_colour (concat fb ! (unat ysource + (k - ?b) div unat scalew))
       else target[?b + ?i := shade_colour ?p] ! k)))"
    using Suc.hyps Suc.prems x1 by (intro Suc.hyps(1)) simp_all
  then show ?case
    unfolding step
    by (rule yields_mono) (use x Suc.prems in \<open>auto simp: x1 nth_list_update\<close>)
qed

lemma row_position:
  assumes "a + n \<le> (w :: nat)"
  shows "r * w + a \<le> k \<and> k < r * w + a + n \<longleftrightarrow> k div w = r \<and> a \<le> k mod w \<and> k mod w < a + n"
proof
  assume *: "r * w + a \<le> k \<and> k < r * w + a + n"
  then obtain c where c: "k = r * w + c" "c < w" using assms by (metis add_leD1 le_iff_add le_trans nat_add_left_cancel_less order_less_le_trans add.assoc)
  then show "k div w = r \<and> a \<le> k mod w \<and> k mod w < a + n" using * by simp
next
  assume "k div w = r \<and> a \<le> k mod w \<and> k mod w < a + n"
  moreover from this have "r * w + k mod w = k" by (metis div_mult_mod_eq)
  ultimately show "r * w + a \<le> k \<and> k < r * w + a + n" by linarith
qed

text \<open>
  The screen after the rows from \<open>lo\<close> up to \<open>hi\<close> have been drawn: \<open>k\<close> is a position in its frame buffer,
  with its row \<open>k div w\<close> and its column \<open>k mod w\<close>.
\<close>

definition drawn :: "u8 list list \<Rightarrow> screen \<Rightarrow> nat \<Rightarrow> nat \<Rightarrow> u32 list \<Rightarrow> nat \<Rightarrow> u32" where
  "drawn fb s lo hi target k =
     (let w = unat (scr_w s); r = k div w; c = k mod w; offx = unat (scr_offx s) in
      if lo \<le> r \<and> r < hi \<and> offx \<le> c \<and> c < offx + unat (scr_totw s)
      then shade_colour (fb ! ((r - unat (scr_offy s)) div unat (scr_scaleh s)) ! ((c - offx) div unat (scr_scalew s)))
      else target ! k)"

definition screen_ok :: "u8 list list \<Rightarrow> screen \<Rightarrow> u32 list \<Rightarrow> bool" where
  "screen_ok fb s target \<longleftrightarrow>
     length fb = 144 \<and> list_all (\<lambda>row. length row = 160) fb \<and> list_all (list_all pixel_ok) fb \<and>
     unat (scr_totw s) = 160 * unat (scr_scalew s) \<and> unat (scr_toth s) = 144 * unat (scr_scaleh s) \<and>
     unat (scr_offx s) + unat (scr_totw s) \<le> unat (scr_w s) \<and>
     (unat (scr_offy s) + unat (scr_toth s)) * unat (scr_w s) \<le> length target \<and> length target < 4294967296"

lemma screen_ok_fits:
  assumes "screen_ok fb s target"
  shows "(unat (scr_offy s) + unat (scr_toth s)) * unat (scr_w s) \<le> length target" "length target < 4294967296"
  using assms unfolding screen_ok_def by blast+

lemma screen_ok_length: "screen_ok fb s target \<Longrightarrow> length t = length target \<Longrightarrow> screen_ok fb s t"
  unfolding screen_ok_def by metis

lemma drawn_next:
  "lo < hi \<Longrightarrow> (\<And>k. t ! k = drawn fb s lo (Suc lo) target k) \<Longrightarrow> drawn fb s (Suc lo) hi t k = drawn fb s lo hi target k"
  by (auto simp: drawn_def Let_def)

lemma flat_pixel:
  assumes "screen_ok fb s target" "y < unat (scr_toth s)" "i < unat (scr_totw s)"
  defines "r \<equiv> y div unat (scr_scaleh s)" and "c \<equiv> i div unat (scr_scalew s)"
  shows "160 * r + c < length (concat fb) \<and> concat fb ! (160 * r + c) = fb ! r ! c \<and> pixel_ok (fb ! r ! c)"
proof -
  have "r < 144" "c < 160" using assms by (simp_all add: screen_ok_def less_mult_imp_div_less)
  then show ?thesis
    using concat_row [of 160 fb r c] assms(1) by (simp add: screen_ok_def list_all_length)
qed

lemma unat_mult_u32: "unat (a :: u32) * unat b < 4294967296 \<Longrightarrow> unat (a * b) = unat a * unat b"
  by (simp add: unat_word_ariths)

lemma target_row:
  assumes "(unat offy + unat y) * unat w < 4294967296"
  shows "unat ((y + offy) * w) = (unat offy + unat (y :: u32)) * unat w"
proof (cases "w = 0")
  case False
  then have "1 \<le> unat w" by (simp add: Suc_le_eq unat_gt_0)
  then have "(unat offy + unat y) * 1 \<le> (unat offy + unat y) * unat w" by (rule mult_le_mono2)
  then have "unat y + unat offy < 4294967296" using assms by (simp only: mult_1_right)
  then have "unat (y + offy) = unat offy + unat y" by (simp add: unat_add_u32)
  then show ?thesis using unat_mult_u32 [of "y + offy" w] assms by simp
qed simp

lemma render_row_drawn:
  assumes ok: "screen_ok fb s target" and y: "unat y < unat (scr_toth s)"
  shows "yields (render_row fb ((y + scr_offy s) * scr_w s) (y div scr_scaleh s * 160) (scr_scalew s) (scr_totw s) (scr_offx s) 0 target)
    (\<lambda>t. length t = length target \<and>
      (\<forall>k. t ! k = drawn fb s (unat (scr_offy s) + unat y) (Suc (unat (scr_offy s) + unat y)) target k))"
proof -
  let ?w = "unat (scr_w s)" and ?r = "unat y div unat (scr_scaleh s)" and ?Y = "unat (scr_offy s) + unat y"
  have "?r < 144" using y ok by (simp add: screen_ok_def less_mult_imp_div_less)
  then have source: "unat (y div scr_scaleh s * 160) = 160 * ?r" by (simp add: unat_word_ariths unat_div)
  have le: "?Y * ?w + ?w \<le> length target" "length target < 4294967296"
    using y screen_ok_fits [OF ok] mult_le_mono1 [of "Suc ?Y" "unat (scr_offy s) + unat (scr_toth s)" ?w]
    by (simp_all only: mult_Suc) linarith
  then have target: "unat ((y + scr_offy s) * scr_w s) = ?Y * ?w" by (intro target_row) linarith
  have w: "unat (scr_offx s) + unat (scr_totw s) \<le> ?w" using ok by (simp add: screen_ok_def)
  have fb: "length (concat fb) < 4294967296" "0 < unat (scr_totw s) \<Longrightarrow> scr_scalew s \<noteq> 0"
    using ok by (auto simp: screen_ok_def length_concat list_all_iff sum_list_triv cong: map_cong)
  have col: "k - (?Y * ?w + n) = k mod ?w - n" if "k div ?w = ?Y" for k n
    unfolding that [symmetric] diff_diff_left [symmetric] by (simp only: minus_div_mult_eq_mod)
  note row = render_row_spec [of target "(y + scr_offy s) * scr_w s" "scr_offx s" "scr_totw s" fb "scr_scalew s"
      "y div scr_scaleh s * 160" 0, unfolded target source unat_0 add_0_right row_position [OF w]]
  show ?thesis
  proof (rule yields_mono [OF row])
    show "?Y * ?w + unat (scr_offx s) + unat (scr_totw s) \<le> length target" using w le by linarith
  next
    fix t
    assume "length t = length target \<and> (\<forall>k. t ! k =
      (if k div ?w = ?Y \<and> unat (scr_offx s) \<le> k mod ?w \<and> k mod ?w < unat (scr_offx s) + unat (scr_totw s)
       then shade_colour (concat fb ! (160 * ?r + (k - (?Y * ?w + unat (scr_offx s))) div unat (scr_scalew s)))
       else target ! k))"
    then show "length t = length target \<and> (\<forall>k. t ! k = drawn fb s ?Y (Suc ?Y) target k)"
      using flat_pixel [OF ok y] by (auto simp: drawn_def Let_def col)
  qed (use le fb flat_pixel [OF ok y] in auto)
qed

lemma render_rows_drawn:
  assumes "screen_ok fb s target"
  shows "yields (render_rows fb (scr_w s) (scr_scalew s) (scr_scaleh s) (scr_totw s) (scr_toth s) (scr_offx s) (scr_offy s) y target)
    (\<lambda>t. length t = length target \<and>
      (\<forall>k. t ! k = drawn fb s (unat (scr_offy s) + unat y) (unat (scr_offy s) + unat (scr_toth s)) target k))"
  using assms
proof (induction "unat (scr_toth s) - unat y" arbitrary: y target)
  case 0
  then have "\<not> y < scr_toth s" by (simp add: word_less_nat_alt)
  then show ?case using 0 by (subst render_rows.simps) (auto simp: drawn_def Let_def)
next
  case (Suc n)
  have y: "y < scr_toth s" "unat y < unat (scr_toth s)" using Suc.hyps(2) by (simp_all add: word_less_nat_alt)
  then have y1: "unat (y + 1) = Suc (unat y)" by (simp add: unat_inc_u32)
  have scale: "scr_scaleh s \<noteq> 0" using y(2) Suc.prems by (auto simp: screen_ok_def)
  show ?case
    using y scale
  proof (subst render_rows.simps, simp, rule_tac yields_mono [OF render_row_drawn [OF Suc.prems y(2)]])
    fix t
    assume t: "length t = length target \<and>
      (\<forall>k. t ! k = drawn fb s (unat (scr_offy s) + unat y) (Suc (unat (scr_offy s) + unat y)) target k)"
    then have "screen_ok fb s t" using Suc.prems screen_ok_length by blast
    from Suc.hyps(1) [OF _ this, of "y + 1"]
    show "yields (render_rows fb (scr_w s) (scr_scalew s) (scr_scaleh s) (scr_totw s) (scr_toth s) (scr_offx s) (scr_offy s) (y + 1) t)
      (\<lambda>t. length t = length target \<and>
        (\<forall>k. t ! k = drawn fb s (unat (scr_offy s) + unat y) (unat (scr_offy s) + unat (scr_toth s)) target k))"
      using Suc.hyps(2) t y1 y(2) by (simp add: drawn_next)
  qed
qed

section \<open>The program\<close>

text \<open>
  The static variables of \<^verbatim>\<open>gameboy.c\<close> and the local \<^verbatim>\<open>gb\<close> of \<^verbatim>\<open>run\<close>; \<open>host_active\<close> is the variable \<^verbatim>\<open>active\<close>
  of the channel library, which \<^verbatim>\<open>channel_close\<close> clears.
\<close>

record host =
  host_gb :: gb_s
  host_keys :: keys
  host_framebuffer :: "u32 list option"
  host_screen :: screen
  host_active :: bool

text \<open>
  \<^verbatim>\<open>run\<close> up to the message loop. \<open>call_read count offset\<close> is what the kernel call reads from the file
  of the cartridge; the result of \<^verbatim>\<open>gb_init\<close> is ignored by the program.
\<close>

definition run_init :: "(u32 \<Rightarrow> u32 \<Rightarrow> u8 list) \<Rightarrow> u8 list \<Rightarrow> gb_s \<Rightarrow> (u8 list \<times> gb_s) option" where
  "run_init call_read romname gb =
     do { let gb = gb\<lparr>rom_data := blit (rom_data gb) 0 (call_read 0x80000 0)\<rparr>;
          (gb_ret, gb) \<leftarrow> gb_init gb;
          size \<leftarrow> getsavesize gb;
          let gb = (if size \<noteq> 0 then gb\<lparr>cart_ram_data := blit (cart_ram_data gb) 0 (call_read size 0x80000)\<rparr> else gb);
          romname \<leftarrow> getromname gb romname;
          Some (romname, gb) }"

text \<open>The messages that the loop knows, and the video mode message that it dispatches to \<^verbatim>\<open>onvideomode\<close>.\<close>

datatype message = Timertick | Keypress u8 | Keyrelease u8 | Videomode u32 u32 "u32 list"

primrec run_message :: "message \<Rightarrow> host \<Rightarrow> host option" where
  "run_message Timertick h =
     do { gb \<leftarrow> gb_run_frame (host_gb h);
          framebuffer \<leftarrow>
            (case host_framebuffer h of
               None \<Rightarrow> Some None
             | Some target \<Rightarrow>
                 (let s = host_screen h in
                  map_option Some (video_render (video_fb gb) target (scr_w s) (scr_scalew s) (scr_scaleh s)
                    (scr_totw s) (scr_toth s) (scr_offx s) (scr_offy s))));
          Some (h\<lparr>host_gb := gb, host_framebuffer := framebuffer\<rparr>) }"
| "run_message (Keypress scancode) h =
     do { (key, keys) \<leftarrow> keys_getcode (host_keys h) (ucast scancode);
          let h = h\<lparr>host_gb := keypress key (host_gb h), host_keys := keys\<rparr>;
          Some (if key = 0x1001 then h\<lparr>host_active := False\<rparr> else h) }"
| "run_message (Keyrelease scancode) h =
     do { (key, keys) \<leftarrow> keys_getcode (host_keys h) (ucast scancode);
          Some (h\<lparr>host_gb := keyrelease key (host_gb h), host_keys := keys\<rparr>) }"
| "run_message (Videomode vw vh framebuffer) h =
     Some (h\<lparr>host_framebuffer := Some framebuffer, host_screen := onvideomode vw vh\<rparr>)"

text \<open>\<^verbatim>\<open>while (channel_pick(&message, data))\<close> on the messages that arrive.\<close>

primrec run_loop :: "message list \<Rightarrow> host \<Rightarrow> host option" where
  "run_loop [] h = Some h"
| "run_loop (m # ms) h = (if host_active h then do { h \<leftarrow> run_message m h; run_loop ms h } else Some h)"

section \<open>Safety of the program\<close>

text \<open>The states that a number of steps gives.\<close>

primrec iter_step :: "('s \<Rightarrow> 's option) \<Rightarrow> nat \<Rightarrow> 's \<Rightarrow> 's option" where
  "iter_step f 0 s = Some s"
| "iter_step f (Suc n) s = f s \<bind> iter_step f n"

context step_loop
begin

lemma loop_or_forever:
  assumes "\<And>s. J s \<Longrightarrow> \<not> finished s \<Longrightarrow> yields (body s) J" "J s"
  shows "yields (loop s) (\<lambda>s'. finished s' \<and> J s') \<or> (\<forall>n. yields (iter_step body n s) (\<lambda>s'. \<not> finished s' \<and> J s'))"
proof -
  have "yields (loop s) (\<lambda>s'. finished s' \<and> J s')" if "\<not> yields (iter_step body n s) (\<lambda>s'. \<not> finished s' \<and> J s')" for n
    using that assms(2)
  proof (induction n arbitrary: s)
    case 0
    then show ?case by (simp add: loop_unfold [of s])
  next
    case (Suc n)
    show ?case
    proof (cases "finished s")
      case False
      then obtain s' where "body s = Some s'" "J s'" using assms(1) [OF Suc.prems(2)] by (auto simp: yields_def)
      then show ?thesis using Suc False by (simp add: loop_unfold [of s])
    qed (use Suc.prems in \<open>simp add: loop_unfold [of s]\<close>)
  qed
  then show ?thesis by blast
qed

end

definition host_ok :: "u8 list \<Rightarrow> host \<Rightarrow> bool" where
  "host_ok rom h \<longleftrightarrow> gb_ok rom 256 (host_gb h) \<and> layout (host_keys h) = 1 \<and>
     (\<forall>target. host_framebuffer h = Some target \<longrightarrow> screen_ok (video_fb (host_gb h)) (host_screen h) target)"

definition message_ok :: "message \<Rightarrow> bool" where
  "message_ok m = (case m of Videomode vw vh target \<Rightarrow> length target = unat vw * unat vh \<and> length target < 4294967296 | _ \<Rightarrow> True)"

text \<open>A processor that runs forever, every step inside of its arrays.\<close>

definition runs_forever :: "gb_s \<Rightarrow> bool" where
  "runs_forever gb \<longleftrightarrow> (\<forall>n. yields (iter_step gb_step_cpu n (gb\<lparr>gb_frame := False\<rparr>)) (\<lambda>g. \<not> gb_frame g \<and> gb_wf g))"

lemma gb_run_frame_ok:
  assumes "gb_ok rom 256 gb"
  shows "yields (gb_run_frame gb) (gb_ok rom 256) \<or> runs_forever gb"
proof -
  let ?g = "gb\<lparr>gb_frame := False\<rparr>"
  have "gb_ok rom 256 ?g" using assms by (auto simp: gb_ok_def gb_wf_defs)
  from frame_loop.loop_or_forever [where J = "gb_ok rom 256", OF _ this] gb_step_cpu_ok
  have "yields (gb_frame_loop ?g) (\<lambda>g. gb_frame g \<and> gb_ok rom 256 g) \<or>
      (\<forall>n. yields (iter_step gb_step_cpu n ?g) (\<lambda>g. \<not> gb_frame g \<and> gb_ok rom 256 g))"
    by blast
  then show ?thesis
  proof (elim disjE)
    assume "\<forall>n. yields (iter_step gb_step_cpu n ?g) (\<lambda>g. \<not> gb_frame g \<and> gb_ok rom 256 g)"
    then show ?thesis unfolding runs_forever_def by (auto intro: yields_mono simp: gb_ok_def)
  qed (auto simp: gb_run_frame_def intro: yields_mono)
qed

lemma mode_geometry:
  shows "scr_w (onvideomode vw vh) = vw" "unat (scr_scalew (onvideomode vw vh)) = unat vw div 160" "unat (scr_totw (onvideomode vw vh)) = 160 * (unat vw div 160)"
    "unat (scr_offx (onvideomode vw vh)) = unat vw mod 160 div 2"
    "unat (scr_scaleh (onvideomode vw vh)) = unat vh div 144" "unat (scr_toth (onvideomode vw vh)) = 144 * (unat vh div 144)"
    "unat (scr_offy (onvideomode vw vh)) = unat vh mod 144 div 2"
proof -
  have tot: "unat (k * (v div k)) = unat k * (unat v div unat k)" for k v :: u32
  proof -
    have "unat k * (unat v div unat k) \<le> unat v" by simp
    then have "unat k * unat (v div k) < 4294967296" unfolding unat_div using unat_less_u32 [of v] by linarith
    then show ?thesis by (simp add: unat_mult_u32 unat_div)
  qed
  have off: "unat ((v - k * (v div k)) div 2) = unat v mod unat k div 2" for k v :: u32
  proof -
    have "unat (v - k * (v div k)) = unat v - unat k * (unat v div unat k)"
      using tot [of k v] by (subst unat_sub) (simp_all add: word_le_nat_alt)
    then show ?thesis by (simp add: unat_div minus_mult_div_eq_mod)
  qed
  show "scr_w (onvideomode vw vh) = vw" "unat (scr_scalew (onvideomode vw vh)) = unat vw div 160" "unat (scr_totw (onvideomode vw vh)) = 160 * (unat vw div 160)"
    "unat (scr_offx (onvideomode vw vh)) = unat vw mod 160 div 2"
    "unat (scr_scaleh (onvideomode vw vh)) = unat vh div 144" "unat (scr_toth (onvideomode vw vh)) = 144 * (unat vh div 144)"
    "unat (scr_offy (onvideomode vw vh)) = unat vh mod 144 div 2"
    unfolding onvideomode_def Let_def screen.simps tot off by (simp_all add: unat_div)
qed

lemma centred: "v mod k div 2 + k * (v div k) \<le> (v :: nat)"
  using div_le_dividend [of "v mod k" 2] mult_div_mod_eq [of k v] by linarith

lemma screen_of_mode:
  assumes "gb_ok rom d gb" "length target = unat vw * unat vh" "length target < 4294967296"
  shows "screen_ok (video_fb gb) (onvideomode vw vh) target"
proof -
  have "(unat vh mod 144 div 2 + 144 * (unat vh div 144)) * unat vw \<le> length target"
    unfolding assms(2) mult.commute [of "unat vw"] by (intro mult_le_mono1 centred)
  then show ?thesis
    using assms(1,3) centred [of "unat vw" 160] by (simp add: screen_ok_def mode_geometry gb_ok_def gb_wf_defs)
qed

lemma gb_ok_screen:
  assumes "gb_ok rom d gb" "screen_ok fb s target"
  shows "screen_ok (video_fb gb) s target"
  using assms unfolding screen_ok_def gb_ok_def gb_wf_defs by blast

lemma joypad_ok [simp]: "gb_ok rom d (gb\<lparr>joypad := v\<rparr>) = gb_ok rom d gb"
  by (simp add: gb_ok_def gb_wf_defs)

lemma run_message_ok:
  assumes ok: "host_ok rom h" and m: "message_ok m"
  shows "yields (run_message m h) (host_ok rom) \<or> m = Timertick \<and> runs_forever (host_gb h)"
proof (cases m)
  case Timertick
  show ?thesis
  proof (cases "runs_forever (host_gb h)")
    case False
    then have "yields (gb_run_frame (host_gb h)) (gb_ok rom 256)" using ok gb_run_frame_ok by (auto simp: host_ok_def)
    then obtain gb where gb: "gb_run_frame (host_gb h) = Some gb" "gb_ok rom 256 gb" by (auto simp: yields_def)
    show ?thesis
    proof (cases "host_framebuffer h")
      case (Some target)
      then have scr: "screen_ok (video_fb gb) (host_screen h) target" using ok gb(2) gb_ok_screen by (auto simp: host_ok_def)
      then obtain t where "length t = length target" "render_rows (video_fb gb) (scr_w (host_screen h)) (scr_scalew (host_screen h))
          (scr_scaleh (host_screen h)) (scr_totw (host_screen h)) (scr_toth (host_screen h)) (scr_offx (host_screen h))
          (scr_offy (host_screen h)) 0 target = Some t"
        using render_rows_drawn [OF scr, of 0] by (auto simp: yields_def)
      then show ?thesis
        using Timertick Some gb ok screen_ok_length [OF scr] by (auto simp: host_ok_def video_render_def Let_def)
    qed (use Timertick gb ok in \<open>auto simp: host_ok_def\<close>)
  qed (use Timertick in simp)
next
  case (Keypress b)
  obtain i k where "keys_getcode (host_keys h) (ucast b) = Some (i, k)" "layout k = 1"
    using ok unfolding host_ok_def by (blast elim: keys_getcode_total)
  then show ?thesis using Keypress ok by (auto simp: host_ok_def keypress_def Let_def split: option.split)
next
  case (Keyrelease b)
  obtain i k where "keys_getcode (host_keys h) (ucast b) = Some (i, k)" "layout k = 1"
    using ok unfolding host_ok_def by (blast elim: keys_getcode_total)
  then show ?thesis using Keyrelease ok by (auto simp: host_ok_def keyrelease_def split: option.split)
next
  case (Videomode vw vh target)
  then show ?thesis using ok m screen_of_mode by (auto simp: host_ok_def message_ok_def)
qed

lemma run_loop_ok:
  assumes "host_ok rom h" "list_all message_ok ms"
  shows "yields (run_loop ms h) (host_ok rom) \<or>
    (\<exists>pre post h'. ms = pre @ Timertick # post \<and> run_loop pre h = Some h' \<and> host_active h' \<and> runs_forever (host_gb h'))"
  using assms
proof (induction ms arbitrary: h)
  case (Cons m ms)
  show ?case
  proof (cases "host_active h")
    case True
    from Cons.prems have "yields (run_message m h) (host_ok rom) \<or> m = Timertick \<and> runs_forever (host_gb h)"
      by (intro run_message_ok) simp_all
    then show ?thesis
    proof
      assume "yields (run_message m h) (host_ok rom)"
      then obtain h1 where h1: "run_message m h = Some h1" "host_ok rom h1" by (auto simp: yields_def)
      have "list_all message_ok ms" using Cons.prems(2) by simp
      from Cons.IH [OF h1(2) this] show ?thesis
      proof (elim disjE exE conjE)
        fix pre post h'
        assume "ms = pre @ Timertick # post" "run_loop pre h1 = Some h'" "host_active h'" "runs_forever (host_gb h')"
        then show ?thesis
          using h1(1) True by (intro disjI2 exI [of _ "m # pre"] exI [of _ post] exI [of _ h']) simp
      qed (use h1(1) True in simp_all)
    next
      assume "m = Timertick \<and> runs_forever (host_gb h)"
      then show ?thesis using True by (intro disjI2 exI [of _ "[]"] exI [of _ ms] exI [of _ h]) simp
    qed
  qed (use Cons.prems in simp)
qed simp

section \<open>Initialisation\<close>

lemma header_checksum_spec:
  "unat i + n \<le> length (rom_data gb) \<Longrightarrow> length (rom_data gb) < 4294967296 \<Longrightarrow>
   header_checksum n i x gb = Some (x - (\<Sum>j<n. rom_data gb ! (unat i + j) + 1))"
proof (induction n arbitrary: i x)
  case (Suc n)
  then have i: "unat (i + 1) = Suc (unat i)" by (simp add: unat_add_u32)
  have "header_checksum n (i + 1) (x - rom_data gb ! unat i - 1) gb =
      Some (x - rom_data gb ! unat i - 1 - (\<Sum>j<n. rom_data gb ! (unat (i + 1) + j) + 1))"
    using Suc.prems by (intro Suc.IH) (simp_all add: i)
  also have "\<dots> = Some (x - (\<Sum>j<Suc n. rom_data gb ! (unat i + j) + 1))"
    unfolding sum.lessThan_Suc_shift i by (simp add: algebra_simps)
  finally show ?case using Suc.prems by (simp add: gb_rom_read_def)
qed simp

text \<open>A cartridge that the emulator can run: a valid header, a supported mapper without a clock, and sizes in range.\<close>

definition header_valid :: "u8 list \<Rightarrow> bool" where
  "header_valid rom \<longleftrightarrow> (\<Sum>j<25. rom ! (0x134 + j) + 1) + rom ! 0x14D = 0"

definition mapper_known :: "u8 \<Rightarrow> bool" where
  "mapper_known m \<longleftrightarrow> unat m < 32 \<and> cart_mbc ! unat m \<noteq> 255"

definition sizes_ok :: "u8 list \<Rightarrow> bool" where
  "sizes_ok rom \<longleftrightarrow> unat (rom ! 0x148) \<le> 4 \<and> unat (rom ! 0x149) \<le> 4 \<and>
     (cart_mbc ! unat (rom ! 0x147) = 3 \<longrightarrow> cart_ram_table ! unat (rom ! 0x147) = 0)"

definition size_codes :: "u8 list \<Rightarrow> bool" where
  "size_codes rom \<longleftrightarrow> unat (rom ! 0x148) < 96 \<and> unat (rom ! 0x149) < 6"

lemma rom_bank_table:
  assumes "n < 96"
  shows "1 < unat (num_rom_banks_table ! n) \<and> unat (num_rom_banks_table ! n) \<le> 32 \<longleftrightarrow> n \<le> 4"
proof (cases "n < 9")
  case True
  then have "n \<in> {0, 1, 2, 3, 4, 5, 6, 7, 8}" by auto
  then show ?thesis by (auto simp: num_rom_banks_table_def)
next
  case False
  let ?rest = "replicate 73 0 @ [72, 80, 96] @ replicate 11 0 :: u16 list"
  have "num_rom_banks_table ! n = ?rest ! (n - 9)" using False by (simp add: num_rom_banks_table_def nth_append eval_nat_numeral)
  moreover have "?rest ! (n - 9) \<in> set ?rest" using False assms by (intro nth_mem) simp
  ultimately have "num_rom_banks_table ! n \<in> {0, 72, 80, 96}" by auto
  then show ?thesis using False by auto
qed

lemma ram_bank_table:
  assumes "n < 6"
  shows "unat (num_ram_banks_table ! n) \<le> 16"
proof -
  have "n \<in> {0, 1, 2, 3, 4, 5}" using assms by auto
  then show ?thesis by (auto simp: num_ram_banks_table_def)
qed

lemma gb_write_palettes:
  "gb_write gb 0xFF47 v = Some (gb\<lparr>BGP := v, bg_palette := palette4 v\<rparr>)"
  "gb_write gb 0xFF48 v = Some (gb\<lparr>OBP0 := v, sp_palette := palette4 v @ drop 4 (sp_palette gb)\<rparr>)"
  "gb_write gb 0xFF49 v = Some (gb\<lparr>OBP1 := v, sp_palette := take 4 (sp_palette gb) @ palette4 v\<rparr>)"
  by (simp_all add: gb_write_def gb_high_write_def gb_io_write_def)

lemma gb_reset_spec:
  assumes "gb_arrays gb" "list_all (list_all pixel_ok) (video_fb gb)" "unat (num_ram_banks gb) \<le> 16"
  shows "yields (gb_reset gb) (\<lambda>g. rom_data g = rom_data gb \<and> div_count g = 0 \<and> reg_pc g = 0x100 \<and>
    reg_sp g = 0xFFFE \<and> gb_ime g \<and> \<not> gb_halt g \<and>
    (gb_wf g \<longleftrightarrow> 1 < unat (num_rom_banks gb) \<and> unat (num_rom_banks gb) \<le> 32 \<and> (mbc gb = 3 \<longrightarrow> cart_ram gb = 0)))"
  using assms
  by (auto simp: gb_reset_def Let_def gb_write_palettes set_bc_def set_de_def set_hl_def gb_wf_defs palette4_def bit_and_iff)

text \<open>The members that \<^verbatim>\<open>gb_init\<close> sets before it looks at the cartridge.\<close>

abbreviation gb_prepared :: "gb_s \<Rightarrow> gb_s" where
  "gb_prepared gb \<equiv> gb\<lparr>gb_serial_transfer := None, interlace := False, interlace_count := False,
     frame_skip := False, frame_skip_count := False, window_clear := 0, display_WY := 0\<rparr>"

lemma minus_eq: "(- s = v) = ((s :: u8) + v = 0)"
  by (simp add: neg_eq_iff_add_eq_0)

lemma gb_init_checksum:
  assumes "length (rom_data gb) = 0x80000"
  shows "header_checksum 25 0x134 0 (gb_prepared gb) = Some (- (\<Sum>j<25. rom_data gb ! (0x134 + j) + 1))"
    "(- (\<Sum>j<25. rom_data gb ! (0x134 + j) + 1) = rom_data gb ! 0x14D) = header_valid (rom_data gb)"
proof -
  show "header_checksum 25 0x134 0 (gb_prepared gb) = Some (- (\<Sum>j<25. rom_data gb ! (0x134 + j) + 1))"
    using header_checksum_spec [of "0x134" 25 "gb_prepared gb" 0] assms
    by simp
  show "(- (\<Sum>j<25. rom_data gb ! (0x134 + j) + 1) = rom_data gb ! 0x14D) = header_valid (rom_data gb)"
    unfolding header_valid_def by (rule minus_eq)
qed

lemma table_lengths:
  "length cart_mbc = 32" "length cart_ram_table = 32" "length num_rom_banks_table = 96" "length num_ram_banks_table = 6"
  by (simp_all add: cart_mbc_def cart_ram_table_def num_rom_banks_table_def num_ram_banks_table_def)

lemma gb_init_spec:
  assumes arr: "gb_arrays gb" and fb: "list_all (list_all pixel_ok) (video_fb gb)"
    and head: "header_valid (rom_data gb)" "mapper_known (rom_data gb ! 0x147)" "size_codes (rom_data gb)"
  shows "yields (gb_init gb) (\<lambda>(e, g). e = GB_INIT_NO_ERROR \<and> rom_data g = rom_data gb \<and> div_count g = 0 \<and>
    reg_pc g = 0x100 \<and> reg_sp g = 0xFFFE \<and> gb_ime g \<and> \<not> gb_halt g \<and>
    (gb_wf g \<longleftrightarrow> unat (rom_data gb ! 0x148) \<le> 4 \<and>
      (cart_mbc ! unat (rom_data gb ! 0x147) = 3 \<longrightarrow> cart_ram_table ! unat (rom_data gb ! 0x147) = 0)))"
proof -
  have len: "length (rom_data gb) = 0x80000" using arr by (simp add: gb_arrays_def)
  define m where "m = unat (rom_data gb ! 0x147)"
  have m: "m < 32" "\<not> rom_data gb ! 0x147 > 31" "cart_mbc ! m \<noteq> 255"
    using head(2) by (simp_all add: mapper_known_def m_def word_less_nat_alt)
  define a where "a = unat (rom_data gb ! 0x148)"
  define b where "b = unat (rom_data gb ! 0x149)"
  have ab: "a < 96" "b < 6" using head(3) by (simp_all add: size_codes_def a_def b_def)
  let ?g = "(gb_prepared gb)\<lparr>mbc := cart_mbc ! m, cart_ram := cart_ram_table ! m, num_rom_banks := num_rom_banks_table ! a,
    num_ram_banks := num_ram_banks_table ! b\<rparr>"
  have init: "gb_init gb = do { g \<leftarrow> gb_reset ?g; Some (GB_INIT_NO_ERROR, g) }"
    using len table_lengths m ab head(1) gb_init_checksum [OF len]
    by (simp add: gb_init_def gb_rom_read_def m_def [symmetric] a_def [symmetric] b_def [symmetric])
  have "gb_arrays ?g" "list_all (list_all pixel_ok) (video_fb ?g)" "unat (num_ram_banks ?g) \<le> 16"
    using arr fb ram_bank_table [OF ab(2)] by (simp_all add: gb_arrays_def)
  from gb_reset_spec [OF this] show ?thesis
    unfolding init m_def [symmetric] a_def [symmetric] using rom_bank_table [OF ab(1)] by (auto simp: yields_def)
qed

lemma gb_init_ok:
  assumes "gb_arrays gb" "list_all (list_all pixel_ok) (video_fb gb)"
    and "header_valid (rom_data gb)" "mapper_known (rom_data gb ! 0x147)" "sizes_ok (rom_data gb)"
  shows "yields (gb_init gb) (\<lambda>(e, g). e = GB_INIT_NO_ERROR \<and> gb_ok (rom_data gb) 256 g \<and> reg_pc g = 0x100 \<and>
    reg_sp g = 0xFFFE \<and> gb_ime g \<and> \<not> gb_halt g)"
  using gb_init_spec [OF assms(1-4)] assms(5)
  by (auto simp: yields_def gb_ok_def sizes_ok_def size_codes_def)

text \<open>A size code beyond the end of its table is used as an index all the same.\<close>

lemma gb_init_faults:
  assumes "length (rom_data gb) = 0x80000"
    and "header_valid (rom_data gb)" "mapper_known (rom_data gb ! 0x147)" "\<not> size_codes (rom_data gb)"
  shows "gb_init gb = None"
  using assms gb_init_checksum [OF assms(1)] table_lengths
  by (auto simp: gb_init_def gb_rom_read_def mapper_known_def size_codes_def word_less_nat_alt Let_def rd_def)

lemma gb_init_rejects:
  assumes "length (rom_data gb) = 0x80000"
  shows "\<not> header_valid (rom_data gb) \<Longrightarrow> yields (gb_init gb) (\<lambda>(e, g). e = GB_INIT_INVALID_CHECKSUM)"
    "header_valid (rom_data gb) \<Longrightarrow> \<not> mapper_known (rom_data gb ! 0x147) \<Longrightarrow>
      yields (gb_init gb) (\<lambda>(e, g). e = GB_INIT_CARTRIDGE_UNSUPPORTED)"
  using assms gb_init_checksum [OF assms]
  by (auto simp: gb_init_def gb_rom_read_def mapper_known_def word_less_nat_alt cart_mbc_def Let_def)

text \<open>The title: with a byte that is no title character among the 16, the terminating zero is inside of the array.\<close>

definition title_char :: "u8 \<Rightarrow> bool" where
  "title_char c \<longleftrightarrow> 32 \<le> sint c \<and> sint c \<le> 95"

lemma romname_loop_ok:
  assumes "unat loc + n \<le> length (rom_data gb)" "length (rom_data gb) < 4294967296"
    "\<exists>j<n. \<not> title_char (rom_data gb ! (unat loc + j))" "k + n \<le> length title"
  shows "yields (romname_loop n loc k title gb) (\<lambda>(k', t). k' < k + n \<and> length t = length title)"
  using assms
proof (induction n arbitrary: loc k title)
  case (Suc n)
  show ?case
  proof (cases "title_char (rom_data gb ! unat loc)")
    case True
    have i: "unat (loc + 1) = Suc (unat loc)" using Suc.prems(1,2) by (simp add: unat_add_u32)
    have "\<exists>j<n. \<not> title_char (rom_data gb ! (unat (loc + 1) + j))"
    proof -
      obtain j where j: "j < Suc n" "\<not> title_char (rom_data gb ! (unat loc + j))" using Suc.prems(3) by blast
      then have "j \<noteq> 0" using True by (cases j) auto
      then show ?thesis using j by (intro exI [of _ "j - 1"]) (simp add: i)
    qed
    then have "yields (romname_loop n (loc + 1) (k + 1) (title[k := rom_data gb ! unat loc]) gb)
        (\<lambda>(k', t). k' < k + 1 + n \<and> length t = length (title[k := rom_data gb ! unat loc]))"
      using Suc.prems i by (intro Suc.IH) simp_all
    then show ?thesis using True Suc.prems by (simp add: title_char_def gb_rom_read_def)
  qed (use Suc.prems in \<open>auto simp: title_char_def gb_rom_read_def\<close>)
qed simp

lemma getromname_ok:
  assumes "length (rom_data gb) = 0x80000" "\<exists>j<16. \<not> title_char (rom_data gb ! (0x134 + j))" "length title = 16"
  shows "yields (getromname gb title) (\<lambda>t. length t = 16)"
proof -
  have "yields (romname_loop 16 0x134 0 title gb) (\<lambda>(k', t). k' < 0 + 16 \<and> length t = length title)"
    using assms by (intro romname_loop_ok) simp_all
  then show ?thesis using assms(3) by (auto simp: getromname_def yields_def)
qed

lemma getsavesize_ok:
  assumes "length (rom_data gb) = 0x80000" "unat (rom_data gb ! 0x149) \<le> 4"
  shows "yields (getsavesize gb) (\<lambda>n. unat n \<le> 0x20000)"
proof -
  have "unat (rom_data gb ! 0x149) \<in> {0, 1, 2, 3, 4}" using assms(2) by auto
  then show ?thesis using assms(1) by (auto simp: getsavesize_def gb_rom_read_def)
qed

lemma run_init_ok:
  assumes reads: "\<forall>n offset. length (call_read n offset) \<le> unat n"
    and arr: "gb_arrays gb" and fb: "list_all (list_all pixel_ok) (video_fb gb)" and name: "length romname = 16"
    and rom: "rom = blit (rom_data gb) 0 (call_read 0x80000 0)"
    and head: "header_valid rom" "mapper_known (rom ! 0x147)" "sizes_ok rom" "\<exists>j<16. \<not> title_char (rom ! (0x134 + j))"
  shows "yields (run_init call_read romname gb) (\<lambda>(title, g). gb_ok rom 256 g \<and> reg_pc g = 0x100)"
proof -
  let ?g = "gb\<lparr>rom_data := rom\<rparr>"
  have "length (call_read 0x80000 0) \<le> 0x80000" using reads [rule_format, of "0x80000" 0] by simp
  then have len: "length rom = 0x80000" using arr by (simp add: rom gb_arrays_def)
  then obtain g where g: "gb_init ?g = Some (GB_INIT_NO_ERROR, g)" "gb_ok rom 256 g" "reg_pc g = 0x100"
    using gb_init_ok [of ?g] arr fb head by (auto simp: yields_def gb_arrays_def)
  then have rg: "rom_data g = rom" by (simp add: gb_ok_def)
  obtain n where n: "getsavesize g = Some n" "unat n \<le> 0x20000"
    using getsavesize_ok [of g] head(3) len rg by (auto simp: yields_def sizes_ok_def)
  define g1 where "g1 = (if n \<noteq> 0 then g\<lparr>cart_ram_data := blit (cart_ram_data g) 0 (call_read n 0x80000)\<rparr> else g)"
  have "length (call_read n 0x80000) \<le> 0x20000" using reads n(2) le_trans by blast
  then have g1: "gb_ok rom 256 g1" "reg_pc g1 = 0x100" using g by (auto simp: g1_def gb_ok_def gb_wf_defs)
  then obtain t where "getromname g1 romname = Some t"
    using getromname_ok [of g1 romname] len head(4) name by (auto simp: yields_def gb_ok_def)
  then have "run_init call_read romname gb = Some (t, g1)"
    using g(1) n(1) by (simp add: run_init_def rom [symmetric] g1_def [symmetric])
  then show ?thesis using g1 by simp
qed

section \<open>The clock\<close>

text \<open>The clock registers as a number of seconds below 512 days.\<close>

fun rtc_seconds :: "u8 list \<Rightarrow> nat" where
  "rtc_seconds [sec, mins, hour, yday, high] =
     unat sec + 60 * (unat mins + 60 * (unat hour + 24 * (unat yday + 256 * of_bool (bit high 0))))"
| "rtc_seconds _ = 0"

text \<open>A running clock: no register beyond its range, and of the last one only the day and the overflow bit in use.\<close>

fun rtc_runs :: "u8 list \<Rightarrow> bool" where
  "rtc_runs [sec, mins, hour, yday, high] \<longleftrightarrow>
     unat sec < 60 \<and> unat mins < 60 \<and> unat hour < 24 \<and> high \<in> {0, 1, 0x80, 0x81}"
| "rtc_runs _ = False"

definition rtc_overflow :: "u8 list \<Rightarrow> bool" where
  "rtc_overflow rtc \<longleftrightarrow> bit (rtc ! 4) 7"

lemma u8_inc: "unat (v :: u8) + 1 < 256 \<Longrightarrow> unat (v + 1) = unat v + 1"
  by (simp add: unat_word_ariths)

lemma u8_next: "unat (v :: u8) < 255 \<Longrightarrow> v + 1 = k \<longleftrightarrow> unat v + 1 = unat k"
  by (simp add: word_unat_eq_iff u8_inc)

lemma u8_wraps: "(v :: u8) + 1 = 0 \<longleftrightarrow> unat v = 255"
proof (cases "unat v < 255")
  case False
  then have "unat v = 255" using unat_less_u8 [of v] by linarith
  then show ?thesis using unat_eq_of_nat [of v 255] by simp
qed (simp add: u8_next)

lemma rtc_seconds_less: "rtc_runs rtc \<Longrightarrow> rtc_seconds rtc < 44236800"
proof (induction rtc rule: rtc_runs.induct)
  case (1 sec mins hour yday high)
  define z :: nat where "z = of_bool (bit high 0)"
  have "unat sec \<le> 59" "unat mins \<le> 59" "unat hour \<le> 23" "unat yday \<le> 255" "z \<le> 1"
    using 1 unat_less_u8 [of yday] by (auto simp: z_def simp del: unat_less_u8)
  then have "unat sec + 60 * (unat mins + 60 * (unat hour + 24 * (unat yday + 256 * z))) \<le>
      59 + 60 * (59 + 60 * (23 + 24 * (255 + 256 * 1)))"
    by (intro add_mono mult_le_mono2)
  then show ?case by (simp add: z_def)
qed simp_all

text \<open>A tick without a day overflow, and the five cases of a tick.\<close>

lemma rtc_tick_plain:
  assumes "rtc_tick rtc = Some rtc'" "rtc_runs rtc'" "rtc_seconds rtc' = rtc_seconds rtc + 1" "rtc' ! 4 = rtc ! 4"
  shows "yields (rtc_tick rtc) (\<lambda>rtc'. rtc_runs rtc' \<and> rtc_seconds rtc' = (rtc_seconds rtc + 1) mod 44236800 \<and>
    (rtc_overflow rtc' \<longleftrightarrow> rtc_overflow rtc \<or> rtc_seconds rtc + 1 = 44236800))"
  using rtc_seconds_less [OF assms(2)] assms by (auto simp: rtc_overflow_def)

lemma rtc_tick_counts:
  assumes "rtc_runs [sec, mins, hour, yday, high]"
  defines "rtc \<equiv> [sec, mins, hour, yday, high]"
  shows "yields (rtc_tick rtc) (\<lambda>rtc'. rtc_runs rtc' \<and> rtc_seconds rtc' = (rtc_seconds rtc + 1) mod 44236800 \<and>
    (rtc_overflow rtc' \<longleftrightarrow> rtc_overflow rtc \<or> rtc_seconds rtc + 1 = 44236800))"
proof -
  have r: "unat sec < 60" "unat mins < 60" "unat hour < 24" and h: "high \<in> {0, 1, 0x80, 0x81}" using assms(1) by simp_all
  have carry: "sec + 1 = 60 \<longleftrightarrow> unat sec = 59" "mins + 1 = 60 \<longleftrightarrow> unat mins = 59" "hour + 1 = 24 \<longleftrightarrow> unat hour = 23"
    using r by (auto simp: u8_next)
  consider "unat sec \<noteq> 59" | "unat sec = 59" "unat mins \<noteq> 59" | "unat sec = 59" "unat mins = 59" "unat hour \<noteq> 23"
    | "unat sec = 59" "unat mins = 59" "unat hour = 23" "unat yday \<noteq> 255"
    | "unat sec = 59" "unat mins = 59" "unat hour = 23" "unat yday = 255" by blast
  then show ?thesis
  proof cases
    case 1
    show ?thesis by (rule rtc_tick_plain [of _ "[sec + 1, mins, hour, yday, high]"]) (use 1 r h carry in \<open>auto simp: rtc_def u8_inc\<close>)
  next
    case 2
    show ?thesis by (rule rtc_tick_plain [of _ "[0, mins + 1, hour, yday, high]"]) (use 2 r h carry in \<open>auto simp: rtc_def u8_inc\<close>)
  next
    case 3
    show ?thesis by (rule rtc_tick_plain [of _ "[0, 0, hour + 1, yday, high]"]) (use 3 r h carry in \<open>auto simp: rtc_def u8_inc\<close>)
  next
    case 4
    have "unat yday + 1 < 256" using 4(4) unat_less_u8 [of yday] by linarith
    then show ?thesis
      by (intro rtc_tick_plain [of _ "[0, 0, 0, yday + 1, high]"]) (use 4 h carry in \<open>auto simp: rtc_def u8_inc u8_wraps\<close>)
  next
    case 5
    then have "rtc_tick rtc = Some [0, 0, 0, 0, if high AND 1 \<noteq> 0 then (high OR 0x80) XOR 1 else high XOR 1]"
      using carry u8_wraps [of yday] by (simp add: rtc_def Let_def)
    then show ?thesis using 5 h by (auto simp: rtc_def rtc_overflow_def)
  qed
qed

lemma gb_tick_rtc_runs:
  assumes "rtc_runs (cart_rtc gb)"
  shows "yields (gb_tick_rtc gb) (\<lambda>g. rtc_runs (cart_rtc g) \<and> rtc_seconds (cart_rtc g) = (rtc_seconds (cart_rtc gb) + 1) mod 44236800 \<and>
    (rtc_overflow (cart_rtc g) \<longleftrightarrow> rtc_overflow (cart_rtc gb) \<or> rtc_seconds (cart_rtc gb) + 1 = 44236800))"
proof -
  obtain sec mins hour yday high where r: "cart_rtc gb = [sec, mins, hour, yday, high]"
    using assms by (cases "cart_rtc gb" rule: rtc_runs.cases) auto
  then have "high \<in> {0, 1, 0x80, 0x81}" using assms by simp
  then have "high AND 0x40 = 0" by auto
  then show ?thesis using rtc_tick_counts [of sec mins hour yday high] assms by (simp add: gb_tick_rtc_def r)
qed

lemma rtc_ticks:
  assumes "rtc_runs (cart_rtc gb)"
  shows "yields (iter_step gb_tick_rtc n gb) (\<lambda>g. rtc_runs (cart_rtc g) \<and>
    rtc_seconds (cart_rtc g) = (rtc_seconds (cart_rtc gb) + n) mod 44236800 \<and>
    (rtc_overflow (cart_rtc g) \<longleftrightarrow> rtc_overflow (cart_rtc gb) \<or> 44236800 \<le> rtc_seconds (cart_rtc gb) + n))"
  using assms
proof (induction n arbitrary: gb)
  case 0
  then show ?case using rtc_seconds_less [OF 0] by simp
next
  case (Suc n)
  obtain g where g: "gb_tick_rtc gb = Some g" "rtc_runs (cart_rtc g)"
    "rtc_seconds (cart_rtc g) = (rtc_seconds (cart_rtc gb) + 1) mod 44236800"
    "rtc_overflow (cart_rtc g) \<longleftrightarrow> rtc_overflow (cart_rtc gb) \<or> rtc_seconds (cart_rtc gb) + 1 = 44236800"
    using gb_tick_rtc_runs [OF Suc.prems] by (auto simp: yields_def)
  have wrap: "44236800 \<le> rtc_seconds (cart_rtc g) + n \<or> rtc_seconds (cart_rtc gb) + 1 = 44236800 \<longleftrightarrow>
      44236800 \<le> rtc_seconds (cart_rtc gb) + Suc n"
    using rtc_seconds_less [OF Suc.prems] unfolding g(3) by (cases "rtc_seconds (cart_rtc gb) + 1 = 44236800") auto
  have "yields (iter_step gb_tick_rtc (Suc n) gb) (\<lambda>g'. rtc_runs (cart_rtc g') \<and>
    rtc_seconds (cart_rtc g') = (rtc_seconds (cart_rtc g) + n) mod 44236800 \<and>
    (rtc_overflow (cart_rtc g') \<longleftrightarrow> rtc_overflow (cart_rtc g) \<or> 44236800 \<le> rtc_seconds (cart_rtc g) + n))"
    using Suc.IH [OF g(2)] g(1) by simp
  then show ?case by (rule yields_mono) (use g(3,4) wrap in \<open>auto simp: mod_add_left_eq\<close>)
qed

lemma gb_set_rtc_runs:
  assumes "length (cart_rtc gb) = 5" "unat (tm_sec t) < 60" "unat (tm_min t) < 60" "unat (tm_hour t) < 24" "unat (tm_yday t) < 512"
  shows "yields (gb_set_rtc gb t) (\<lambda>g. rtc_runs (cart_rtc g) \<and> \<not> rtc_overflow (cart_rtc g) \<and>
    rtc_seconds (cart_rtc g) = unat (tm_sec t) + 60 * (unat (tm_min t) + 60 * (unat (tm_hour t) + 24 * unat (tm_yday t))))"
proof -
  obtain a b c d e where r: "cart_rtc gb = [a, b, c, d, e]" using assms(1) by (auto simp: numeral_eq_Suc length_Suc_conv)
  have small: "unat (ucast v :: u8) = unat v" if "unat (v :: u32) < 256" for v
    using that by (simp add: unsigned_ucast_eq take_bit_nat_eq_self)
  have low: "unat (ucast (tm_yday t AND 0xFF) :: u8) = unat (tm_yday t) mod 256"
  proof -
    have "tm_yday t AND 0xFF = take_bit 8 (tm_yday t)" by (simp add: take_bit_eq_mask mask_eq_exp_minus_1)
    then show ?thesis by (simp add: unsigned_ucast_eq unsigned_take_bit_eq take_bit_eq_mod unat_mod)
  qed
  have "unat (drop_bit 8 (tm_yday t)) = unat (tm_yday t) div 256" by (simp only: unat_drop_bit_eq) (simp add: drop_bit_eq_div)
  then have high: "unat (ucast (drop_bit 8 (tm_yday t)) :: u8) = unat (tm_yday t) div 256"
    using assms(5) small [of "drop_bit 8 (tm_yday t)"] by simp
  have "unat (tm_yday t) div 256 = 0 \<or> unat (tm_yday t) div 256 = 1" using assms(5) by auto
  then have "ucast (drop_bit 8 (tm_yday t)) = (of_bool (unat (tm_yday t) div 256 = 1) :: u8)"
    using high unat_eq_of_nat [of "ucast (drop_bit 8 (tm_yday t)) :: u8"] by auto
  moreover have "unat (tm_yday t) = unat (tm_yday t) mod 256 + 256 * of_bool (unat (tm_yday t) div 256 = 1)"
    using \<open>unat (tm_yday t) div 256 = 0 \<or> unat (tm_yday t) div 256 = 1\<close> mod_div_mult_eq [of "unat (tm_yday t)" 256]
    by (elim disjE) simp_all
  ultimately show ?thesis
    using assms(2-4) small low
    by (cases "unat (tm_yday t) div 256 = 1") (simp_all add: gb_set_rtc_def r rtc_overflow_def)
qed

section \<open>Properties\<close>

text \<open>
  C2: The program is memory safe. Started on a cartridge with a valid header, a supported mapper
  without clock registers, size codes in range and a title of fewer than 16 characters, the
  initialisation succeeds, and for any sequence of key presses, key releases, video modes that
  describe their frame buffers and timer ticks, the message loop either handles all of them inside of every array, or serves them up to a
  timer tick whose frame never ends, every processor step of it staying inside of the arrays. Messages of other
  kinds, which \<^verbatim>\<open>channel_dispatch\<close> gets, are not part of the model. What the kernel call
  reads is assumed to be no longer than asked for.
\<close>

theorem run_safe:
  assumes "\<forall>n offset. length (call_read n offset) \<le> unat n"
    and "gb_arrays gb" "list_all (list_all pixel_ok) (video_fb gb)" "length romname = 16"
    and "rom = blit (rom_data gb) 0 (call_read 0x80000 0)"
    and "header_valid rom" "mapper_known (rom ! 0x147)" "sizes_ok rom" "\<exists>j<16. \<not> title_char (rom ! (0x134 + j))"
    and "list_all message_ok ms"
  shows "\<exists>title g. run_init call_read romname gb = Some (title, g) \<and>
    (let h = \<lparr>host_gb = g, host_keys = keys_init k 1 1, host_framebuffer = None, host_screen = scr, host_active = True\<rparr> in
     (\<exists>h'. run_loop ms h = Some h' \<and> gb_wf (host_gb h')) \<or>
     (\<exists>pre post h'. ms = pre @ Timertick # post \<and> run_loop pre h = Some h' \<and> runs_forever (host_gb h')))"
proof -
  obtain title g where g: "run_init call_read romname gb = Some (title, g)" "gb_ok rom 256 g"
    using run_init_ok [OF assms(1-9)] by (auto simp: yields_def)
  let ?h = "\<lparr>host_gb = g, host_keys = keys_init k 1 1, host_framebuffer = None, host_screen = scr, host_active = True\<rparr>"
  have "host_ok rom ?h" using g(2) by (simp add: host_ok_def keys_init_def)
  from run_loop_ok [OF this assms(10)]
  have "(\<exists>h'. run_loop ms ?h = Some h' \<and> gb_wf (host_gb h')) \<or>
     (\<exists>pre post h'. ms = pre @ Timertick # post \<and> run_loop pre ?h = Some h' \<and> runs_forever (host_gb h'))"
    by (auto simp: yields_def host_ok_def gb_ok_def)
  then show ?thesis using g(1) by (simp add: Let_def)
qed

definition demo_rom :: "u32 \<Rightarrow> u32 \<Rightarrow> u8 list" where
  "demo_rom n offset = (if n = 0x80000 then replicate 0x14D 0 @ [0xE7] else [])"

lemma demo_rom_ok:
  defines "rom \<equiv> blit (rom_data gb_blank) 0 (demo_rom 0x80000 0)"
  shows "header_valid rom" "mapper_known (rom ! 0x147)" "sizes_ok rom" "\<exists>j<16. \<not> title_char (rom ! (0x134 + j))"
proof -
  have rom: "rom ! i = (if i = 0x14D then 0xE7 else 0)" if "i < 0x80000" for i
    using that by (simp add: rom_def blit_def demo_rom_def gb_blank_def nth_append)
  have "(\<Sum>j<25. rom ! (0x134 + j) + 1) = (\<Sum>j<25 :: nat. 1)" by (rule sum.cong) (simp_all add: rom)
  then show "header_valid rom" by (simp add: header_valid_def rom)
  show "mapper_known (rom ! 0x147)" "sizes_ok rom" by (simp_all add: mapper_known_def sizes_ok_def rom cart_mbc_def)
  show "\<exists>j<16. \<not> title_char (rom ! (0x134 + j))" by (intro exI [of _ 0]) (simp add: rom title_char_def)
qed

theorem run_safe_witness:
  "\<exists>title g. run_init demo_rom (replicate 16 0) gb_blank = Some (title, g) \<and>
    (let h = \<lparr>host_gb = g, host_keys = keys_init \<lparr>layout = 0, keymap = 0, extended = 0, mods = 0, key_id = 0, key_code = no_code\<rparr> 1 1,
       host_framebuffer = None, host_screen = onvideomode 0 0, host_active = True\<rparr> in
     (\<exists>h'. run_loop [Keypress 0x1C, Videomode 2 1 [0, 0], Timertick] h = Some h' \<and> gb_wf (host_gb h')) \<or>
     (\<exists>pre post h'. [Keypress 0x1C, Videomode 2 1 [0, 0], Timertick] = pre @ Timertick # post \<and> run_loop pre h = Some h' \<and>
       runs_forever (host_gb h')))"
  by (rule run_safe [where rom = "blit (rom_data gb_blank) 0 (demo_rom 0x80000 0)", OF _ _ _ _ _ demo_rom_ok])
     (use gb_blank_wf in \<open>simp_all add: demo_rom_def gb_wf_def gb_pixels_def message_ok_def\<close>)

text \<open>
  C18: The picture on the screen. On a screen of \<open>vw\<close> by \<open>vh\<close> pixels whose frame buffer has exactly that
  size, \<^verbatim>\<open>video_render\<close> with the geometry of \<^verbatim>\<open>onvideomode\<close> stays inside of the frame buffer: the picture,
  every pixel scaled by the same whole factors, is centred, and the pixels around it are unchanged.
\<close>

theorem video_render_scales:
  assumes "gb_wf gb" "length target = unat vw * unat vh" "length target < 4294967296"
  defines "s \<equiv> onvideomode vw vh" and "w \<equiv> unat vw" and "sx \<equiv> unat vw div 160" and "sy \<equiv> unat vh div 144"
    and "ox \<equiv> unat vw mod 160 div 2" and "oy \<equiv> unat vh mod 144 div 2"
  shows "\<exists>t. video_render (video_fb gb) target (scr_w s) (scr_scalew s) (scr_scaleh s) (scr_totw s) (scr_toth s) (scr_offx s) (scr_offy s) = Some t \<and>
    length t = length target \<and>
    (\<forall>y x. y < unat vh \<longrightarrow> x < w \<longrightarrow> t ! (y * w + x) =
      (if oy \<le> y \<and> y < oy + 144 * sy \<and> ox \<le> x \<and> x < ox + 160 * sx
       then shade_colour (video_fb gb ! ((y - oy) div sy) ! ((x - ox) div sx)) else target ! (y * w + x)))"
proof -
  have "gb_ok (rom_data gb) (Suc (unat (div_count gb))) gb" using assms(1) by (simp add: gb_ok_def)
  then have "screen_ok (video_fb gb) s target" unfolding s_def using assms(2,3) by (rule screen_of_mode)
  from render_rows_drawn [OF this, of 0] obtain t where
    "video_render (video_fb gb) target (scr_w s) (scr_scalew s) (scr_scaleh s) (scr_totw s) (scr_toth s) (scr_offx s) (scr_offy s) = Some t"
    "length t = length target" "\<And>k. t ! k = drawn (video_fb gb) s (unat (scr_offy s)) (unat (scr_offy s) + unat (scr_toth s)) target k"
    by (auto simp: yields_def video_render_def)
  moreover have "(y * w + x) div w = y" "(y * w + x) mod w = x" if "x < w" for x y using that by simp_all
  ultimately show ?thesis
    by (intro exI [of _ t]) (simp add: drawn_def Let_def s_def mode_geometry w_def sx_def sy_def ox_def oy_def)
qed

theorem video_render_scales_witness:
  "\<exists>t. video_render (video_fb gb_blank) (replicate 92160 7) 320 2 2 320 288 0 0 = Some t \<and> length t = 92160 \<and>
    t ! (7 * 320 + 7) = 0x00FFFFFF"
proof -
  have s: "onvideomode 320 288 = \<lparr>scr_w = 320, scr_h = 288, scr_scalew = 2, scr_scaleh = 2, scr_totw = 320, scr_toth = 288,
      scr_offx = 0, scr_offy = 0\<rparr>"
    by (simp add: onvideomode_def Let_def)
  have fb: "video_fb gb_blank ! 3 ! 3 = 0" by (simp add: gb_blank_def)
  show ?thesis
    using video_render_scales [OF gb_blank_wf, of "replicate 92160 7" 320 288] unfolding s
    by (auto simp: shade_colour_def fb dest!: spec [of _ "7 :: nat"] spec [of _ "7 :: nat"])
qed

text \<open>
  C21: The real time clock keeps time. Set to a time of day and a day below 512 and ticked any number of
  times, its registers are in range and hold that time advanced by as many seconds, modulo 512 days, and
  the overflow bit is set exactly when the day counter has wrapped.
\<close>

theorem rtc_keeps_time:
  assumes "length (cart_rtc gb) = 5" "unat (tm_sec t) < 60" "unat (tm_min t) < 60" "unat (tm_hour t) < 24" "unat (tm_yday t) < 512"
  defines "start \<equiv> unat (tm_sec t) + 60 * (unat (tm_min t) + 60 * (unat (tm_hour t) + 24 * unat (tm_yday t)))"
  shows "\<exists>g. gb_set_rtc gb t \<bind> iter_step gb_tick_rtc n = Some g \<and> rtc_runs (cart_rtc g) \<and>
    rtc_seconds (cart_rtc g) = (start + n) mod 44236800 \<and> (rtc_overflow (cart_rtc g) \<longleftrightarrow> 44236800 \<le> start + n)"
proof -
  obtain g where "gb_set_rtc gb t = Some g" "rtc_runs (cart_rtc g)" "\<not> rtc_overflow (cart_rtc g)" "rtc_seconds (cart_rtc g) = start"
    using gb_set_rtc_runs [OF assms(1-5)] by (auto simp: yields_def start_def)
  then show ?thesis using rtc_ticks [of g n] by (auto simp: yields_def)
qed

theorem rtc_keeps_time_witness:
  "\<exists>g. gb_set_rtc gb_blank \<lparr>tm_sec = 50, tm_min = 59, tm_hour = 23, tm_yday = 511\<rparr> \<bind> iter_step gb_tick_rtc 25 = Some g \<and>
    rtc_runs (cart_rtc g) \<and> rtc_seconds (cart_rtc g) = 15 \<and> rtc_overflow (cart_rtc g)"
  using rtc_keeps_time [of gb_blank "\<lparr>tm_sec = 50, tm_min = 59, tm_hour = 23, tm_yday = 511\<rparr>" 25] by (simp add: gb_blank_def)

text \<open>
  C39: The frame loop does not return while the display is off. If the processor is halted with no
  interrupt enabled and the display is switched off, \<^verbatim>\<open>gb_run_frame\<close> returns no state; from a state
  of the invariant that is no fault but a loop without end: any number of
  steps can be made, and none of them sets the frame flag.
\<close>

theorem gb_run_frame_hangs:
  assumes "gb_halt gb" "IE gb AND 0x1F = 0" "LCDC gb AND 0x80 = 0"
  shows "gb_run_frame gb = None \<and> (gb_wf gb \<and> unat (div_count gb) < 256 \<longrightarrow> runs_forever gb)"
proof -
  have none: "gb_run_frame gb = None" by (rule gb_run_frame_stuck [OF assms])
  moreover have "runs_forever gb" if "gb_wf gb" "unat (div_count gb) < 256"
    using gb_run_frame_ok [of "rom_data gb" gb] that none by (simp add: gb_ok_def yields_def)
  ultimately show ?thesis by blast
qed

theorem gb_run_frame_hangs_witness:
  "gb_run_frame (gb_blank\<lparr>gb_halt := True, LCDC := 0\<rparr>) = None \<and> runs_forever (gb_blank\<lparr>gb_halt := True, LCDC := 0\<rparr>)"
proof -
  have "gb_wf (gb_blank\<lparr>gb_halt := True, LCDC := 0\<rparr>)" using gb_blank_wf by (simp add: gb_wf_defs)
  then show ?thesis
    using gb_run_frame_hangs [of "gb_blank\<lparr>gb_halt := True, LCDC := 0\<rparr>"] by (simp add: gb_blank_def)
qed

text \<open>
  C28: what \<^verbatim>\<open>gb_init\<close> does with every cartridge. A wrong header checksum and an unknown mapper are
  reported as such. Any other cartridge is accepted without a further check: a size code
  beyond its table is a read out of bounds, and with codes inside of the tables
  \<^verbatim>\<open>gb_init\<close> reports success with the processor at the entry point and interrupts on. The invariant of the
  emulator is established exactly for a ROM of 2 to 32 banks, which is what the image has room for, on a
  mapper other than an MBC3 with cartridge RAM.
\<close>

theorem gb_init_classifies:
  assumes "gb_arrays gb" "list_all (list_all pixel_ok) (video_fb gb)"
  shows "(\<not> header_valid (rom_data gb) \<longrightarrow> (\<exists>g. gb_init gb = Some (GB_INIT_INVALID_CHECKSUM, g))) \<and>
    (header_valid (rom_data gb) \<and> \<not> mapper_known (rom_data gb ! 0x147) \<longrightarrow>
      (\<exists>g. gb_init gb = Some (GB_INIT_CARTRIDGE_UNSUPPORTED, g))) \<and>
    (header_valid (rom_data gb) \<and> mapper_known (rom_data gb ! 0x147) \<and> \<not> size_codes (rom_data gb) \<longrightarrow>
      gb_init gb = None) \<and>
    (header_valid (rom_data gb) \<and> mapper_known (rom_data gb ! 0x147) \<and> size_codes (rom_data gb) \<longrightarrow>
      (\<exists>g. gb_init gb = Some (GB_INIT_NO_ERROR, g) \<and> rom_data g = rom_data gb \<and> reg_pc g = 0x100 \<and>
        reg_sp g = 0xFFFE \<and> gb_ime g \<and> \<not> gb_halt g \<and>
        (gb_wf g \<longleftrightarrow> unat (rom_data gb ! 0x148) \<le> 4 \<and>
          (cart_mbc ! unat (rom_data gb ! 0x147) = 3 \<longrightarrow> cart_ram_table ! unat (rom_data gb ! 0x147) = 0))))"
proof -
  have "length (rom_data gb) = 0x80000" using assms(1) by (simp add: gb_arrays_def)
  then show ?thesis
    using gb_init_rejects [of gb] gb_init_faults [of gb] gb_init_spec [OF assms] by (auto simp: yields_def)
qed

theorem gb_init_classifies_witness:
  "(\<exists>g. gb_init gb_blank = Some (GB_INIT_INVALID_CHECKSUM, g)) \<and>
   (\<exists>g. gb_init (gb_blank\<lparr>rom_data := blit (rom_data gb_blank) 0 (demo_rom 0x80000 0)\<rparr>) = Some (GB_INIT_NO_ERROR, g) \<and>
      gb_wf g \<and> reg_pc g = 0x100)"
proof
  have "\<not> header_valid (rom_data gb_blank)" by (simp add: header_valid_def gb_blank_def)
  then show "\<exists>g. gb_init gb_blank = Some (GB_INIT_INVALID_CHECKSUM, g)"
    using gb_init_classifies [of gb_blank] gb_blank_wf by (simp add: gb_wf_def gb_pixels_def)
next
  let ?rom = "blit (rom_data gb_blank) 0 (demo_rom 0x80000 0)"
  have "gb_arrays (gb_blank\<lparr>rom_data := ?rom\<rparr>)" "list_all (list_all pixel_ok) (video_fb gb_blank)"
    using gb_blank_wf by (simp_all add: gb_wf_defs demo_rom_def)
  moreover have "size_codes ?rom" using demo_rom_ok(3) by (auto simp: sizes_ok_def size_codes_def)
  ultimately show "\<exists>g. gb_init (gb_blank\<lparr>rom_data := ?rom\<rparr>) = Some (GB_INIT_NO_ERROR, g) \<and> gb_wf g \<and> reg_pc g = 0x100"
    using gb_init_classifies [of "gb_blank\<lparr>rom_data := ?rom\<rparr>"] demo_rom_ok(1-3) by (auto simp: sizes_ok_def)
qed

end
