(* ===== verification/Spec2Isabelle.thy ===== *)
theory Spec2Isabelle
  imports C_Base Libz_Buffer Libz_Ring Libz_Spinlock Libz_List Libz_Cstring Libz_Format Libz_P9p Libz_Net Libz_Dns
    Gb_Step Gb_Rows Gb_Safe Gb_Draw Gb_Frame Gb_Proc Gb_Stack Libz_Keys Libz_Socket Gb_Host
begin

text \<open>
  A verification library for the run time library \<^verbatim>\<open>libz\<close> of the operating system in this
  repository and for its Game Boy emulator \<^verbatim>\<open>src/gameboy\<close> (paths are below \<^verbatim>\<open>src/\<close>).

  \<^bold>\<open>The program and its parts.\<close> \<^verbatim>\<open>libz\<close> is linked into the kernel modules and the user programs. Its
  lowest layer is the byte blocks of \<^verbatim>\<open>fudge/buffer.c\<close>; strings and the formatted writer
  (\<^verbatim>\<open>fudge/cstring.c\<close>) are written through them, and so are the 9P messages (\<^verbatim>\<open>fudge/p9p.c\<close>) and the
  network headers (\<^verbatim>\<open>net/\<close>). Drivers hand bytes to programs through the ring of \<^verbatim>\<open>fudge/ring.c\<close> and keep their
  objects in the locked lists of \<^verbatim>\<open>fudge/list.c\<close>. \<^verbatim>\<open>socket/socket.c\<close> builds and takes apart frames with the routines
  of \<^verbatim>\<open>net/\<close> and holds the state of connections. The emulator is a program on top: \<^verbatim>\<open>gameboy.c\<close> receives
  messages, decodes scan codes with \<^verbatim>\<open>fudge/keys.c\<close>, runs a frame of \<^verbatim>\<open>cpu.c\<close> for a timer tick and
  draws the picture with \<^verbatim>\<open>video.c\<close>.

  \<^bold>\<open>Conventions.\<close> The target is i686: \<^verbatim>\<open>unsigned int\<close> and pointers are 32 bit words, \<^verbatim>\<open>char\<close> is signed.
  An array is the list of its elements; every access goes through \<^const>\<open>rd\<close> and \<^const>\<open>wr\<close>, which give None
  outside of the list, and so does a division by zero. A routine that may access memory returns an
  option, and a theorem that a result is \<open>Some\<close> says that the run has no such fault. Integers have the width of
  the source and wrap. A loop whose counter bounds it is a recursion on the counter or has a termination
  proof; the loops that need not end (\<^const>\<open>dns_namesize_loop\<close>, \<^const>\<open>dns_writename_loop\<close>,
  \<^const>\<open>gb_frame_loop\<close>) are partial functions to option. For these None may be a fault or no
  return; the theorems that say which of the two use the steps of the loop, \<^const>\<open>dns_writename_steps\<close>
  and \<^const>\<open>iter_step\<close>. There is no fuel in the model; counts that stand for fixed loop bounds of
  the source (25 header bytes, 16 title characters, 160 pixels) are the bounds of the source.

  \<^bold>\<open>Prelude and interfaces.\<close>
  \<^item> \<open>C_Base\<close>: machine types, checked access, \<^const>\<open>blit\<close> and \<^const>\<open>seg\<close> and their laws.
  \<^item> \<open>Byte_Codec\<close>: the contract of a field in a buffer; interpreted on the little-endian fields of 9P and the
    big-endian fields of \<^verbatim>\<open>net.c\<close>.
  \<^item> \<open>Byte_Queue\<close>: the contract of a bounded byte queue and the integrity of a stream through one; interpreted on
    the ring.
  \<^item> The lock contract in \<open>Libz_Spinlock\<close> is interpreted on the list operations, the loop contract in \<open>Gb_Frame\<close>
    on the frame loop, and the byte store in \<open>Gb_Stack\<close> on the memory map.

  \<^bold>\<open>Theories of \<^verbatim>\<open>libz\<close>.\<close>
  \<^item> \<open>Libz_Buffer\<close> (\<^verbatim>\<open>fudge/buffer.c\<close>): every routine; a clipped write reads back.
  \<^item> \<open>Libz_Ring\<close> (\<^verbatim>\<open>fudge/ring.c\<close>): every routine; the ring refines a bounded deque, keeps a stream,
    moves between rings, and overwrites: what is right below capacity and the fault on a
    full ring.
  \<^item> \<open>Libz_Spinlock\<close> (\<^verbatim>\<open>fudge/spinlock.c\<close>, \<^verbatim>\<open>x86/atomic.s\<close>, the stubs of the other ports): threads as a step relation;
    mutual exclusion from the contract, and its failure with the stub.
  \<^item> \<open>Libz_List\<close> (\<^verbatim>\<open>fudge/list.c\<close>): every routine, one statement per assignment; refinement of a sequence with
    the frame of each operation, and its statements under any interleaving of threads.
  \<^item> \<open>Libz_Cstring\<close>, \<open>Libz_Format\<close> (\<^verbatim>\<open>fudge/cstring.c\<close>): every routine; comparison, numbers written and read back
    in the bases and widths that fit, and the formatted writer against the text a format denotes.
  \<^item> \<open>Libz_P9p\<close> (\<^verbatim>\<open>fudge/p9p.c\<close>): every routine; the bytes of all requests and replies, two of
    which leave out their stat record, and the round trip of a walk.
  \<^item> \<open>Libz_Net\<close> (\<^verbatim>\<open>net/net.c\<close>, \<^verbatim>\<open>ethernet.c\<close>, \<^verbatim>\<open>arp.c\<close>, \<^verbatim>\<open>ipv4.c\<close>, \<^verbatim>\<open>icmp.c\<close>, \<^verbatim>\<open>tcp.c\<close>, \<^verbatim>\<open>udp.c\<close>): every routine; the IPv4 header, the transport checksums against the Internet checksum of the pseudo header and the packet, and their read beyond an odd packet.
  \<^item> \<open>Libz_Dns\<close> (\<^verbatim>\<open>net/dns.c\<close>): every routine; the round trip of a name and compression pointers: resolved, out of
    bounds, or never ending.
  \<^item> \<open>Libz_Socket\<close> (\<^verbatim>\<open>socket/socket.c\<close>): every routine; the handshake of two sockets, delivery of a stream, address
    resolution, and two faults. What the network delivers is a list of receive buffers; sent
    frames are appended to a list. \<^verbatim>\<open>handletcp\<close> is modelled with the TCP header read
    before the state is looked at, which adds no access for a frame that holds a header.
  \<^item> \<open>Libz_Keys\<close> (\<^verbatim>\<open>fudge/keys.c\<close>): layouts, maps and the decoder against a keyboard of key events.

  \<^bold>\<open>Theories of the emulator\<close> (\<^verbatim>\<open>src/gameboy\<close>).
  \<^item> \<open>Gb_State\<close>, \<open>Gb_Memory\<close>, \<open>Gb_Video\<close>, \<open>Gb_Cpu\<close>, \<open>Gb_Step\<close>: \<^verbatim>\<open>struct gb_s\<close> as a record; \<^verbatim>\<open>__gb_read\<close>, \<^verbatim>\<open>__gb_write\<close>, the clock;
    \<^verbatim>\<open>__gb_draw_line\<close>; the instruction switch, one case per opcode; the rest of \<^verbatim>\<open>__gb_step_cpu\<close>, frames, reset and
    initialisation.
  \<^item> \<open>Gb_Spec\<close>, \<open>Gb_Equiv\<close>, \<open>Gb_Rows\<close>: a decoder and a reference semantics; every opcode of the switch does what its decoded
    instruction says. Decimal adjustment, jump conditions, calls, returns, restarts and the fetch of a 16
    bit operand are shared by the two, and are described on their own in \<open>Gb_Proc\<close> and \<open>Gb_Stack\<close>.
  \<^item> \<open>Gb_Safe\<close>, \<open>Gb_Draw\<close>, \<open>Gb_Frame\<close>: the invariant, that a step keeps it without a fault, the lines of
    background and window, and when a frame returns.
  \<^item> \<open>Gb_Proc\<close>, \<open>Gb_Stack\<close>: decimal addition and subtraction, calls, interrupts.
  \<^item> \<open>Gb_Host\<close>: \<^verbatim>\<open>video_render\<close>, the clock over time, \<^verbatim>\<open>gb_init\<close> on every cartridge, a frame that
    never ends, and the safety of the program from its start through any sequence of key, video mode and timer messages.

  \<^bold>\<open>Parameters.\<close> The contents that the kernel call reads from the cartridge file and the messages of the event loop are
    arguments; the safety of the program assumes of the call only that it returns no more than was asked for.

  \<^bold>\<open>Not modelled.\<close> Sound (switched off by \<^verbatim>\<open>ENABLE_AUDIO\<close>), the messages other than the video mode
  that \<^verbatim>\<open>run\<close> hands on to \<^verbatim>\<open>channel_dispatch\<close>, the kernel calls and channels of \<^verbatim>\<open>libz/abi\<close>, the file formats,
  hashes and floating point of \<^verbatim>\<open>libz\<close>, the drivers and programs around port and kernel input and output, and
  the other kernels of the repository, which are not linked with the modelled parts.
\<close>

end
